(* ===== verification/DosPrelude.thy ===== *)
theory DosPrelude
  imports Main "HOL-Library.Word"
begin

text \<open>
  Shared vocabulary of the development: the fixed-width integers of the C sources, the byte
  strings they are moved in, the little-endian accessors that several source files repeat, and
  a flat byte memory over 32-bit addresses with the read/overwrite algebra that every proof about
  guest memory rests on. The collection \<open>mem_simps\<close> holds the rewriting laws of that algebra.
\<close>

unbundle bit_operations_syntax

named_theorems mem_simps \<open>read-over-write laws of flat byte memories\<close>

type_synonym u8 = "8 word"
type_synonym u16 = "16 word"
type_synonym u32 = "32 word"
type_synonym u64 = "64 word"
type_synonym bytes = "u8 list"
type_synonym memory = "u32 \<Rightarrow> u8"

text \<open>\<open>KERNEL_OBJECT_HANDLE_INVALID\<close> of \<open>include/address.h\<close>, the all-ones handle.\<close>

definition KERNEL_OBJECT_HANDLE_INVALID :: u64 where
  "KERNEL_OBJECT_HANDLE_INVALID = - 1"

text \<open>The test that many components repeat under a private name: an identity is neither zero nor
  the invalid handle.\<close>

definition valid_identity :: "u64 \<Rightarrow> bool" where
  "valid_identity identity \<longleftrightarrow> identity \<noteq> 0 \<and> identity \<noteq> KERNEL_OBJECT_HANDLE_INVALID"

subsection \<open>Word bounds\<close>

lemma unat_u8_less: "unat (v :: u8) < 0x100"
  using unsigned_less [of v, where ?'a = nat] by simp

lemma unat_u16_less: "unat (v :: u16) < 0x10000"
  using unsigned_less [of v, where ?'a = nat] by simp

lemma unat_u32_less: "unat (v :: u32) < 0x100000000"
  using unsigned_less [of v, where ?'a = nat] by simp

lemma unat_u64_less: "unat (v :: u64) < 0x10000000000000000"
  using unsigned_less [of v, where ?'a = nat] by simp

lemma unat_ucast_8_16 [simp]: "unat (ucast (w :: u8) :: u16) = unat w"
  by (simp add: unsigned_ucast_eq take_bit_nat_eq_self_iff order_less_le_trans [OF unat_u8_less])

lemma unat_ucast_8_32 [simp]: "unat (ucast (w :: u8) :: u32) = unat w"
  by (simp add: unsigned_ucast_eq take_bit_nat_eq_self_iff order_less_le_trans [OF unat_u8_less])

lemma unat_ucast_16_32 [simp]: "unat (ucast (w :: u16) :: u32) = unat w"
  by (simp add: unsigned_ucast_eq take_bit_nat_eq_self_iff order_less_le_trans [OF unat_u16_less])

lemma unat_ucast_32_64 [simp]: "unat (ucast (w :: u32) :: u64) = unat w"
  by (simp add: unsigned_ucast_eq take_bit_nat_eq_self_iff order_less_le_trans [OF unat_u32_less])

lemma unat_low20: "unat ((v :: u32) AND 0x000fffff) = unat v mod 0x100000"
proof -
  have "(0x000fffff :: u32) = mask 20" by (simp add: mask_eq_exp_minus_1)
  then have "v AND 0x000fffff = take_bit 20 v" by (simp add: take_bit_eq_mask)
  then show ?thesis by (simp add: take_bit_eq_mod unat_mod_distrib)
qed

lemma ucast_add_of_nat_u16:
  assumes "unat (w :: u16) + i < 2 ^ 16"
  shows "(ucast (w + of_nat i) :: u32) = ucast w + of_nat i"
proof -
  have "unat (w + of_nat i) = unat w + i"
    using assms by (simp add: unat_word_ariths unat_of_nat)
  moreover have "unat (ucast w + of_nat i :: u32) = unat w + i"
    using assms by (simp add: unat_word_ariths unat_of_nat)
  ultimately show ?thesis
    by (simp add: word_unat_eq_iff)
qed

subsection \<open>Little-endian fields\<close>

definition read_le16 :: "bytes \<Rightarrow> u16" where
  "read_le16 bs = (ucast (bs ! 0) OR push_bit 8 (ucast (bs ! 1)))"

definition read_le32 :: "bytes \<Rightarrow> u32" where
  "read_le32 bs = (ucast (bs ! 0) OR push_bit 8 (ucast (bs ! 1)) OR
     push_bit 16 (ucast (bs ! 2)) OR push_bit 24 (ucast (bs ! 3)))"

text \<open>\<open>write_le16 bs k v\<close> stores \<open>v\<close> at offset \<open>k\<close> of the buffer \<open>bs\<close>.\<close>

definition write_le16 :: "bytes \<Rightarrow> nat \<Rightarrow> u16 \<Rightarrow> bytes" where
  "write_le16 bs k v = bs[k := ucast v, k + 1 := ucast (drop_bit 8 v)]"

lemma length_write_le16 [simp]: "length (write_le16 bs k v) = length bs"
  by (simp add: write_le16_def)

lemma le16_join [simp]:
  "(ucast (ucast v :: u8) OR push_bit 8 (ucast (ucast (drop_bit 8 v) :: u8)) :: u16) = v"
proof (rule bit_word_eqI)
  fix n assume "n < LENGTH(16)"
  then have "n < 16" by simp
  then show "bit (ucast (ucast v :: u8) OR push_bit 8 (ucast (ucast (drop_bit 8 v) :: u8)) :: u16) n
      \<longleftrightarrow> bit v n"
    by (cases "n < 8") (auto simp: bit_simps)
qed

lemma read_write_le16 [simp]:
  assumes "k + 1 < length bs"
  shows "read_le16 (drop k (write_le16 bs k v)) = v"
  using assms by (simp add: read_le16_def write_le16_def)

lemma write_le16_other [simp]:
  "i \<noteq> k \<Longrightarrow> i \<noteq> k + 1 \<Longrightarrow> write_le16 bs k v ! i = bs ! i"
  by (simp add: write_le16_def)

lemma read_le16_cong:
  "bs ! 0 = cs ! 0 \<Longrightarrow> bs ! 1 = cs ! 1 \<Longrightarrow> read_le16 bs = read_le16 cs"
  by (simp add: read_le16_def)

subsection \<open>Flat byte memory\<close>

text \<open>\<open>mem_read m a n\<close> are the \<open>n\<close> bytes from address \<open>a\<close>; \<open>mem_write m a bs\<close> overwrites the
  range that starts at \<open>a\<close> with \<open>bs\<close>. Addresses wrap modulo \<open>2 ^ 32\<close>; every use stays below it.\<close>

definition mem_read :: "memory \<Rightarrow> u32 \<Rightarrow> nat \<Rightarrow> bytes" where
  "mem_read m a n = map (\<lambda>i. m (a + of_nat i)) [0..<n]"

definition mem_write :: "memory \<Rightarrow> u32 \<Rightarrow> bytes \<Rightarrow> memory" where
  "mem_write m a bs = (\<lambda>x. if unat (x - a) < length bs then bs ! unat (x - a) else m x)"

text \<open>The addresses of the range of \<open>n\<close> bytes from \<open>a\<close>.\<close>

definition in_range :: "u32 \<Rightarrow> nat \<Rightarrow> u32 \<Rightarrow> bool" where
  "in_range a n x \<longleftrightarrow> unat (x - a) < n"

lemma length_mem_read [simp]: "length (mem_read m a n) = n"
  by (simp add: mem_read_def)

lemma nth_mem_read [simp]: "i < n \<Longrightarrow> mem_read m a n ! i = m (a + of_nat i)"
  by (simp add: mem_read_def)

lemma mem_read_0 [simp]: "mem_read m a 0 = []"
  by (simp add: mem_read_def)

lemma mem_write_Nil [simp]: "mem_write m a [] = m"
  by (simp add: mem_write_def fun_eq_iff)

lemma unat_of_nat_u32: "i < 2 ^ 32 \<Longrightarrow> unat (of_nat i :: u32) = i"
  by (simp add: unat_of_nat)

lemma mem_write_inside [mem_simps]:
  assumes "i < length bs" and "length bs \<le> 2 ^ 32"
  shows "mem_write m a bs (a + of_nat i) = bs ! i"
  using assms by (simp add: mem_write_def unat_of_nat_u32)

lemma mem_write_outside [mem_simps]:
  "\<not> in_range a (length bs) x \<Longrightarrow> mem_write m a bs x = m x"
  by (simp add: mem_write_def in_range_def)

lemma mem_read_write_same [mem_simps]:
  assumes "length bs \<le> 2 ^ 32"
  shows "mem_read (mem_write m a bs) a (length bs) = bs"
  using assms by (intro nth_equalityI) (simp_all add: mem_write_inside)

lemma mem_read_cong:
  assumes "\<And>i. i < n \<Longrightarrow> m (a + of_nat i) = m' (a + of_nat i)"
  shows "mem_read m a n = mem_read m' a n"
  using assms by (simp add: mem_read_def)

lemma mem_write_restores:
  assumes "\<And>x. \<not> in_range a n x \<Longrightarrow> m' x = m x"
  shows "mem_write m' a (mem_read m a n) = m"
proof
  fix x
  show "mem_write m' a (mem_read m a n) x = m x"
    using assms by (cases "in_range a n x") (auto simp: mem_write_def in_range_def)
qed

lemma mem_read_append:
  "mem_read m a (k + l) = mem_read m a k @ mem_read m (a + of_nat k) l"
proof (rule nth_equalityI)
  fix i assume i: "i < length (mem_read m a (k + l))"
  show "mem_read m a (k + l) ! i = (mem_read m a k @ mem_read m (a + of_nat k) l) ! i"
  proof (cases "i < k")
    case False
    then have "(of_nat i :: u32) = of_nat k + of_nat (i - k)"
      by (metis le_add_diff_inverse not_less of_nat_add)
    with False i show ?thesis by (simp add: nth_append add.assoc)
  qed (use i in \<open>simp add: nth_append\<close>)
qed simp

lemma mem_write_snoc:
  assumes "length bs < 2 ^ 32"
  shows "mem_write mm a (bs @ [x]) = (mem_write mm a bs)(a + of_nat (length bs) := x)"
proof
  fix y
  have len: "unat (of_nat (length bs) :: u32) = length bs"
    using assms by (rule unat_of_nat_u32)
  have "y = a + of_nat (length bs) \<longleftrightarrow> unat (y - a) = length bs"
    using len by (metis add_diff_cancel_left' diff_add_cancel add.commute word_unat_eq_iff)
  then show "mem_write mm a (bs @ [x]) y = ((mem_write mm a bs)(a + of_nat (length bs) := x)) y"
    by (auto simp: mem_write_def nth_append)
qed

end
