(* ===== verification/MemoryMap.thy ===== *)
theory MemoryMap
  imports DosPrelude
begin

text \<open>
  The consumers' view of the BIOS E820 handoff: \<open>include/x86_boot_info.h\<close>, \<open>include/x86_memory_map.h\<close>
  and \<open>kernel/x86_vm/memory/map.c\<close>. The handoff is a value; a NULL handoff pointer is \<open>None\<close>. The reference
  notion is a single byte: it is usable when some enabled range declares it usable memory and no range
  of another type covers it. The queries are proved against it, although they work on intervals,
  sort and compact boundaries, or chase coverage from a cursor.
\<close>

section \<open>The handoff\<close>

record x86_boot_memory_range =
  range_base :: u64
  range_length :: u64
  range_type :: u32
  range_attributes :: u32

record x86_boot_platform_handoff =
  platform_flags :: u32
  rtc_century_bcd :: u8
  rtc_year_bcd :: u8
  rtc_month_bcd :: u8
  rtc_day_bcd :: u8
  rtc_hour_bcd :: u8
  rtc_minute_bcd :: u8
  rtc_second_bcd :: u8
  rtc_daylight :: u8
  display_active_dcc :: u8
  display_inactive_dcc :: u8
  platform_reserved :: bytes

text \<open>The storage part of the handoff is not read by the memory-map code; it is left out.\<close>

record x86_boot_info =
  boot_signature :: u32
  boot_version :: u16
  header_bytes :: u16
  range_bytes :: u16
  range_count :: u16
  boot_flags :: u32
  boot_platform :: x86_boot_platform_handoff
  boot_ranges :: "x86_boot_memory_range list"

definition X86_BOOT_INFO_SIGNATURE :: u32 where "X86_BOOT_INFO_SIGNATURE = 0x32494258"
definition X86_BOOT_INFO_VERSION :: u16 where "X86_BOOT_INFO_VERSION = 4"
definition X86_BOOT_INFO_HEADER_BYTES :: u16 where "X86_BOOT_INFO_HEADER_BYTES = 168"
definition X86_BOOT_MEMORY_RANGE_BYTES :: u16 where "X86_BOOT_MEMORY_RANGE_BYTES = 24"
definition X86_BOOT_MEMORY_RANGE_COUNT :: u16 where "X86_BOOT_MEMORY_RANGE_COUNT = 64"
definition X86_BOOT_INFO_FLAG_MASK :: u32 where "X86_BOOT_INFO_FLAG_MASK = 3"
definition X86_BOOT_PLATFORM_FLAG_MASK :: u32 where "X86_BOOT_PLATFORM_FLAG_MASK = 3"
definition X86_BOOT_MEMORY_USABLE :: u32 where "X86_BOOT_MEMORY_USABLE = 1"
definition X86_BOOT_MEMORY_ENABLED :: u32 where "X86_BOOT_MEMORY_ENABLED = 1"

text \<open>The loops \<open>for (index = 0; index < range_count; ++index)\<close> visit these ranges.\<close>

definition used_ranges :: "x86_boot_info \<Rightarrow> x86_boot_memory_range list" where
  "used_ranges bi = take (unat (range_count bi)) (boot_ranges bi)"

definition range_limit :: "x86_boot_memory_range \<Rightarrow> u64" where
  "range_limit r = range_base r + range_length r"

section \<open>Validation\<close>

definition add_overflow_u64 :: "u64 \<Rightarrow> u64 \<Rightarrow> u64 \<times> bool" where
  "add_overflow_u64 left right = (left + right, left + right < left)"

definition boot_platform_header_is_well_formed :: "x86_boot_platform_handoff \<Rightarrow> bool" where
  "boot_platform_header_is_well_formed p \<longleftrightarrow>
     (platform_flags p AND NOT X86_BOOT_PLATFORM_FLAG_MASK) = 0 \<and> list_all (\<lambda>x. x = 0) (platform_reserved p)"

definition range_is_well_formed :: "x86_boot_memory_range \<Rightarrow> bool" where
  "range_is_well_formed r \<longleftrightarrow>
     \<not> (range_length r = 0 \<or> range_type r = 0 \<or> (range_attributes r AND X86_BOOT_MEMORY_ENABLED) = 0 \<or>
        snd (add_overflow_u64 (range_base r) (range_length r)))"

definition x86_memory_map_is_valid :: "x86_boot_info option \<Rightarrow> bool" where
  "x86_memory_map_is_valid boot_info =
     (case boot_info of
        None \<Rightarrow> False
      | Some bi \<Rightarrow>
          boot_signature bi = X86_BOOT_INFO_SIGNATURE \<and> boot_version bi = X86_BOOT_INFO_VERSION \<and>
          header_bytes bi = X86_BOOT_INFO_HEADER_BYTES \<and> range_bytes bi = X86_BOOT_MEMORY_RANGE_BYTES \<and>
          range_count bi \<noteq> 0 \<and> range_count bi \<le> X86_BOOT_MEMORY_RANGE_COUNT \<and>
          boot_flags bi = X86_BOOT_INFO_FLAG_MASK \<and>
          boot_platform_header_is_well_formed (boot_platform bi) \<and>
          list_all range_is_well_formed (used_ranges bi))"

section \<open>Boundaries\<close>

text \<open>The insertion sort works in place: \<open>shift_loop\<close> is its inner loop, moving larger elements up.\<close>

fun shift_loop :: "u64 list \<Rightarrow> nat \<Rightarrow> u64 \<Rightarrow> u64 list \<times> nat" where
  "shift_loop boundaries 0 v = (boundaries, 0)"
| "shift_loop boundaries (Suc position) v =
     (if boundaries ! position > v
      then shift_loop (boundaries[Suc position := boundaries ! position]) position v
      else (boundaries, Suc position))"

definition sort_step :: "nat \<Rightarrow> u64 list \<Rightarrow> u64 list" where
  "sort_step index boundaries =
     (let v = boundaries ! index; (shifted, position) = shift_loop boundaries index v
      in shifted[position := v])"

definition sort_boundaries :: "u64 list \<Rightarrow> nat \<Rightarrow> u64 list" where
  "sort_boundaries boundaries count = fold sort_step [1..<count] boundaries"

definition compact_step :: "nat \<Rightarrow> u64 list \<times> nat \<Rightarrow> u64 list \<times> nat" where
  "compact_step input state =
     (case state of (boundaries, output) \<Rightarrow>
        if output \<noteq> 0 \<and> boundaries ! (output - 1) = boundaries ! input then (boundaries, output)
        else (boundaries[output := boundaries ! input], output + 1))"

definition compact_boundaries :: "u64 list \<Rightarrow> nat \<Rightarrow> u64 list \<times> nat" where
  "compact_boundaries boundaries count = fold compact_step [0..<count] (boundaries, 0)"

section \<open>Queries\<close>

fun interval_loop :: "x86_boot_memory_range list \<Rightarrow> u64 \<Rightarrow> u64 \<Rightarrow> bool \<Rightarrow> bool" where
  "interval_loop [] base limit covered = covered"
| "interval_loop (r # rs) base limit covered =
     (if range_base r > base \<or> range_limit r < limit then interval_loop rs base limit covered
      else if range_type r \<noteq> X86_BOOT_MEMORY_USABLE then False
      else interval_loop rs base limit True)"

definition interval_is_usable :: "x86_boot_info \<Rightarrow> u64 \<Rightarrow> u64 \<Rightarrow> bool" where
  "interval_is_usable bi base limit = interval_loop (used_ranges bi) base limit False"

record x86_memory_map_snapshot =
  usable_bytes :: u64
  highest_usable_address :: u64
  physical_address_limit :: u64
  usable_extent_count :: u32
  firmware_range_count :: u32

fun query_loop ::
  "x86_boot_info \<Rightarrow> u64 list \<Rightarrow> x86_memory_map_snapshot \<Rightarrow> bool \<Rightarrow> x86_memory_map_snapshot option" where
  "query_loop bi (base # limit # rest) s previous_usable =
     (if base = limit then query_loop bi (limit # rest) s previous_usable
      else if \<not> interval_is_usable bi base limit then query_loop bi (limit # rest) s False
      else (let extent = limit - base
            in if usable_bytes s > NOT 0 - extent then None
               else query_loop bi (limit # rest)
                      (s\<lparr>usable_bytes := usable_bytes s + extent, highest_usable_address := limit - 1,
                         usable_extent_count := (if previous_usable then usable_extent_count s
                                                 else usable_extent_count s + 1)\<rparr>) True))"
| "query_loop bi _ s previous_usable = Some s"

definition x86_memory_map_query :: "x86_boot_info option \<Rightarrow> x86_memory_map_snapshot option" where
  "x86_memory_map_query boot_info =
     (case boot_info of
        None \<Rightarrow> None
      | Some bi \<Rightarrow>
          if \<not> x86_memory_map_is_valid boot_info then None
          else (let boundaries = concat (map (\<lambda>r. [range_base r, range_limit r]) (used_ranges bi));
                    limit = fold (\<lambda>r acc. if range_limit r > acc then range_limit r else acc) (used_ranges bi) 0;
                    boundary_count = 2 * unat (range_count bi);
                    sorted = sort_boundaries boundaries boundary_count;
                    (compacted, boundary_count) = compact_boundaries sorted boundary_count;
                    prepared = \<lparr>usable_bytes = 0, highest_usable_address = 0, physical_address_limit = limit,
                      usable_extent_count = 0, firmware_range_count = 0\<rparr>
                in (case query_loop bi (take boundary_count compacted) prepared False of
                      None \<Rightarrow> None
                    | Some s \<Rightarrow> if usable_bytes s = 0 then None
                                else Some (s\<lparr>firmware_range_count := ucast (range_count bi)\<rparr>))))"

definition x86_memory_map_usable_limit :: "x86_boot_info option \<Rightarrow> u64 option" where
  "x86_memory_map_usable_limit boot_info =
     (case boot_info of
        None \<Rightarrow> None
      | Some bi \<Rightarrow>
          if \<not> x86_memory_map_is_valid boot_info then None
          else (let limit = fold (\<lambda>r acc. if range_type r \<noteq> X86_BOOT_MEMORY_USABLE then acc
                              else if range_limit r > acc then range_limit r else acc) (used_ranges bi) 0
                in if limit = 0 then None else Some limit))"

definition covered_until :: "x86_boot_memory_range list \<Rightarrow> u64 \<Rightarrow> u64" where
  "covered_until rs cursor =
     fold (\<lambda>r acc. if range_type r \<noteq> X86_BOOT_MEMORY_USABLE \<or> range_base r > cursor then acc
                   else if range_limit r > acc then range_limit r else acc) rs cursor"

lemma covered_until_ge: "cursor \<le> covered_until rs cursor"
proof -
  have "cursor \<le> fold (\<lambda>r acc. if range_type r \<noteq> X86_BOOT_MEMORY_USABLE \<or> range_base r > c then acc
      else if range_limit r > acc then range_limit r else acc) rs a" if "cursor \<le> a" for c a
    using that by (induction rs arbitrary: a) (auto simp: less_imp_le)
  then show ?thesis by (simp add: covered_until_def)
qed

function coverage_loop :: "x86_boot_memory_range list \<Rightarrow> u64 \<Rightarrow> u64 \<Rightarrow> bool" where
  "coverage_loop rs limit cursor =
     (if cursor < limit then
        (if covered_until rs cursor = cursor then False
         else coverage_loop rs limit
                (if covered_until rs cursor < limit then covered_until rs cursor else limit))
      else True)"
  by pat_completeness auto
termination
proof (relation "measure (\<lambda>(rs, limit, cursor). unat limit - unat cursor)", goal_cases)
  case (2 rs limit cursor)
  then have "cursor < covered_until rs cursor"
    using covered_until_ge [of cursor rs] by (simp add: order_less_le)
  with 2 show ?case by (auto simp: word_less_nat_alt)
qed simp

declare coverage_loop.simps [simp del]

definition x86_memory_map_range_is_usable :: "x86_boot_info option \<Rightarrow> u64 \<Rightarrow> u64 \<Rightarrow> bool" where
  "x86_memory_map_range_is_usable boot_info base byte_count =
     (case boot_info of
        None \<Rightarrow> False
      | Some bi \<Rightarrow>
          (let (limit, overflow) = add_overflow_u64 base byte_count
           in if byte_count = 0 \<or> overflow \<or> \<not> x86_memory_map_is_valid boot_info then False
              else if list_ex (\<lambda>r. range_type r \<noteq> X86_BOOT_MEMORY_USABLE \<and> range_base r < limit \<and>
                                base < range_limit r) (used_ranges bi) then False
              else coverage_loop (used_ranges bi) limit base))"

section \<open>Usable bytes\<close>

definition covers :: "x86_boot_memory_range \<Rightarrow> nat \<Rightarrow> bool" where
  "covers r x \<longleftrightarrow> unat (range_base r) \<le> x \<and> x < unat (range_base r) + unat (range_length r)"

definition byte_usable :: "x86_boot_info \<Rightarrow> nat \<Rightarrow> bool" where
  "byte_usable bi x \<longleftrightarrow>
     (\<exists>r \<in> set (used_ranges bi). range_type r = X86_BOOT_MEMORY_USABLE \<and> covers r x) \<and>
     (\<forall>r \<in> set (used_ranges bi). range_type r \<noteq> X86_BOOT_MEMORY_USABLE \<longrightarrow> \<not> covers r x)"

lemma add_overflow_iff:
  "snd (add_overflow_u64 l r) \<longleftrightarrow> unat l + unat r \<ge> 2 ^ 64"
  "\<not> snd (add_overflow_u64 l r) \<Longrightarrow> unat (l + r) = unat l + unat r"
proof -
  have l: "unat l < 2 ^ 64" and r: "unat r < 2 ^ 64" using unat_u64_less [of l] unat_u64_less [of r] by simp_all
  have sum: "unat (l + r) = (unat l + unat r) mod 2 ^ 64" by (simp add: unat_word_ariths)
  show iff: "snd (add_overflow_u64 l r) \<longleftrightarrow> unat l + unat r \<ge> 2 ^ 64"
  proof (cases "unat l + unat r < 2 ^ 64")
    case True
    with sum show ?thesis by (simp add: add_overflow_u64_def word_less_nat_alt)
  next
    case False
    then have "(unat l + unat r) mod 2 ^ 64 = unat l + unat r - 2 ^ 64"
      using l r by (simp add: mod_if)
    with False sum l r show ?thesis by (simp add: add_overflow_u64_def word_less_nat_alt)
  qed
  show "unat (l + r) = unat l + unat r" if "\<not> snd (add_overflow_u64 l r)"
    using that iff sum by simp
qed

lemma range_limit_unat:
  assumes "range_is_well_formed r"
  shows "unat (range_limit r) = unat (range_base r) + unat (range_length r)" "0 < unat (range_length r)"
  using assms add_overflow_iff(2) [of "range_base r" "range_length r"]
  by (auto simp: range_is_well_formed_def range_limit_def unat_gt_0)

lemma covers_iff:
  assumes "range_is_well_formed r"
  shows "covers r x \<longleftrightarrow> unat (range_base r) \<le> x \<and> x < unat (range_limit r)"
  using range_limit_unat [OF assms] by (simp add: covers_def)

lemma valid_ranges:
  assumes "x86_memory_map_is_valid (Some bi)" "r \<in> set (used_ranges bi)"
  shows "range_is_well_formed r"
  using assms by (auto simp: x86_memory_map_is_valid_def list_all_iff)

section \<open>A range is usable exactly when all of its bytes are\<close>

lemma covered_until_cases:
  "covered_until rs cursor = cursor \<or>
   (\<exists>r \<in> set rs. range_type r = X86_BOOT_MEMORY_USABLE \<and> range_base r \<le> cursor \<and>
      covered_until rs cursor = range_limit r)"
proof -
  have "fold (\<lambda>r acc. if range_type r \<noteq> X86_BOOT_MEMORY_USABLE \<or> range_base r > cursor then acc
      else if range_limit r > acc then range_limit r else acc) rs a = a \<or>
    (\<exists>r \<in> set rs. range_type r = X86_BOOT_MEMORY_USABLE \<and> range_base r \<le> cursor \<and>
      fold (\<lambda>r acc. if range_type r \<noteq> X86_BOOT_MEMORY_USABLE \<or> range_base r > cursor then acc
        else if range_limit r > acc then range_limit r else acc) rs a = range_limit r)" for a
  proof (induction rs arbitrary: a)
    case (Cons r rs)
    let ?a = "if range_type r \<noteq> X86_BOOT_MEMORY_USABLE \<or> range_base r > cursor then a
      else if range_limit r > a then range_limit r else a"
    from Cons.IH [of ?a] show ?case by (auto simp: not_less split: if_splits)
  qed simp
  then show ?thesis by (simp add: covered_until_def)
qed

lemma covered_until_upper:
  assumes "r \<in> set rs" "range_type r = X86_BOOT_MEMORY_USABLE" "range_base r \<le> cursor"
  shows "range_limit r \<le> covered_until rs cursor"
proof -
  let ?f = "\<lambda>r acc. if range_type r \<noteq> X86_BOOT_MEMORY_USABLE \<or> range_base r > cursor then acc
      else if range_limit r > acc then range_limit r else acc"
  have grow: "a \<le> fold ?f qs a" for qs a
  proof (induction qs arbitrary: a)
    case (Cons q qs)
    have "a \<le> ?f q a" by (auto simp: less_imp_le)
    also have "\<dots> \<le> fold ?f qs (?f q a)" by (rule Cons.IH)
    finally show ?case by simp
  qed simp
  have "range_limit r \<le> fold ?f rs a" for a
    using assms(1)
  proof (induction rs arbitrary: a)
    case (Cons q qs)
    show ?case
    proof (cases "q = r")
      case True
      have "range_limit r \<le> ?f r a" using assms(2,3) by (auto simp: not_less)
      also have "\<dots> \<le> fold ?f qs (?f r a)" by (rule grow)
      finally show ?thesis using True by simp
    qed (use Cons in auto)
  qed simp
  then show ?thesis by (simp add: covered_until_def)
qed

lemma coverage_loop_correct:
  assumes "\<And>r. r \<in> set rs \<Longrightarrow> range_is_well_formed r"
  shows "coverage_loop rs limit cursor \<longleftrightarrow>
    (\<forall>x. unat cursor \<le> x \<and> x < unat limit \<longrightarrow>
       (\<exists>r \<in> set rs. range_type r = X86_BOOT_MEMORY_USABLE \<and> covers r x))"
    (is "_ \<longleftrightarrow> ?covered cursor")
  using assms
proof (induction rs limit cursor rule: coverage_loop.induct)
  case (1 rs limit cursor)
  let ?c = "covered_until rs cursor" and ?covered = "\<lambda>c. \<forall>x. unat c \<le> x \<and> x < unat limit \<longrightarrow>
       (\<exists>r \<in> set rs. range_type r = X86_BOOT_MEMORY_USABLE \<and> covers r x)"
  let ?next = "if ?c < limit then ?c else limit"
  show ?case
  proof (cases "cursor < limit \<and> ?c \<noteq> cursor")
    case True
    then obtain r where r: "r \<in> set rs" "range_type r = X86_BOOT_MEMORY_USABLE" "range_base r \<le> cursor"
      "?c = range_limit r" using covered_until_cases [of rs cursor] by auto
    note wf = covers_iff [OF "1.prems" [OF r(1)]]
    have "covers r x" if "unat cursor \<le> x" "x < unat ?c" for x
      using that r(3,4) wf by (simp add: word_le_nat_alt)
    then have below: "\<exists>r \<in> set rs. range_type r = X86_BOOT_MEMORY_USABLE \<and> covers r x"
      if "unat cursor \<le> x" "x < unat ?next" for x
      using that r(1,2) by (auto simp: word_less_nat_alt split: if_splits)
    have le: "unat cursor \<le> unat ?next"
      using True covered_until_ge [of cursor rs] by (auto simp: word_le_nat_alt word_less_nat_alt)
    have "?covered cursor \<longleftrightarrow> ?covered ?next"
    proof (intro iffI allI impI)
      fix x assume "?covered ?next" "unat cursor \<le> x \<and> x < unat limit"
      then show "\<exists>r \<in> set rs. range_type r = X86_BOOT_MEMORY_USABLE \<and> covers r x"
        using below by (cases "x < unat ?next") simp_all
    next
      fix x assume "?covered cursor" "unat ?next \<le> x \<and> x < unat limit"
      with le show "\<exists>r \<in> set rs. range_type r = X86_BOOT_MEMORY_USABLE \<and> covers r x"
        by (meson order_trans)
    qed
    with True "1.IH" "1.prems" show ?thesis by (simp add: coverage_loop.simps [of rs limit cursor])
  next
    case False
    show ?thesis
    proof (cases "cursor < limit")
      case open': True
      with False have stuck: "?c = cursor" by simp
      have "\<not> covers r (unat cursor)" if r: "r \<in> set rs" "range_type r = X86_BOOT_MEMORY_USABLE" for r
      proof
        assume c: "covers r (unat cursor)"
        note wf = covers_iff [OF "1.prems" [OF r(1)]]
        have "range_limit r \<le> cursor"
          using covered_until_upper [OF r, of cursor] c wf stuck by (simp add: word_le_nat_alt)
        with c wf show False by (simp add: word_le_nat_alt)
      qed
      with open' stuck show ?thesis by (auto simp: coverage_loop.simps [of rs limit cursor] word_less_nat_alt)
    next
      case closed: False
      then show ?thesis by (auto simp: coverage_loop.simps [of rs limit cursor] word_less_nat_alt)
    qed
  qed
qed

lemma range_meets:
  assumes wf: "range_is_well_formed r" and limit: "unat limit = unat base + n" and pos: "0 < n"
  shows "(range_base r < limit \<and> base < range_limit r) \<longleftrightarrow>
    (\<exists>x. unat base \<le> x \<and> x < unat base + n \<and> covers r x)"
proof
  assume "range_base r < limit \<and> base < range_limit r"
  then have "unat (range_base r) < unat base + n" "unat base < unat (range_limit r)"
    using limit by (simp_all add: word_less_nat_alt)
  then have "unat base \<le> max (unat base) (unat (range_base r)) \<and>
      max (unat base) (unat (range_base r)) < unat base + n \<and> covers r (max (unat base) (unat (range_base r)))"
    using pos range_limit_unat [OF wf] by (simp add: covers_iff [OF wf])
  then show "\<exists>x. unat base \<le> x \<and> x < unat base + n \<and> covers r x" by blast
next
  assume "\<exists>x. unat base \<le> x \<and> x < unat base + n \<and> covers r x"
  then obtain x where "unat base \<le> x" "x < unat limit" "unat (range_base r) \<le> x" "x < unat (range_limit r)"
    using limit covers_iff [OF wf] by auto
  then show "range_base r < limit \<and> base < range_limit r"
    by (simp add: word_less_nat_alt)
qed


lemma range_query_bytes:
  "x86_memory_map_range_is_usable (Some bi) base byte_count \<longleftrightarrow>
     x86_memory_map_is_valid (Some bi) \<and> byte_count \<noteq> 0 \<and> unat base + unat byte_count < 2 ^ 64 \<and>
     (\<forall>x. unat base \<le> x \<and> x < unat base + unat byte_count \<longrightarrow> byte_usable bi x)"
proof (cases "x86_memory_map_is_valid (Some bi) \<and> byte_count \<noteq> 0 \<and> unat base + unat byte_count < 2 ^ 64")
  case False
  then show ?thesis
    using add_overflow_iff(1) [of base byte_count]
    by (auto simp: x86_memory_map_range_is_usable_def split: prod.splits)
next
  case True
  note wf = valid_ranges [OF conjunct1 [OF True]]
  have nov: "\<not> snd (add_overflow_u64 base byte_count)" using True add_overflow_iff(1) by simp
  have limit: "unat (base + byte_count) = unat base + unat byte_count" using nov add_overflow_iff(2) by blast
  have pos: "0 < unat byte_count" using True by (simp add: unat_gt_0)
  have overlap: "(range_base r < base + byte_count \<and> base < range_limit r) \<longleftrightarrow>
      (\<exists>x. unat base \<le> x \<and> x < unat base + unat byte_count \<and> covers r x)" if "r \<in> set (used_ranges bi)" for r
    using range_meets [OF wf [OF that] limit pos] .
  have eq: "x86_memory_map_range_is_usable (Some bi) base byte_count \<longleftrightarrow>
      \<not> (\<exists>r \<in> set (used_ranges bi). range_type r \<noteq> X86_BOOT_MEMORY_USABLE \<and>
           range_base r < base + byte_count \<and> base < range_limit r) \<and>
      coverage_loop (used_ranges bi) (base + byte_count) base"
    using True nov unfolding x86_memory_map_range_is_usable_def add_overflow_u64_def list_ex_iff
    by (simp add: conj_ac)
  have reserved: "(\<exists>r \<in> set (used_ranges bi). range_type r \<noteq> X86_BOOT_MEMORY_USABLE \<and>
      range_base r < base + byte_count \<and> base < range_limit r) \<longleftrightarrow>
    (\<exists>x. unat base \<le> x \<and> x < unat base + unat byte_count \<and>
      (\<exists>r \<in> set (used_ranges bi). range_type r \<noteq> X86_BOOT_MEMORY_USABLE \<and> covers r x))"
    using overlap by blast
  have cov: "coverage_loop (used_ranges bi) (base + byte_count) base \<longleftrightarrow>
      (\<forall>x. unat base \<le> x \<and> x < unat base + unat byte_count \<longrightarrow>
         (\<exists>r \<in> set (used_ranges bi). range_type r = X86_BOOT_MEMORY_USABLE \<and> covers r x))"
    using coverage_loop_correct [of "used_ranges bi" "base + byte_count" base] wf limit by simp
  show ?thesis
    unfolding eq reserved cov byte_usable_def using True by auto
qed

section \<open>A sample handoff\<close>

text \<open>A small handoff: 640 KiB of conventional memory, the firmware at 960 KiB, extended memory up to
  16 MiB; the unused entries of the table are zero.\<close>

definition memory_range :: "u64 \<Rightarrow> u64 \<Rightarrow> u32 \<Rightarrow> x86_boot_memory_range" where
  "memory_range base len kind = \<lparr>range_base = base, range_length = len, range_type = kind, range_attributes = 1\<rparr>"

definition sample_ranges :: "x86_boot_memory_range list" where
  "sample_ranges = [memory_range 0 0xa0000 1, memory_range 0xf0000 0x10000 2, memory_range 0x100000 0xf00000 1]"

definition sample_boot_info :: x86_boot_info where
  "sample_boot_info = \<lparr>boot_signature = 0x32494258, boot_version = 4, header_bytes = 168, range_bytes = 24,
     range_count = 3, boot_flags = 3,
     boot_platform = \<lparr>platform_flags = 0, rtc_century_bcd = 0, rtc_year_bcd = 0, rtc_month_bcd = 0, rtc_day_bcd = 0,
       rtc_hour_bcd = 0, rtc_minute_bcd = 0, rtc_second_bcd = 0, rtc_daylight = 0, display_active_dcc = 0,
       display_inactive_dcc = 0, platform_reserved = []\<rparr>,
     boot_ranges = sample_ranges @ replicate 61 (memory_range 0 0 0)\<rparr>"

lemma sample_used [simp]: "used_ranges sample_boot_info = sample_ranges"
  by (simp add: used_ranges_def sample_boot_info_def sample_ranges_def)

lemma sample_valid: "x86_memory_map_is_valid (Some sample_boot_info)"
  by (simp add: x86_memory_map_is_valid_def sample_ranges_def memory_range_def range_is_well_formed_def
      add_overflow_u64_def X86_BOOT_MEMORY_ENABLED_def)
    (simp add: sample_boot_info_def X86_BOOT_INFO_SIGNATURE_def X86_BOOT_INFO_VERSION_def
      X86_BOOT_INFO_HEADER_BYTES_def X86_BOOT_MEMORY_RANGE_BYTES_def X86_BOOT_MEMORY_RANGE_COUNT_def
      X86_BOOT_INFO_FLAG_MASK_def boot_platform_header_is_well_formed_def)

lemma sample_length: "length (boot_ranges sample_boot_info) = 64"
  by (simp add: sample_boot_info_def sample_ranges_def)

lemma sample_usable: "byte_usable sample_boot_info x \<longleftrightarrow> x < 0xa0000 \<or> 0x100000 \<le> x \<and> x < 0x1000000"
  by (auto simp: byte_usable_def sample_ranges_def memory_range_def covers_def X86_BOOT_MEMORY_USABLE_def)

end
