(* ===== verification/MemoryMapQuery.thy ===== *)
theory MemoryMapQuery
  imports MemoryMap "HOL-Library.Multiset"
begin

text \<open>
  The topology query of \<open>kernel/x86_vm/memory/map.c\<close> counts the usable bytes: the in-place insertion
  sort sorts, the compaction removes duplicates, and on the elementary intervals between neighbouring
  boundaries the interval test agrees with the byte-wise notion of \<open>MemoryMap\<close>.
\<close>

section \<open>The boundary list\<close>

lemma shift_loop_inserts:
  "case shift_loop (xs @ w # ys) (length xs) v of (shifted, position) \<Rightarrow>
     \<exists>ps qs. xs = ps @ qs \<and> shifted[position := v] = ps @ v # qs @ ys \<and> (\<forall>q \<in> set qs. v < q) \<and>
       (ps = [] \<or> last ps \<le> v)"
proof (induction xs arbitrary: w ys rule: rev_induct)
  case Nil
  then show ?case by simp
next
  case (snoc x xs)
  have here: "((xs @ [x]) @ w # ys) ! length xs = x" by (simp add: nth_append)
  show ?case
  proof (cases "x > v")
    case True
    have up: "((xs @ [x]) @ w # ys)[Suc (length xs) := x] = xs @ x # (x # ys)"
      by (simp add: list_update_append)
    obtain shifted position where sh: "shift_loop (xs @ x # (x # ys)) (length xs) v = (shifted, position)" by fastforce
    obtain ps qs where "xs = ps @ qs" "shifted[position := v] = ps @ v # qs @ x # ys" "\<forall>q \<in> set qs. v < q"
      "ps = [] \<or> last ps \<le> v" using snoc.IH [where w = x and ys = "x # ys"] sh by auto
    then have "\<exists>ps qs'. xs @ [x] = ps @ qs' \<and> shifted[position := v] = ps @ v # qs' @ ys \<and> (\<forall>q \<in> set qs'. v < q) \<and>
       (ps = [] \<or> last ps \<le> v)"
      using True by (intro exI [of _ ps] exI [of _ "qs @ [x]"]) auto
    with True here up sh show ?thesis by simp
  next
    case False
    have "((xs @ [x]) @ w # ys)[Suc (length xs) := v] = (xs @ [x]) @ v # ys"
      by (simp add: list_update_append)
    then have "\<exists>ps qs. xs @ [x] = ps @ qs \<and> ((xs @ [x]) @ w # ys)[Suc (length xs) := v] = ps @ v # qs @ ys \<and>
        (\<forall>q \<in> set qs. v < q) \<and> (ps = [] \<or> last ps \<le> v)"
      using False by (intro exI [of _ "xs @ [x]"] exI [of _ "[]"]) (simp add: not_less)
    with False here show ?thesis by simp
  qed
qed

lemma sort_step_sorts:
  assumes "sorted (take i bs)" "i < length bs"
  shows "sorted (take (Suc i) (sort_step i bs)) \<and> mset (sort_step i bs) = mset bs \<and>
    length (sort_step i bs) = length bs"
proof -
  let ?xs = "take i bs" and ?v = "bs ! i" and ?ys = "drop (Suc i) bs"
  have bs: "bs = ?xs @ ?v # ?ys" using assms(2) by (simp add: id_take_nth_drop)
  have len: "length ?xs = i" using assms(2) by simp
  obtain shifted position where sh: "shift_loop bs i ?v = (shifted, position)" by fastforce
  obtain ps qs where pq: "?xs = ps @ qs" "shifted[position := ?v] = ps @ ?v # qs @ ?ys" "\<forall>q \<in> set qs. ?v < q"
    "ps = [] \<or> last ps \<le> ?v"
    using shift_loop_inserts [of ?xs ?v ?ys ?v] sh unfolding len bs [symmetric] by auto
  have step: "sort_step i bs = ps @ ?v # qs @ ?ys" using sh pq(2) by (simp add: sort_step_def)
  have sorted: "sorted (ps @ qs)" using assms(1) pq(1) by simp
  then have "sorted (ps @ ?v # qs)"
    using pq(3,4) by (cases ps rule: rev_cases) (auto simp: sorted_append intro: order_trans less_imp_le)
  moreover have "length (ps @ ?v # qs) = Suc i" using pq(1) len by (metis length_append length_Cons add_Suc_right)
  then have "take (Suc i) (sort_step i bs) = ps @ ?v # qs"
    using step by (metis append.assoc append_Cons append_eq_conv_conj)
  moreover have "mset (sort_step i bs) = mset bs"
    unfolding step by (subst (2) bs) (simp add: pq(1))
  ultimately show ?thesis by (metis size_mset)
qed

lemma sort_boundaries_sort: "sort_boundaries bs (length bs) = sort bs"
proof -
  have "k \<le> length bs \<Longrightarrow> sorted (take k (fold sort_step [1..<k] bs)) \<and>
      mset (fold sort_step [1..<k] bs) = mset bs \<and> length (fold sort_step [1..<k] bs) = length bs" for k
  proof (induction k)
    case (Suc k)
    show ?case
    proof (cases "k = 0")
      case True
      then show ?thesis by (simp add: take_Suc sorted_wrt01)
    next
      case False
      then have "fold sort_step [1..<Suc k] bs = sort_step k (fold sort_step [1..<k] bs)" by simp
      with Suc sort_step_sorts [of k "fold sort_step [1..<k] bs"] show ?thesis by (simp del: upt_Suc)
    qed
  qed simp
  from this [of "length bs"] have "sorted (sort_boundaries bs (length bs))"
    and "mset (sort_boundaries bs (length bs)) = mset bs"
    unfolding sort_boundaries_def by (auto dest: take_all [OF eq_refl])
  then show ?thesis by (simp add: properties_for_sort)
qed

lemma remdups_adj_snoc:
  "xs \<noteq> [] \<Longrightarrow> remdups_adj (xs @ [y]) = (if last xs = y then remdups_adj xs else remdups_adj xs @ [y])"
  by (cases xs rule: rev_cases) (auto simp: remdups_adj_append_two)

lemma compact_boundaries_remdups:
  assumes "j \<le> length bs"
  shows "case compact_boundaries bs j of (cs, n) \<Rightarrow> take n cs = remdups_adj (take j bs)"
proof -
  have "k \<le> length bs \<Longrightarrow> case fold compact_step [0..<k] (bs, 0) of (cs, n) \<Rightarrow>
      take n cs = remdups_adj (take k bs) \<and> drop k cs = drop k bs \<and> n \<le> k \<and> length cs = length bs" for k
  proof (induction k)
    case (Suc k)
    obtain cs n where st: "fold compact_step [0..<k] (bs, 0) = (cs, n)" by fastforce
    have IH: "take n cs = remdups_adj (take k bs)" "drop k cs = drop k bs" "n \<le> k" "length cs = length bs"
      using Suc st by auto
    have k: "k < length bs" using Suc.prems by simp
    have step: "fold compact_step [0..<Suc k] (bs, 0) = compact_step k (cs, n)" by (simp add: st)
    have cur: "cs ! k = bs ! k" using IH(2,4) k by (metis drop_eq_Nil hd_drop_conv_nth not_le)
    have tk: "take (Suc k) bs = take k bs @ [bs ! k]" using k by (simp add: take_Suc_conv_app_nth)
    have dr: "drop (Suc k) cs = drop (Suc k) bs" using IH(2) by (metis drop_Suc tl_drop)
    have "length (take n cs) = n" using IH(3,4) k by simp
    then have empty: "n = 0 \<longleftrightarrow> take k bs = []"
      unfolding IH(1) by (metis length_0_conv remdups_adj_Nil_iff)
    have lastn: "cs ! (n - 1) = last (take k bs)" if "n \<noteq> 0"
    proof -
      have "cs ! (n - 1) = last (take n cs)" using that IH(3,4) k by (subst last_conv_nth) (auto simp: min_def)
      then show ?thesis using IH(1) by simp
    qed
    show ?case
    proof (cases "n \<noteq> 0 \<and> cs ! (n - 1) = bs ! k")
      case True
      with lastn empty have "remdups_adj (take k bs @ [bs ! k]) = remdups_adj (take k bs)"
        by (simp add: remdups_adj_snoc)
      with True IH cur tk dr show ?thesis unfolding step by (simp add: compact_step_def)
    next
      case False
      have "remdups_adj (take k bs @ [bs ! k]) = remdups_adj (take k bs) @ [bs ! k]"
        using False lastn empty by (cases "take k bs = []") (auto simp: remdups_adj_snoc)
      moreover have "take (Suc n) (cs[n := bs ! k]) = take n cs @ [bs ! k]"
        using IH(3,4) k by (simp add: take_Suc_conv_app_nth)
      ultimately show ?thesis
        unfolding step using False IH cur tk dr by (auto simp: compact_step_def)
    qed
  qed simp
  from this [OF assms] show ?thesis by (auto simp: compact_boundaries_def)
qed

section \<open>Elementary intervals\<close>

text \<open>No range begins or ends strictly inside an elementary interval, so all its bytes agree.\<close>

definition elementary :: "x86_boot_info \<Rightarrow> u64 \<Rightarrow> u64 \<Rightarrow> bool" where
  "elementary bi lo hi \<longleftrightarrow> lo < hi \<and>
     (\<forall>r \<in> set (used_ranges bi). (range_base r \<le> lo \<or> hi \<le> range_base r) \<and>
        (range_limit r \<le> lo \<or> hi \<le> range_limit r))"

lemma interval_loop_iff:
  "interval_loop rs base limit covered \<longleftrightarrow>
     (\<forall>r \<in> set rs. range_base r \<le> base \<and> limit \<le> range_limit r \<longrightarrow> range_type r = X86_BOOT_MEMORY_USABLE) \<and>
     (covered \<or> (\<exists>r \<in> set rs. range_base r \<le> base \<and> limit \<le> range_limit r))"
  by (induction rs arbitrary: covered) (auto simp: not_less)

lemma elementary_usable:
  assumes valid: "x86_memory_map_is_valid (Some bi)" and el: "elementary bi lo hi"
    and x: "unat lo \<le> x" "x < unat hi"
  shows "byte_usable bi x \<longleftrightarrow> interval_is_usable bi lo hi"
proof -
  have covers: "covers r x \<longleftrightarrow> range_base r \<le> lo \<and> hi \<le> range_limit r" if "r \<in> set (used_ranges bi)" for r
  proof -
    have "(range_base r \<le> lo \<or> hi \<le> range_base r) \<and> (range_limit r \<le> lo \<or> hi \<le> range_limit r)"
      using el that by (auto simp: elementary_def)
    with x show ?thesis
      unfolding covers_iff [OF valid_ranges [OF valid that]] word_le_nat_alt by linarith
  qed
  show ?thesis
    unfolding interval_is_usable_def interval_loop_iff byte_usable_def using covers by blast
qed

text \<open>The usable bytes from one address on below another.\<close>

definition usable_between :: "x86_boot_info \<Rightarrow> nat \<Rightarrow> nat \<Rightarrow> nat set" where
  "usable_between bi lo hi = {x. lo \<le> x \<and> x < hi \<and> byte_usable bi x}"

lemma finite_usable_between [simp]: "finite (usable_between bi lo hi)"
  by (rule finite_subset [of _ "{..<hi}"]) (auto simp: usable_between_def)

lemma usable_between_split:
  assumes "lo \<le> mid" "mid \<le> hi"
  shows "usable_between bi lo hi = usable_between bi lo mid \<union> usable_between bi mid hi"
    and "usable_between bi lo mid \<inter> usable_between bi mid hi = {}"
  using assms by (auto simp: usable_between_def)

lemma usable_between_elementary:
  assumes "x86_memory_map_is_valid (Some bi)" "elementary bi lo hi"
  shows "usable_between bi (unat lo) (unat hi) =
    (if interval_is_usable bi lo hi then {unat lo..<unat hi} else {})"
  using elementary_usable [OF assms] by (auto simp: usable_between_def)

text \<open>The walk over strictly increasing, elementary boundaries adds up the usable bytes and keeps the
  last one it saw.\<close>

definition counted :: "x86_boot_info \<Rightarrow> x86_memory_map_snapshot \<Rightarrow> nat set \<Rightarrow> x86_memory_map_snapshot \<Rightarrow> bool" where
  "counted bi s U s' \<longleftrightarrow> unat (usable_bytes s') = unat (usable_bytes s) + card U \<and>
     (if U = {} then highest_usable_address s' = highest_usable_address s
      else unat (highest_usable_address s') = Max U) \<and>
     physical_address_limit s' = physical_address_limit s"

lemma counted_step:
  assumes "counted bi s1 U s'" "finite U" "\<And>x. x \<in> U \<Longrightarrow> hi \<le> x" "lo < hi"
    "unat (usable_bytes s1) = unat (usable_bytes s) + (hi - lo)" "unat (highest_usable_address s1) = hi - 1"
    "physical_address_limit s1 = physical_address_limit s"
  shows "counted bi s ({lo..<hi} \<union> U) s'"
proof -
  have disj: "{lo..<hi} \<inter> U = {}" using assms(3) by fastforce
  have top: "Max {lo..<hi} = hi - 1" using assms(4) by (intro Max_eqI) auto
  have "Max ({lo..<hi} \<union> U) = Max U" if "U \<noteq> {}"
  proof -
    have "hi \<le> Max U" using that assms(2,3) by simp
    then show ?thesis using that assms(2,4) top by (simp add: Max_Un max_def)
  qed
  then show ?thesis
    using assms top card_Un_disjoint [OF _ assms(2) disj] by (cases "U = {}") (auto simp: counted_def)
qed

lemma elementary_le_last:
  "successively (elementary bi) ds \<Longrightarrow> ds \<noteq> [] \<Longrightarrow> unat (hd ds) \<le> unat (last ds)"
proof (induction ds)
  case (Cons d ds)
  then show ?case by (cases ds) (auto simp: elementary_def word_less_nat_alt)
qed simp

lemma no_count_overflow:
  fixes usable lo hi :: u64
  assumes "usable \<le> lo" "lo < hi"
  shows "\<not> usable > NOT 0 - (hi - lo)" and "unat (usable + (hi - lo)) = unat usable + (unat hi - unat lo)"
    and "usable + (hi - lo) \<le> hi"
proof -
  have diff: "unat (hi - lo) = unat hi - unat lo" using assms(2) by (simp add: unat_sub less_imp_le)
  have "unat (NOT (0 :: u64)) = 2 ^ 64 - 1" by (simp add: unsigned_minus_1_eq_mask mask_eq_exp_minus_1)
  then have "unat (NOT 0 - (hi - lo)) = 2 ^ 64 - 1 - (unat hi - unat lo)"
    using diff unat_u64_less [of hi] by (subst unat_sub) (simp_all add: word_le_nat_alt)
  then show "\<not> usable > NOT 0 - (hi - lo)"
    using assms unat_u64_less [of hi] by (simp add: word_less_nat_alt word_le_nat_alt)
  show sum: "unat (usable + (hi - lo)) = unat usable + (unat hi - unat lo)"
    using assms unat_u64_less [of hi] diff by (simp add: unat_word_ariths word_less_nat_alt word_le_nat_alt)
  show "usable + (hi - lo) \<le> hi"
    using assms unfolding word_le_nat_alt sum by (simp add: word_less_nat_alt)
qed

lemma query_loop_counts:
  assumes "x86_memory_map_is_valid (Some bi)" "successively (elementary bi) ds" "ds \<noteq> []"
    and "usable_bytes s \<le> hd ds"
  shows "\<exists>s'. query_loop bi ds s previous = Some s' \<and>
    counted bi s (usable_between bi (unat (hd ds)) (unat (last ds))) s'"
  using assms
proof (induction bi ds s previous rule: query_loop.induct)
  case (1 bi lo hi rest s previous)
  have el: "elementary bi lo hi" and tail: "successively (elementary bi) (hi # rest)" using "1.prems" by auto
  have lt: "lo < hi" using el by (auto simp: elementary_def)
  let ?U = "usable_between bi (unat hi) (unat (last (hi # rest)))"
  have le: "unat hi \<le> unat (last (hi # rest))" using elementary_le_last [OF tail] by simp
  have union: "usable_between bi (unat lo) (unat (last (hi # rest))) =
      (if interval_is_usable bi lo hi then {unat lo..<unat hi} else {}) \<union> ?U"
    using usable_between_split(1) [of "unat lo" "unat hi" "unat (last (hi # rest))" bi] le lt
      usable_between_elementary [OF "1.prems"(1) el] by (simp add: word_less_nat_alt)
  have small: "usable_bytes s \<le> hi" using "1.prems"(4) lt by simp
  show ?case
  proof (cases "interval_is_usable bi lo hi")
    case False
    moreover have "lo \<noteq> hi" using lt by simp
    ultimately show ?thesis using "1.IH"(2) "1.prems"(1) tail small union by simp
  next
    case True
    note fits = no_count_overflow [of "usable_bytes s" lo hi] and here = "1.prems"(4) lt
    let ?s = "s\<lparr>usable_bytes := usable_bytes s + (hi - lo), highest_usable_address := hi - 1,
        usable_extent_count := (if previous then usable_extent_count s else usable_extent_count s + 1)\<rparr>"
    have go: "query_loop bi (lo # hi # rest) s previous = query_loop bi (hi # rest) ?s True"
      using True fits(1) here less_imp_neq [OF lt] by (simp add: Let_def)
    have "\<exists>s'. query_loop bi (hi # rest) ?s True = Some s' \<and> counted bi ?s ?U s'"
      using "1.IH"(3) [OF _ _ refl] True lt fits here "1.prems"(1) tail by simp
    then obtain s' where run: "query_loop bi (hi # rest) ?s True = Some s'" and cnt: "counted bi ?s ?U s'" by blast
    have "counted bi s ({unat lo..<unat hi} \<union> ?U) s'"
    proof (rule counted_step [OF cnt])
      show "unat (highest_usable_address ?s) = unat hi - 1"
        using lt by (simp add: word_less_nat_alt unat_sub word_le_nat_alt)
    qed (use lt fits(2) here in \<open>auto simp: usable_between_def word_less_nat_alt\<close>)
    with go run union True show ?thesis by simp
  qed
qed (auto simp: usable_between_def counted_def)

section \<open>The query\<close>

definition boundary_list :: "x86_boot_info \<Rightarrow> u64 list" where
  "boundary_list bi = concat (map (\<lambda>r. [range_base r, range_limit r]) (used_ranges bi))"

lemma set_boundary_list: "set (boundary_list bi) = (\<Union>r \<in> set (used_ranges bi). {range_base r, range_limit r})"
  by (auto simp: boundary_list_def)

lemma length_boundary_list: "length (boundary_list bi) = 2 * length (used_ranges bi)"
  unfolding boundary_list_def by (induction "used_ranges bi") (simp_all add: length_concat comp_def sum_list_triv)

lemma elementary_sorted:
  assumes "sorted_wrt (<) ds" "set (boundary_list bi) \<subseteq> set ds"
  shows "successively (elementary bi) ds"
proof -
  have gap: "d \<le> ds ! i \<or> ds ! Suc i \<le> d" if "Suc i < length ds" "d \<in> set ds" for i d
  proof -
    note d = that
    obtain j where j: "j < length ds" "d = ds ! j" using d(2) by (metis in_set_conv_nth)
    have mono: "a \<le> b \<Longrightarrow> b < length ds \<Longrightarrow> ds ! a \<le> ds ! b" for a b
      using assms(1) by (metis le_neq_implies_less order.order_iff_strict sorted_wrt_nth_less)
    show ?thesis using mono [of j i] mono [of "Suc i" j] d(1) j by (cases "j \<le> i") auto
  qed
  have "elementary bi (ds ! i) (ds ! Suc i)" if i: "Suc i < length ds" for i
  proof -
    have "ds ! i < ds ! Suc i" using assms(1) i by (simp add: sorted_wrt_nth_less)
    moreover have "range_base r \<in> set ds" "range_limit r \<in> set ds" if "r \<in> set (used_ranges bi)" for r
      using assms(2) that by (auto simp: set_boundary_list)
    ultimately show ?thesis using gap [OF i] by (auto simp: elementary_def)
  qed
  then show ?thesis by (auto simp: successively_conv_nth)
qed

lemma strict_remdups_adj: "sorted xs \<Longrightarrow> sorted_wrt (<) (remdups_adj xs)"
proof (induction xs rule: remdups_adj.induct)
  case (3 x y xs)
  then show ?case by (auto intro: order_less_le_trans [of x y])
qed simp_all

lemma sorted_bounds: "sorted xs \<Longrightarrow> x \<in> set xs \<Longrightarrow> hd xs \<le> x \<and> x \<le> last xs"
proof
  show "sorted xs \<Longrightarrow> x \<in> set xs \<Longrightarrow> hd xs \<le> x" by (cases xs) auto
  show "sorted xs \<Longrightarrow> x \<in> set xs \<Longrightarrow> x \<le> last xs" by (cases xs rule: rev_cases) (auto simp: sorted_append)
qed

lemma compacted_boundaries:
  assumes "range_count bi \<noteq> 0" "length (boot_ranges bi) = 64" "range_count bi \<le> X86_BOOT_MEMORY_RANGE_COUNT"
  defines "cs \<equiv> compact_boundaries (sort_boundaries (boundary_list bi) (2 * unat (range_count bi)))
      (2 * unat (range_count bi))"
  shows "sorted_wrt (<) (take (snd cs) (fst cs)) \<and> set (take (snd cs) (fst cs)) = set (boundary_list bi) \<and>
    take (snd cs) (fst cs) \<noteq> []"
proof -
  have n: "unat (range_count bi) \<le> 64"
    using assms(3) by (simp add: X86_BOOT_MEMORY_RANGE_COUNT_def word_le_nat_alt)
  then have len: "2 * unat (range_count bi) = length (boundary_list bi)"
    using assms(2) by (simp add: length_boundary_list used_ranges_def)
  have "take (snd cs) (fst cs) = remdups_adj (sort (boundary_list bi))"
    using compact_boundaries_remdups [of "length (boundary_list bi)" "sort (boundary_list bi)"]
    unfolding cs_def len sort_boundaries_sort by (auto split: prod.splits)
  moreover have "boundary_list bi \<noteq> []"
    using len assms(1) by (auto simp: unat_eq_0)
  moreover have "sorted_wrt (<) (remdups_adj (sort (boundary_list bi)))"
    by (rule strict_remdups_adj) simp
  moreover have "sort (boundary_list bi) \<noteq> []" using calculation(2) by (metis set_empty set_sort)
  ultimately show ?thesis by simp
qed

lemma valid_bytes_below:
  assumes "x86_memory_map_is_valid (Some bi)" "byte_usable bi x" "set ds = set (boundary_list bi)" "sorted_wrt (<) ds" "ds \<noteq> []"
  shows "unat (hd ds) \<le> x \<and> x < unat (last ds)"
proof -
  obtain r where r: "r \<in> set (used_ranges bi)" "covers r x" using assms(2) by (auto simp: byte_usable_def)
  have "range_base r \<in> set ds" "range_limit r \<in> set ds" using r(1) assms(3) by (auto simp: set_boundary_list)
  moreover have sorted: "sorted ds" using assms(4) by (simp add: strict_sorted_iff)
  ultimately have "hd ds \<le> range_base r" "range_limit r \<le> last ds"
    using sorted_bounds [OF sorted] by simp_all
  with r(2) covers_iff [OF valid_ranges [OF assms(1) r(1)]] show ?thesis by (simp add: word_le_nat_alt)
qed

lemma memory_map_query_counts:
  assumes valid: "x86_memory_map_is_valid (Some bi)" and len: "length (boot_ranges bi) = 64"
  shows "case x86_memory_map_query (Some bi) of
       None \<Rightarrow> {x. byte_usable bi x} = {}
     | Some s \<Rightarrow> {x. byte_usable bi x} \<noteq> {} \<and> unat (usable_bytes s) = card {x. byte_usable bi x} \<and>
         unat (highest_usable_address s) = Max {x. byte_usable bi x}"
proof -
  let ?n = "2 * unat (range_count bi)" and ?U = "{x. byte_usable bi x}"
  obtain cs n where c: "compact_boundaries (sort_boundaries (boundary_list bi) ?n) ?n = (cs, n)" by fastforce
  let ?ds = "take n cs"
  have ds: "sorted_wrt (<) ?ds" "set ?ds = set (boundary_list bi)" "?ds \<noteq> []"
    using compacted_boundaries [of bi] valid len c by (simp_all add: x86_memory_map_is_valid_def)
  define lim where "lim = fold (\<lambda>r acc. if range_limit r > acc then range_limit r else acc) (used_ranges bi) 0"
  let ?s = "\<lparr>usable_bytes = 0, highest_usable_address = 0, physical_address_limit = lim,
      usable_extent_count = 0, firmware_range_count = 0\<rparr>"
  have U: "usable_between bi (unat (hd ?ds)) (unat (last ?ds)) = ?U"
    using valid_bytes_below [OF valid _ ds(2,1,3)] by (auto simp: usable_between_def)
  obtain s' where run: "query_loop bi ?ds ?s False = Some s'" and cnt: "counted bi ?s ?U s'"
    using query_loop_counts [OF valid elementary_sorted [OF ds(1)] ds(3), of ?s False] ds(2) U by auto
  have fin: "finite ?U" using U by (metis finite_usable_between)
  have q: "x86_memory_map_query (Some bi) =
      (if usable_bytes s' = 0 then None else Some (s'\<lparr>firmware_range_count := ucast (range_count bi)\<rparr>))"
    using valid c run by (simp add: x86_memory_map_query_def boundary_list_def lim_def Let_def)
  have "usable_bytes s' = 0 \<longleftrightarrow> ?U = {}"
    using cnt fin by (auto simp: counted_def simp flip: unat_eq_0)
  with q cnt show ?thesis by (auto simp: counted_def)
qed

section \<open>Properties\<close>

text \<open>C3: the range query answers yes exactly when the handoff is valid, the range is not empty and does
  not overflow, and every single byte of it is usable memory: claimed by some usable range and by no
  range of another type, in whatever order and with whatever overlaps the firmware listed them.\<close>

theorem range_query_is_bytewise:
  "x86_memory_map_range_is_usable (Some bi) base byte_count \<longleftrightarrow>
     x86_memory_map_is_valid (Some bi) \<and> byte_count \<noteq> 0 \<and> unat base + unat byte_count < 2 ^ 64 \<and>
     (\<forall>x. unat base \<le> x \<and> x < unat base + unat byte_count \<longrightarrow> byte_usable bi x)"
  by (rule range_query_bytes)

theorem range_query_is_bytewise_witness:
  "x86_memory_map_range_is_usable (Some sample_boot_info) 0x100000 0x1000 \<and>
   \<not> x86_memory_map_range_is_usable (Some sample_boot_info) 0x9f000 0x2000"
proof
  show "x86_memory_map_range_is_usable (Some sample_boot_info) 0x100000 0x1000"
    by (subst range_query_is_bytewise) (simp add: sample_valid sample_usable)
  show "\<not> x86_memory_map_range_is_usable (Some sample_boot_info) 0x9f000 0x2000"
    by (subst range_query_is_bytewise) (simp add: sample_valid sample_usable, rule exI [of _ "0xa0000"], simp)
qed

text \<open>C4: on a valid handoff with its full table the topology query fails only if no byte is usable;
  otherwise it reports the exact number of usable bytes and the highest of them.\<close>

theorem topology_query_counts_bytes:
  assumes "x86_memory_map_is_valid (Some bi)" and "length (boot_ranges bi) = 64"
  shows "case x86_memory_map_query (Some bi) of
       None \<Rightarrow> {x. byte_usable bi x} = {}
     | Some s \<Rightarrow> {x. byte_usable bi x} \<noteq> {} \<and> unat (usable_bytes s) = card {x. byte_usable bi x} \<and>
         unat (highest_usable_address s) = Max {x. byte_usable bi x}"
  by (rule memory_map_query_counts [OF assms])

theorem topology_query_counts_bytes_witness:
  "\<exists>s. x86_memory_map_query (Some sample_boot_info) = Some s \<and>
     unat (usable_bytes s) = card {x. byte_usable sample_boot_info x}"
proof -
  have "byte_usable sample_boot_info 0" by (simp add: sample_usable)
  then show ?thesis
    using topology_query_counts_bytes [OF sample_valid sample_length] by (auto split: option.splits)
qed

end
