(* ===== verification/Paging.thy ===== *)
theory Paging
  imports MemoryMap
begin

text \<open>
  The boot page tables: \<open>include/x86_paging.h\<close>, \<open>kernel/x86_paging.c\<close> and \<open>kernel/x86_page_policy.c\<close>.
  The file-scope arrays and flags are the fields of one record, threaded through the operations.
  The two arrays are functions of their indices; the linker addresses of the arrays are fields no
  operation writes. \<open>cr0\<close> and \<open>cr3\<close> are the control registers of the production build, and
  \<open>host_tlb_flush_count\<close> counts reloads of \<open>cr3\<close> as the host-test build does. NULL pointers are
  \<open>None\<close>; output parameters are results. The identity floor and ceiling are the values of
  \<open>config/legacy-bios.mk\<close>.
\<close>

section \<open>Constants and data\<close>

abbreviation (input) X86_PAGE_BYTES :: u32 where "X86_PAGE_BYTES \<equiv> 0x1000"
abbreviation (input) X86_PAGE_TABLE_ENTRIES :: nat where "X86_PAGE_TABLE_ENTRIES \<equiv> 1024"
abbreviation (input) X86_PAGE_TABLE_SPAN :: u32 where "X86_PAGE_TABLE_SPAN \<equiv> 0x400000"
abbreviation (input) X86_BOOT_IDENTITY_FLOOR :: u32 where "X86_BOOT_IDENTITY_FLOOR \<equiv> 0x00800000"
abbreviation (input) X86_BOOT_IDENTITY_LIMIT :: u32 where "X86_BOOT_IDENTITY_LIMIT \<equiv> 0x10000000"
abbreviation (input) X86_BOOT_PAGE_TABLE_CAPACITY :: nat where "X86_BOOT_PAGE_TABLE_CAPACITY \<equiv> 64"
abbreviation (input) X86_LEGACY_VIDEO_BASE :: u32 where "X86_LEGACY_VIDEO_BASE \<equiv> 0x000a0000"
abbreviation (input) X86_DOS_VIDEO_LIMIT :: u32 where "X86_DOS_VIDEO_LIMIT \<equiv> 0x000c0000"
abbreviation (input) X86_LEGACY_ROM_LIMIT :: u32 where "X86_LEGACY_ROM_LIMIT \<equiv> 0x00100000"
abbreviation (input) X86_REAL_MODE_LINEAR_LIMIT :: u32 where "X86_REAL_MODE_LINEAR_LIMIT \<equiv> 0x00110000"
abbreviation (input) X86_PROTECTED_USER_BASE :: u32 where "X86_PROTECTED_USER_BASE \<equiv> 0x00200000"
abbreviation (input) X86_PROTECTED_USER_STACK_TOP :: u32 where "X86_PROTECTED_USER_STACK_TOP \<equiv> 0x00400000"

abbreviation (input) X86_PAGE_PRESENT :: u32 where "X86_PAGE_PRESENT \<equiv> 1"
abbreviation (input) X86_PAGE_WRITABLE :: u32 where "X86_PAGE_WRITABLE \<equiv> 2"
abbreviation (input) X86_PAGE_USER :: u32 where "X86_PAGE_USER \<equiv> 4"
abbreviation (input) X86_PAGE_HARDWARE_MUTABLE :: u32 where "X86_PAGE_HARDWARE_MUTABLE \<equiv> 0x60"
abbreviation (input) X86_PAGE_ADDRESS_MASK :: u32 where "X86_PAGE_ADDRESS_MASK \<equiv> 0xfffff000"
abbreviation (input) X86_CR0_PAGING :: u32 where "X86_CR0_PAGING \<equiv> 0x80000000"
abbreviation (input) X86_BOOT_PAGING_GENERATION :: u64 where "X86_BOOT_PAGING_GENERATION \<equiv> 1"

datatype x86_page_access =
  X86_PAGE_SUPERVISOR_READ_WRITE | X86_PAGE_GUEST_READ_WRITE | X86_PAGE_GUEST_READ_ONLY

record x86_paging_binding =
  paging_generation :: u64
  paging_page_directory :: u32
  guest_linear_limit :: u32

text \<open>The source has a structure and a function of one name, \<open>x86_paging_guest_shadow_snapshot\<close>; the
  structure carries a suffix here.\<close>

record x86_paging_guest_shadow_snapshot_record =
  snap_paging :: x86_paging_binding
  snap_linear_page :: u32
  original_entry :: u32
  snap_reserved :: bytes

record x86_paging_guest_translation =
  physical_address :: u32
  contiguous_bytes :: u32

datatype x86_paging_guest_shadow_status =
    X86_PAGING_GUEST_SHADOW_OK
  | X86_PAGING_GUEST_SHADOW_INVALID_ARGUMENT
  | X86_PAGING_GUEST_SHADOW_STALE_BINDING
  | X86_PAGING_GUEST_SHADOW_SOURCE_MISMATCH
  | X86_PAGING_GUEST_SHADOW_TARGET_DENIED
  | X86_PAGING_GUEST_SHADOW_MAPPING_MISMATCH

record x86_paging_state =
  page_directory :: "nat \<Rightarrow> u32"
  identity_page_tables :: "nat \<Rightarrow> nat \<Rightarrow> u32"
  paging_enabled :: bool
  paging_identity_limit :: u32
  cr0 :: u32
  cr3 :: u32
  page_directory_address :: u32
  page_tables_address :: u32
  host_tlb_flush_count :: u32

section \<open>Access policy\<close>

definition x86_boot_page_access :: "u32 \<Rightarrow> x86_page_access" where
  "x86_boot_page_access linear =
     (if linear < X86_LEGACY_VIDEO_BASE then X86_PAGE_GUEST_READ_WRITE
      else if linear < X86_DOS_VIDEO_LIMIT then X86_PAGE_SUPERVISOR_READ_WRITE
      else if linear < X86_LEGACY_ROM_LIMIT then X86_PAGE_GUEST_READ_ONLY
      else if linear < X86_REAL_MODE_LINEAR_LIMIT then X86_PAGE_GUEST_READ_WRITE
      else X86_PAGE_SUPERVISOR_READ_WRITE)"

definition x86_boot_page_is_present :: "x86_boot_info option \<Rightarrow> u32 \<Rightarrow> bool" where
  "x86_boot_page_is_present boot_info linear =
     (let page = linear AND NOT (X86_PAGE_BYTES - 1)
      in if page < X86_LEGACY_ROM_LIMIT then True
         else if page \<ge> X86_BOOT_IDENTITY_LIMIT then False
         else x86_memory_map_range_is_usable boot_info (ucast page) (ucast X86_PAGE_BYTES))"

fun access_flags :: "x86_page_access \<Rightarrow> u32" where
  "access_flags X86_PAGE_GUEST_READ_WRITE = (X86_PAGE_WRITABLE OR X86_PAGE_USER)"
| "access_flags X86_PAGE_GUEST_READ_ONLY = X86_PAGE_USER"
| "access_flags X86_PAGE_SUPERVISOR_READ_WRITE = X86_PAGE_WRITABLE"

section \<open>Construction\<close>

definition active_page_directory :: "x86_paging_state \<Rightarrow> u32" where
  "active_page_directory p = (cr3 p AND NOT (X86_PAGE_BYTES - 1))"

definition flush_translation_lookaside_buffer :: "x86_paging_state \<Rightarrow> x86_paging_state" where
  "flush_translation_lookaside_buffer p =
     p\<lparr>cr3 := active_page_directory p, host_tlb_flush_count := host_tlb_flush_count p + 1\<rparr>"

definition detected_table_count :: "x86_boot_info option \<Rightarrow> u32" where
  "detected_table_count boot_info =
     (let floor_limit = (ucast X86_BOOT_IDENTITY_FLOOR :: u64);
          ceiling = ucast X86_BOOT_IDENTITY_LIMIT;
          span = ucast X86_PAGE_TABLE_SPAN;
          mapped = (case x86_memory_map_usable_limit boot_info of
                      None \<Rightarrow> floor_limit
                    | Some detected \<Rightarrow> if detected > floor_limit then detected else floor_limit);
          mapped = (if mapped > ceiling then ceiling else mapped);
          mapped = (mapped + span - 1) AND NOT (span - 1);
          mapped = (if mapped > ceiling then ceiling else mapped)
      in ucast (mapped div span))"

text \<open>The two nested loops store every entry once, so the arrays they leave are given pointwise;
  what lies beyond the loops' bounds is untouched.\<close>

definition boot_directory_entry :: "x86_paging_state \<Rightarrow> nat \<Rightarrow> u32" where
  "boot_directory_entry p t =
     ((page_tables_address p + of_nat t * X86_PAGE_BYTES) OR X86_PAGE_PRESENT OR X86_PAGE_WRITABLE OR
      (if t = 0 then X86_PAGE_USER else 0))"

definition boot_table_entry :: "x86_boot_info option \<Rightarrow> nat \<Rightarrow> nat \<Rightarrow> u32" where
  "boot_table_entry boot_info t e =
     (let linear = push_bit 12 (of_nat t * of_nat X86_PAGE_TABLE_ENTRIES + of_nat e)
      in if x86_boot_page_is_present boot_info linear
         then linear OR X86_PAGE_PRESENT OR access_flags (x86_boot_page_access linear) else 0)"

definition x86_paging_initialize :: "x86_paging_state \<Rightarrow> x86_boot_info option \<Rightarrow> x86_paging_state" where
  "x86_paging_initialize p boot_info =
     (let tables = detected_table_count boot_info
      in p\<lparr>page_directory := (\<lambda>t. if t < unat tables then boot_directory_entry p t
                               else if t < X86_PAGE_TABLE_ENTRIES then 0 else page_directory p t),
           identity_page_tables := (\<lambda>t e. if t < unat tables \<and> e < X86_PAGE_TABLE_ENTRIES
                                          then boot_table_entry boot_info t e
                                          else identity_page_tables p t e),
           cr3 := page_directory_address p,
           cr0 := cr0 p OR X86_CR0_PAGING,
           host_tlb_flush_count := 0,
           paging_identity_limit := tables * X86_PAGE_TABLE_SPAN,
           paging_enabled := True\<rparr>)"

definition x86_paging_is_enabled :: "x86_paging_state \<Rightarrow> bool" where
  "x86_paging_is_enabled p = paging_enabled p"

definition x86_paging_identity_limit :: "x86_paging_state \<Rightarrow> u32" where
  "x86_paging_identity_limit p = (if paging_enabled p then paging_identity_limit p else 0)"

section \<open>Bindings and entries\<close>

definition x86_paging_snapshot :: "x86_paging_state \<Rightarrow> x86_paging_binding option" where
  "x86_paging_snapshot p =
     (let expected = page_directory_address p
      in if \<not> paging_enabled p \<or> active_page_directory p \<noteq> expected then None
         else Some \<lparr>paging_generation = X86_BOOT_PAGING_GENERATION, paging_page_directory = expected,
                    guest_linear_limit = X86_REAL_MODE_LINEAR_LIMIT\<rparr>)"

definition x86_paging_binding_is_active :: "x86_paging_state \<Rightarrow> x86_paging_binding option \<Rightarrow> bool" where
  "x86_paging_binding_is_active p binding =
     (case binding of
        None \<Rightarrow> False
      | Some b \<Rightarrow> paging_enabled p \<and> paging_generation b = X86_BOOT_PAGING_GENERATION \<and>
          paging_page_directory b = page_directory_address p \<and>
          guest_linear_limit b = X86_REAL_MODE_LINEAR_LIMIT \<and>
          active_page_directory p = paging_page_directory b)"

definition active_boot_page_directory :: "x86_paging_state \<Rightarrow> bool" where
  "active_boot_page_directory p \<longleftrightarrow> paging_enabled p \<and>
     paging_identity_limit p \<ge> X86_DOS_VIDEO_LIMIT \<and> active_page_directory p = page_directory_address p"

text \<open>A page-table entry pointer is the pair of its indices.\<close>

definition boot_page_entry :: "x86_paging_state \<Rightarrow> u32 \<Rightarrow> (nat \<times> nat) option" where
  "boot_page_entry p linear =
     (if \<not> active_boot_page_directory p \<or> linear \<ge> paging_identity_limit p then None
      else (let t = unat (linear div X86_PAGE_TABLE_SPAN);
                e = unat (drop_bit 12 linear AND 0x3ff)
            in if t \<ge> X86_BOOT_PAGE_TABLE_CAPACITY \<or> page_directory p t AND X86_PAGE_PRESENT = 0
               then None else Some (t, e)))"

definition entry_at :: "x86_paging_state \<Rightarrow> nat \<times> nat \<Rightarrow> u32" where
  "entry_at p slot = identity_page_tables p (fst slot) (snd slot)"

definition set_entry :: "x86_paging_state \<Rightarrow> nat \<times> nat \<Rightarrow> u32 \<Rightarrow> x86_paging_state" where
  "set_entry p slot v =
     p\<lparr>identity_page_tables := (identity_page_tables p)
        (fst slot := (identity_page_tables p (fst slot))(snd slot := v))\<rparr>"

definition guest_directory_is_user_accessible :: "x86_paging_state \<Rightarrow> u32 \<Rightarrow> bool" where
  "guest_directory_is_user_accessible p linear =
     (let t = unat (linear div X86_PAGE_TABLE_SPAN)
      in t < X86_BOOT_PAGE_TABLE_CAPACITY \<and>
         page_directory p t AND (X86_PAGE_PRESENT OR X86_PAGE_USER) = X86_PAGE_PRESENT OR X86_PAGE_USER)"

definition entries_match_ignoring_cpu_state :: "u32 \<Rightarrow> u32 \<Rightarrow> bool" where
  "entries_match_ignoring_cpu_state left right \<longleftrightarrow>
     (left AND NOT X86_PAGE_HARDWARE_MUTABLE) = (right AND NOT X86_PAGE_HARDWARE_MUTABLE)"

definition private_shadow_target_is_safe :: "x86_paging_state \<Rightarrow> u32 \<Rightarrow> bool" where
  "private_shadow_target_is_safe p page =
     (if page AND (X86_PAGE_BYTES - 1) \<noteq> 0 \<or> page < X86_BOOT_IDENTITY_FLOOR \<or>
         page \<ge> paging_identity_limit p then False
      else (case boot_page_entry p page of
              None \<Rightarrow> False
            | Some slot \<Rightarrow>
                entry_at p slot AND X86_PAGE_ADDRESS_MASK = page \<and>
                entry_at p slot AND (X86_PAGE_PRESENT OR X86_PAGE_WRITABLE) =
                  X86_PAGE_PRESENT OR X86_PAGE_WRITABLE \<and>
                entry_at p slot AND X86_PAGE_USER = 0))"

definition guest_shadow_snapshot_is_valid ::
  "x86_paging_state \<Rightarrow> x86_paging_guest_shadow_snapshot_record option \<Rightarrow> bool" where
  "guest_shadow_snapshot_is_valid p snapshot =
     (case snapshot of
        None \<Rightarrow> False
      | Some s \<Rightarrow> x86_paging_binding_is_active p (Some (snap_paging s)) \<and>
          snap_linear_page s \<ge> X86_DOS_VIDEO_LIMIT \<and> snap_linear_page s < X86_LEGACY_ROM_LIMIT \<and>
          snap_linear_page s AND (X86_PAGE_BYTES - 1) = 0 \<and>
          original_entry s AND X86_PAGE_ADDRESS_MASK = snap_linear_page s \<and>
          original_entry s AND (X86_PAGE_PRESENT OR X86_PAGE_USER OR X86_PAGE_WRITABLE) =
            X86_PAGE_PRESENT OR X86_PAGE_USER \<and>
          list_all (\<lambda>x. x = 0) (snap_reserved s))"

definition guest_shadow_entry :: "x86_paging_guest_shadow_snapshot_record \<Rightarrow> u32 \<Rightarrow> u32" where
  "guest_shadow_entry s private_page =
     (private_page OR (original_entry s AND NOT X86_PAGE_ADDRESS_MASK) OR X86_PAGE_WRITABLE)"

section \<open>Guest translation and firmware aliases\<close>

definition x86_paging_guest_identity_translate ::
  "x86_paging_state \<Rightarrow> x86_paging_binding option \<Rightarrow> u32 \<Rightarrow> bool \<Rightarrow> x86_paging_guest_translation option" where
  "x86_paging_guest_identity_translate p binding address writable =
     (let page = address AND X86_PAGE_ADDRESS_MASK
      in if \<not> x86_paging_binding_is_active p binding \<or> address \<ge> guest_linear_limit (the binding) \<or>
            \<not> guest_directory_is_user_accessible p address then None
         else (case boot_page_entry p page of
                 None \<Rightarrow> None
               | Some slot \<Rightarrow>
                   if entry_at p slot AND X86_PAGE_ADDRESS_MASK \<noteq> page then None
                   else (let required = X86_PAGE_PRESENT OR X86_PAGE_USER OR
                               (if writable then X86_PAGE_WRITABLE else 0)
                         in if entry_at p slot AND required \<noteq> required then None
                            else Some \<lparr>physical_address = address,
                                       contiguous_bytes = X86_PAGE_BYTES - (address AND (X86_PAGE_BYTES - 1))\<rparr>)))"

definition x86_paging_guest_shadow_snapshot ::
  "x86_paging_state \<Rightarrow> x86_paging_binding option \<Rightarrow> u32
     \<Rightarrow> x86_paging_guest_shadow_status \<times> x86_paging_guest_shadow_snapshot_record option" where
  "x86_paging_guest_shadow_snapshot p binding linear_page =
     (case binding of
        None \<Rightarrow> (X86_PAGING_GUEST_SHADOW_INVALID_ARGUMENT, None)
      | Some b \<Rightarrow>
          if linear_page AND (X86_PAGE_BYTES - 1) \<noteq> 0 \<or> linear_page < X86_DOS_VIDEO_LIMIT \<or>
             linear_page \<ge> X86_LEGACY_ROM_LIMIT
          then (X86_PAGING_GUEST_SHADOW_INVALID_ARGUMENT, None)
          else if \<not> x86_paging_binding_is_active p binding
          then (X86_PAGING_GUEST_SHADOW_STALE_BINDING, None)
          else if \<not> guest_directory_is_user_accessible p linear_page
          then (X86_PAGING_GUEST_SHADOW_SOURCE_MISMATCH, None)
          else (case boot_page_entry p linear_page of
                  None \<Rightarrow> (X86_PAGING_GUEST_SHADOW_SOURCE_MISMATCH, None)
                | Some slot \<Rightarrow>
                    if entry_at p slot AND X86_PAGE_ADDRESS_MASK \<noteq> linear_page \<or>
                       entry_at p slot AND (X86_PAGE_PRESENT OR X86_PAGE_USER OR X86_PAGE_WRITABLE) \<noteq>
                         X86_PAGE_PRESENT OR X86_PAGE_USER
                    then (X86_PAGING_GUEST_SHADOW_SOURCE_MISMATCH, None)
                    else (X86_PAGING_GUEST_SHADOW_OK,
                          Some \<lparr>snap_paging = b, snap_linear_page = linear_page,
                                original_entry = entry_at p slot, snap_reserved = replicate 8 0\<rparr>)))"

definition x86_paging_guest_shadow_publish ::
  "x86_paging_state \<Rightarrow> x86_paging_guest_shadow_snapshot_record option \<Rightarrow> u32
     \<Rightarrow> x86_paging_guest_shadow_status \<times> x86_paging_state" where
  "x86_paging_guest_shadow_publish p snapshot private_page =
     (case snapshot of
        None \<Rightarrow> (X86_PAGING_GUEST_SHADOW_INVALID_ARGUMENT, p)
      | Some s \<Rightarrow>
          if private_page AND (X86_PAGE_BYTES - 1) \<noteq> 0 then (X86_PAGING_GUEST_SHADOW_INVALID_ARGUMENT, p)
          else if \<not> guest_shadow_snapshot_is_valid p snapshot
          then (X86_PAGING_GUEST_SHADOW_STALE_BINDING, p)
          else if \<not> private_shadow_target_is_safe p private_page
          then (X86_PAGING_GUEST_SHADOW_TARGET_DENIED, p)
          else if \<not> guest_directory_is_user_accessible p (snap_linear_page s)
          then (X86_PAGING_GUEST_SHADOW_SOURCE_MISMATCH, p)
          else (case boot_page_entry p (snap_linear_page s) of
                  None \<Rightarrow> (X86_PAGING_GUEST_SHADOW_SOURCE_MISMATCH, p)
                | Some slot \<Rightarrow>
                    if \<not> entries_match_ignoring_cpu_state (entry_at p slot) (original_entry s)
                    then (X86_PAGING_GUEST_SHADOW_SOURCE_MISMATCH, p)
                    else (X86_PAGING_GUEST_SHADOW_OK,
                          flush_translation_lookaside_buffer
                            (set_entry p slot (guest_shadow_entry s private_page)))))"

definition x86_paging_guest_shadow_restore ::
  "x86_paging_state \<Rightarrow> x86_paging_guest_shadow_snapshot_record option \<Rightarrow> u32
     \<Rightarrow> x86_paging_guest_shadow_status \<times> x86_paging_state" where
  "x86_paging_guest_shadow_restore p snapshot private_page =
     (case snapshot of
        None \<Rightarrow> (X86_PAGING_GUEST_SHADOW_INVALID_ARGUMENT, p)
      | Some s \<Rightarrow>
          if private_page AND (X86_PAGE_BYTES - 1) \<noteq> 0 then (X86_PAGING_GUEST_SHADOW_INVALID_ARGUMENT, p)
          else if \<not> guest_shadow_snapshot_is_valid p snapshot
          then (X86_PAGING_GUEST_SHADOW_STALE_BINDING, p)
          else (case boot_page_entry p (snap_linear_page s) of
                  None \<Rightarrow> (X86_PAGING_GUEST_SHADOW_STALE_BINDING, p)
                | Some slot \<Rightarrow>
                    (let verdict = (if guest_directory_is_user_accessible p (snap_linear_page s)
                                    then X86_PAGING_GUEST_SHADOW_OK
                                    else X86_PAGING_GUEST_SHADOW_MAPPING_MISMATCH);
                         expected = guest_shadow_entry s private_page;
                         restored = flush_translation_lookaside_buffer (set_entry p slot (original_entry s))
                     in if entries_match_ignoring_cpu_state (entry_at p slot) (original_entry s)
                        then (verdict, p)
                        else if entries_match_ignoring_cpu_state (entry_at p slot) expected
                        then (verdict, restored)
                        else (X86_PAGING_GUEST_SHADOW_MAPPING_MISMATCH, restored))))"

definition x86_paging_guest_shadow_translate ::
  "x86_paging_state \<Rightarrow> x86_paging_guest_shadow_snapshot_record option \<Rightarrow> u32 \<Rightarrow> u32 \<Rightarrow> bool
     \<Rightarrow> x86_paging_guest_translation option" where
  "x86_paging_guest_shadow_translate p snapshot private_page address writable =
     (case snapshot of
        None \<Rightarrow> None
      | Some s \<Rightarrow>
          if \<not> guest_shadow_snapshot_is_valid p snapshot \<or> \<not> private_shadow_target_is_safe p private_page \<or>
             \<not> guest_directory_is_user_accessible p (snap_linear_page s) \<or>
             address < snap_linear_page s \<or> address \<ge> snap_linear_page s + X86_PAGE_BYTES then None
          else (case boot_page_entry p (snap_linear_page s) of
                  None \<Rightarrow> None
                | Some slot \<Rightarrow>
                    if \<not> entries_match_ignoring_cpu_state (entry_at p slot) (guest_shadow_entry s private_page) \<or>
                       entry_at p slot AND (X86_PAGE_PRESENT OR X86_PAGE_USER) \<noteq>
                         X86_PAGE_PRESENT OR X86_PAGE_USER \<or>
                       (writable \<and> entry_at p slot AND X86_PAGE_WRITABLE = 0) then None
                    else (let offset = address - snap_linear_page s
                          in Some \<lparr>physical_address = private_page + offset,
                                   contiguous_bytes = X86_PAGE_BYTES - offset\<rparr>)))"

text \<open>The loop visits the page numbers \<open>page .. last_page\<close> of the first table.\<close>

definition x86_paging_guest_range_is_accessible :: "x86_paging_state \<Rightarrow> u32 \<Rightarrow> nat \<Rightarrow> bool \<Rightarrow> bool" where
  "x86_paging_guest_range_is_accessible p address count writable =
     (if \<not> active_boot_page_directory p \<or> address > X86_REAL_MODE_LINEAR_LIMIT \<or>
         count > unat (X86_REAL_MODE_LINEAR_LIMIT - address) then False
      else if count = 0 then True
      else (let last_byte = address + of_nat count
            in if last_byte \<le> address \<or>
                  page_directory p 0 AND (X86_PAGE_PRESENT OR X86_PAGE_USER) \<noteq>
                    X86_PAGE_PRESENT OR X86_PAGE_USER then False
               else (let required = X86_PAGE_PRESENT OR X86_PAGE_USER OR
                           (if writable then X86_PAGE_WRITABLE else 0)
                     in list_all (\<lambda>page. let entry = identity_page_tables p 0 page in
                            entry AND X86_PAGE_ADDRESS_MASK = push_bit 12 (of_nat page) \<and>
                            entry AND required = required)
                          [unat (drop_bit 12 address)..<unat (drop_bit 12 (last_byte - 1)) + 1])))"

section \<open>The legacy video aperture\<close>

definition legacy_video_range :: "u32 \<Rightarrow> nat \<Rightarrow> u32 option" where
  "legacy_video_range address count =
     (if count = 0 \<or> address AND (X86_PAGE_BYTES - 1) \<noteq> 0 \<or> count mod 0x1000 \<noteq> 0 \<or>
         address < X86_LEGACY_VIDEO_BASE \<or> address \<ge> X86_DOS_VIDEO_LIMIT \<or>
         count > unat (X86_DOS_VIDEO_LIMIT - address) then None
      else (let limit = address + of_nat count in if limit > address then Some limit else None))"

text \<open>The page numbers \<open>linear >> 12\<close> of \<open>for (linear = address; linear < limit; linear += 4096)\<close>, for
  a page-aligned \<open>address\<close> and \<open>limit\<close>.\<close>

definition video_pages :: "u32 \<Rightarrow> u32 \<Rightarrow> nat list" where
  "video_pages address limit = [unat (drop_bit 12 address)..<unat (drop_bit 12 limit)]"

definition legacy_video_identity_mappings_are_valid ::
  "x86_paging_state \<Rightarrow> u32 \<Rightarrow> nat \<Rightarrow> bool \<Rightarrow> bool \<Rightarrow> bool" where
  "legacy_video_identity_mappings_are_valid p address count require_user forbid_user =
     (case legacy_video_range address count of
        None \<Rightarrow> False
      | Some limit \<Rightarrow>
          list_all (\<lambda>page. let entry = identity_page_tables p 0 page in
              entry AND X86_PAGE_ADDRESS_MASK = push_bit 12 (of_nat page) \<and>
              entry AND (X86_PAGE_PRESENT OR X86_PAGE_WRITABLE) = X86_PAGE_PRESENT OR X86_PAGE_WRITABLE \<and>
              \<not> (require_user \<and> entry AND X86_PAGE_USER = 0) \<and>
              \<not> (forbid_user \<and> entry AND X86_PAGE_USER \<noteq> 0))
            (video_pages address limit))"

text \<open>One iteration of the loops that strip user access, on the state and the flags \<open>changed\<close> and
  \<open>valid\<close>; \<open>ok\<close> is the test whose failure clears \<open>valid\<close>.\<close>

definition strip_user_step ::
  "(nat \<Rightarrow> u32 \<Rightarrow> bool) \<Rightarrow> nat \<Rightarrow> x86_paging_state \<times> bool \<times> bool \<Rightarrow> x86_paging_state \<times> bool \<times> bool" where
  "strip_user_step ok page st =
     (case st of (p, changed, valid) \<Rightarrow>
        (let entry = identity_page_tables p 0 page; valid = (valid \<and> ok page entry)
         in if entry AND X86_PAGE_USER \<noteq> 0
            then (set_entry p (0, page) (entry AND NOT X86_PAGE_USER), True, valid)
            else (p, changed, valid)))"

definition force_legacy_video_supervisor :: "x86_paging_state \<Rightarrow> u32 \<Rightarrow> nat \<Rightarrow> bool \<times> x86_paging_state" where
  "force_legacy_video_supervisor p address count =
     (let active = active_boot_page_directory p
      in case legacy_video_range address count of
           None \<Rightarrow> (False, p)
         | Some limit \<Rightarrow>
             (let (p', changed, valid) =
                    fold (strip_user_step (\<lambda>page entry.
                        entry AND X86_PAGE_ADDRESS_MASK = push_bit 12 (of_nat page) \<and>
                        entry AND (X86_PAGE_PRESENT OR X86_PAGE_WRITABLE) = X86_PAGE_PRESENT OR X86_PAGE_WRITABLE))
                      (video_pages address limit) (p, False, True)
              in (active \<and> valid,
                  if changed \<and> active then flush_translation_lookaside_buffer p' else p')))"

text \<open>The loops that add flags to a run of entries of the first table.\<close>

definition add_flags :: "u32 \<Rightarrow> nat \<Rightarrow> x86_paging_state \<Rightarrow> x86_paging_state" where
  "add_flags flags page p = set_entry p (0, page) (identity_page_tables p 0 page OR flags)"

definition x86_paging_grant_legacy_video_range ::
  "x86_paging_state \<Rightarrow> u32 \<Rightarrow> nat \<Rightarrow> bool \<times> x86_paging_state" where
  "x86_paging_grant_legacy_video_range p address count =
     (if \<not> active_boot_page_directory p \<or>
         \<not> legacy_video_identity_mappings_are_valid p address count False True \<or>
         legacy_video_range address count = None
      then (False, snd (force_legacy_video_supervisor p address count))
      else (True, flush_translation_lookaside_buffer
              (fold (add_flags X86_PAGE_USER) (video_pages address (the (legacy_video_range address count))) p)))"

definition x86_paging_revoke_legacy_video_range ::
  "x86_paging_state \<Rightarrow> u32 \<Rightarrow> nat \<Rightarrow> bool \<times> x86_paging_state" where
  "x86_paging_revoke_legacy_video_range p address count = force_legacy_video_supervisor p address count"

definition x86_paging_legacy_video_range_is_user_accessible :: "x86_paging_state \<Rightarrow> u32 \<Rightarrow> nat \<Rightarrow> bool" where
  "x86_paging_legacy_video_range_is_user_accessible p address count \<longleftrightarrow>
     active_boot_page_directory p \<and> legacy_video_identity_mappings_are_valid p address count True False"

section \<open>The protected-process aperture\<close>

text \<open>The page interval \<open>[first_page, page_limit)\<close>, when the range lies in the aperture.\<close>

definition protected_user_range :: "x86_paging_state \<Rightarrow> u32 \<Rightarrow> nat \<Rightarrow> (nat \<times> nat) option" where
  "protected_user_range p address count =
     (if \<not> paging_enabled p \<or> count = 0 \<or> address < X86_PROTECTED_USER_BASE \<or>
         address \<ge> X86_PROTECTED_USER_STACK_TOP \<or> count > unat (X86_PROTECTED_USER_STACK_TOP - address)
      then None
      else (let last_byte = address + of_nat count
            in if last_byte > X86_PROTECTED_USER_STACK_TOP \<or> last_byte < address then None
               else (let last_byte = (last_byte + X86_PAGE_BYTES - 1) AND NOT (X86_PAGE_BYTES - 1)
                     in Some (unat (drop_bit 12 address), unat (drop_bit 12 last_byte)))))"

definition x86_paging_supervisor_range_is_writable :: "x86_paging_state \<Rightarrow> u32 \<Rightarrow> nat \<Rightarrow> bool" where
  "x86_paging_supervisor_range_is_writable p address count =
     (case protected_user_range p address count of
        None \<Rightarrow> False
      | Some (first_page, page_limit) \<Rightarrow>
          active_boot_page_directory p \<and>
          list_all (\<lambda>page. let entry = identity_page_tables p 0 page in
              entry AND (X86_PAGE_PRESENT OR X86_PAGE_WRITABLE) = X86_PAGE_PRESENT OR X86_PAGE_WRITABLE \<and>
              entry AND X86_PAGE_USER = 0) [first_page..<page_limit])"

definition x86_paging_grant_user_range :: "x86_paging_state \<Rightarrow> u32 \<Rightarrow> nat \<Rightarrow> bool \<times> x86_paging_state" where
  "x86_paging_grant_user_range p address count =
     (case protected_user_range p address count of
        None \<Rightarrow> (False, p)
      | Some (first_page, page_limit) \<Rightarrow>
          if \<not> active_boot_page_directory p then (False, p)
          else if \<not> list_all (\<lambda>page. identity_page_tables p 0 page AND (X86_PAGE_PRESENT OR X86_PAGE_WRITABLE) =
                    X86_PAGE_PRESENT OR X86_PAGE_WRITABLE) [first_page..<page_limit] then (False, p)
          else (True, flush_translation_lookaside_buffer
                  (fold (add_flags (X86_PAGE_USER OR X86_PAGE_WRITABLE)) [first_page..<page_limit] p)))"

definition x86_paging_revoke_user_range :: "x86_paging_state \<Rightarrow> u32 \<Rightarrow> nat \<Rightarrow> bool \<times> x86_paging_state" where
  "x86_paging_revoke_user_range p address count =
     (case protected_user_range p address count of
        None \<Rightarrow> (False, p)
      | Some (first_page, page_limit) \<Rightarrow>
          if \<not> active_boot_page_directory p then (False, p)
          else (let (p', changed, valid) =
                      fold (strip_user_step (\<lambda>page entry.
                          entry AND (X86_PAGE_PRESENT OR X86_PAGE_WRITABLE) = X86_PAGE_PRESENT OR X86_PAGE_WRITABLE))
                        [first_page..<page_limit] (p, False, True)
                in (valid, if changed then flush_translation_lookaside_buffer p' else p')))"

definition x86_paging_user_range_is_accessible :: "x86_paging_state \<Rightarrow> u32 \<Rightarrow> nat \<Rightarrow> bool" where
  "x86_paging_user_range_is_accessible p address count =
     (if \<not> paging_enabled p \<or> address < X86_PROTECTED_USER_BASE \<or>
         count > unat (X86_PROTECTED_USER_STACK_TOP - address) then False
      else if count = 0 then address \<le> X86_PROTECTED_USER_STACK_TOP
      else (let last_byte = address + of_nat count
            in if last_byte \<le> address \<or> last_byte > X86_PROTECTED_USER_STACK_TOP then False
               else list_all (\<lambda>page. identity_page_tables p 0 page AND (X86_PAGE_PRESENT OR X86_PAGE_USER) =
                        X86_PAGE_PRESENT OR X86_PAGE_USER)
                      [unat (drop_bit 12 address)..<unat (drop_bit 12 (last_byte - 1)) + 1]))"

end
