(* ===== verification/PagingProof.thy ===== *)
theory PagingProof
  imports Paging
begin

text \<open>
  Correctness of the boot page tables. A small model of the 386 page walk at privilege level 3 says
  which physical byte a guest access reaches; an invariant of the tables, kept by every paging
  operation with any arguments, confines what that walk can reach. The run-time loops are
  summarised pointwise, grants and revocations are inverse to each other, and the software
  translation agrees with the hardware walk.
\<close>

named_theorems flag_simps \<open>flag tests of page-table entries as tests of bits\<close>

section \<open>Bits of entries\<close>

declare bit_numeral_word_iff [simp del] bit_neg_numeral_word_iff [simp del]

lemma u32_eq_iff: "(a :: u32) = b \<longleftrightarrow> (\<forall>n < 32. bit a n = bit b n)"
  using bit_word_eqI [of a b] by auto

lemma bit_1_u32: "bit (1 :: u32) n \<longleftrightarrow> n = 0"
  by (simp add: bit_1_iff)

lemma bit_2_u32: "bit (2 :: u32) n \<longleftrightarrow> n = 1"
  using bit_exp_iff [of 1 n, where ?'a = u32] by auto

lemma bit_4_u32: "bit (4 :: u32) n \<longleftrightarrow> n = 2"
  using bit_exp_iff [of 2 n, where ?'a = u32] by auto

lemma bit_3_u32: "bit (3 :: u32) n \<longleftrightarrow> n = 0 \<or> n = 1"
proof -
  have "(3 :: u32) = 1 OR 2" by simp
  then have "bit (3 :: u32) n \<longleftrightarrow> bit (1 OR 2 :: u32) n" by (rule arg_cong)
  then show ?thesis by (simp only: bit_or_iff bit_1_u32 bit_2_u32)
qed

lemma bit_5_u32: "bit (5 :: u32) n \<longleftrightarrow> n = 0 \<or> n = 2"
proof -
  have "(5 :: u32) = 1 OR 4" by simp
  then have "bit (5 :: u32) n \<longleftrightarrow> bit (1 OR 4 :: u32) n" by (rule arg_cong)
  then show ?thesis by (simp only: bit_or_iff bit_1_u32 bit_4_u32)
qed

lemma bit_6_u32: "bit (6 :: u32) n \<longleftrightarrow> n = 1 \<or> n = 2"
proof -
  have "(6 :: u32) = 2 OR 4" by simp
  then have "bit (6 :: u32) n \<longleftrightarrow> bit (2 OR 4 :: u32) n" by (rule arg_cong)
  then show ?thesis by (simp only: bit_or_iff bit_2_u32 bit_4_u32)
qed

lemma bit_7_u32: "bit (7 :: u32) n \<longleftrightarrow> n = 0 \<or> n = 1 \<or> n = 2"
proof -
  have "(7 :: u32) = 3 OR 4" by simp
  then have "bit (7 :: u32) n \<longleftrightarrow> bit (3 OR 4 :: u32) n" by (rule arg_cong)
  then show ?thesis by (simp only: bit_or_iff bit_3_u32 bit_4_u32 disj_assoc)
qed

lemma bit_0x60_u32: "bit (0x60 :: u32) n \<longleftrightarrow> n = 5 \<or> n = 6"
proof -
  have "(0x60 :: u32) = 2 ^ 5 OR 2 ^ 6" by simp
  then have "bit (0x60 :: u32) n \<longleftrightarrow> bit (2 ^ 5 OR 2 ^ 6 :: u32) n" by (rule arg_cong)
  then show ?thesis using bit_exp_iff [of 5 n, where ?'a = u32] bit_exp_iff [of 6 n, where ?'a = u32]
    by (simp only: bit_or_iff) auto
qed

lemma page_mask_eq: "(0xfffff000 :: u32) = NOT (mask 12)"
  by (simp add: mask_eq_exp_minus_1)

lemma bit_page_mask: "bit (0xfffff000 :: u32) n \<longleftrightarrow> 12 \<le> n \<and> n < 32"
  by (simp only: page_mask_eq) (auto simp: bit_simps)

lemma bit_offset_mask: "bit (0xfff :: u32) n \<longleftrightarrow> n < 12"
proof -
  have "(0xfff :: u32) = mask 12" by (simp add: mask_eq_exp_minus_1)
  then have "bit (0xfff :: u32) n \<longleftrightarrow> bit (mask 12 :: u32) n" by (rule arg_cong)
  then show ?thesis by (auto simp: bit_mask_iff)
qed

text \<open>Complements, in the normal form that numerals take.\<close>

lemma bit_complement_u32:
  "bit (- 5 :: u32) n \<longleftrightarrow> n < 32 \<and> n \<noteq> 2"
  "bit (- 97 :: u32) n \<longleftrightarrow> n < 32 \<and> n \<noteq> 5 \<and> n \<noteq> 6"
  "bit (- 4096 :: u32) n \<longleftrightarrow> 12 \<le> n \<and> n < 32"
  "bit (- 4294963201 :: u32) n \<longleftrightarrow> n < 12"
proof -
  have "(- 5 :: u32) = NOT 4" "(- 97 :: u32) = NOT 0x60" "(- 4096 :: u32) = 0xfffff000"
    "(- 4294963201 :: u32) = 0xfff"
    by simp_all
  then show
    "bit (- 5 :: u32) n \<longleftrightarrow> n < 32 \<and> n \<noteq> 2"
    "bit (- 97 :: u32) n \<longleftrightarrow> n < 32 \<and> n \<noteq> 5 \<and> n \<noteq> 6"
    "bit (- 4096 :: u32) n \<longleftrightarrow> 12 \<le> n \<and> n < 32"
    "bit (- 4294963201 :: u32) n \<longleftrightarrow> n < 12"
    by (simp_all only: bit_not_iff bit_4_u32 bit_0x60_u32 bit_page_mask bit_offset_mask) auto
qed

lemmas flag_bits = bit_complement_u32 bit_1_u32 bit_2_u32 bit_3_u32 bit_4_u32 bit_5_u32 bit_6_u32 bit_7_u32 bit_0x60_u32
  bit_page_mask bit_offset_mask

declare flag_bits [simp]

text \<open>The flag tests of the source, as tests of single bits of an entry.\<close>

lemma and_low3_iff:
  assumes "\<And>n. 3 \<le> n \<Longrightarrow> \<not> bit m n" and "\<And>n. 3 \<le> n \<Longrightarrow> \<not> bit v n"
  shows "(w :: u32) AND m = v \<longleftrightarrow> (bit w 0 \<and> bit m 0) = bit v 0 \<and>
    (bit w 1 \<and> bit m 1) = bit v 1 \<and> (bit w 2 \<and> bit m 2) = bit v 2"
proof
  assume "w AND m = v"
  then have "(bit w n \<and> bit m n) = bit v n" for n by (simp add: bit_and_iff flip: \<open>w AND m = v\<close>)
  then show "(bit w 0 \<and> bit m 0) = bit v 0 \<and> (bit w 1 \<and> bit m 1) = bit v 1 \<and> (bit w 2 \<and> bit m 2) = bit v 2"
    by blast
next
  assume *: "(bit w 0 \<and> bit m 0) = bit v 0 \<and> (bit w 1 \<and> bit m 1) = bit v 1 \<and> (bit w 2 \<and> bit m 2) = bit v 2"
  show "w AND m = v"
  proof (rule bit_word_eqI)
    fix n :: nat
    consider "n = 0" | "n = 1" | "n = 2" | "3 \<le> n" by linarith
    then show "bit (w AND m) n = bit v n"
      by cases (use * assms in \<open>simp_all only: bit_and_iff simp_thms\<close>)
  qed
qed

lemma flag_tests [flag_simps]:
  fixes w :: u32
  shows "w AND 1 = 0 \<longleftrightarrow> \<not> bit w 0"
    and "w AND 2 = 0 \<longleftrightarrow> \<not> bit w 1"
    and "w AND 4 = 0 \<longleftrightarrow> \<not> bit w 2"
    and "w AND 3 = 3 \<longleftrightarrow> bit w 0 \<and> bit w 1"
    and "w AND 5 = 5 \<longleftrightarrow> bit w 0 \<and> bit w 2"
    and "w AND 7 = 7 \<longleftrightarrow> bit w 0 \<and> bit w 1 \<and> bit w 2"
    and "w AND 7 = 5 \<longleftrightarrow> bit w 0 \<and> \<not> bit w 1 \<and> bit w 2"
  by (subst and_low3_iff; simp only: flag_bits bit_0_eq bot_apply bot_bool_def; simp)+

lemma unat_page_base: "unat ((w :: u32) AND 0xfffff000) = unat w div 4096 * 4096"
proof -
  have "w AND 0xfffff000 = push_bit 12 (drop_bit 12 w)"
    by (simp only: u32_eq_iff bit_and_iff flag_bits) (auto simp: bit_simps)
  moreover have "unat w div 4096 * 4096 < 4294967296" using unat_u32_less [of w] by linarith
  ultimately show ?thesis by (simp add: push_bit_eq_mult drop_bit_eq_div unat_div_distrib unat_word_ariths)
qed

lemma unat_page_offset: "unat ((w :: u32) AND 0xfff) = unat w mod 4096"
proof -
  have "w AND 0xfff = take_bit 12 w"
    by (simp only: u32_eq_iff bit_and_iff flag_bits) (auto simp: bit_simps)
  then show ?thesis by (simp add: take_bit_eq_mod unat_mod_distrib)
qed

lemma unat_page_number: "unat (drop_bit 12 (w :: u32)) = unat w div 4096"
  by (simp add: drop_bit_eq_div unat_div_distrib)


lemma bit_page_base [simp]: "bit ((w :: u32) AND 0xfffff000) n \<longleftrightarrow> bit w n \<and> 12 \<le> n"
  using bit_imp_le_length [of w n] by (auto simp only: bit_and_iff flag_bits) simp

lemma page_base_or_flags [simp]:
  assumes "\<And>n. 12 \<le> n \<Longrightarrow> \<not> bit f n"
  shows "((w :: u32) OR f) AND 0xfffff000 = w AND 0xfffff000"
  by (rule bit_word_eqI) (use assms in \<open>auto simp: bit_or_iff\<close>)

lemma aligned_bits: "(w :: u32) AND 0xfff = 0 \<Longrightarrow> n < 12 \<Longrightarrow> \<not> bit w n"
proof
  assume "w AND 0xfff = 0" "n < 12" "bit w n"
  from \<open>bit w n\<close> \<open>n < 12\<close> have "bit (w AND 0xfff) n" by (simp only: bit_and_iff bit_offset_mask)
  with \<open>w AND 0xfff = 0\<close> show False by simp
qed

lemma aligned_page_base: "(w :: u32) AND 0xfff = 0 \<Longrightarrow> w AND 0xfffff000 = w"
  by (rule bit_word_eqI) (metis aligned_bits bit_page_base not_less)


section \<open>The processor's view\<close>

text \<open>The page walk of a privilege-level-3 access: both levels must be present and user accessible, and
  writable for a write. It returns the physical byte.\<close>

definition cpu_translate :: "x86_paging_state \<Rightarrow> u32 \<Rightarrow> bool \<Rightarrow> u32 option" where
  "cpu_translate p linear writing =
     (let t = unat linear div 0x400000; e = unat linear div 0x1000 mod 1024;
          pde = page_directory p t; pte = identity_page_tables p t e
      in if bit pde 0 \<and> bit pde 2 \<and> bit pte 0 \<and> bit pte 2 \<and> (writing \<longrightarrow> bit pde 1 \<and> bit pte 1)
         then Some ((pte AND 0xfffff000) OR (linear AND 0xfff)) else None)"

definition page_address :: "nat \<Rightarrow> u32" where
  "page_address e = push_bit 12 (of_nat e)"

text \<open>What an entry of the first table may say: a present entry is the identity mapping, user
  accessible only in the real-mode window or the process aperture and never writable in the
  firmware window; or it is a firmware page redirected to managed memory above the identity floor.\<close>

definition entry_ok :: "u32 \<Rightarrow> nat \<Rightarrow> u32 \<Rightarrow> bool" where
  "entry_ok limit e x \<longleftrightarrow> (bit x 0 \<longrightarrow>
     (x AND 0xfffff000 = page_address e \<and> (bit x 2 \<longrightarrow> e < 0x110 \<or> 0x200 \<le> e) \<and>
       (0xc0 \<le> e \<and> e < 0x100 \<longrightarrow> \<not> bit x 1)) \<or>
     (0xc0 \<le> e \<and> e < 0x100 \<and> X86_BOOT_IDENTITY_FLOOR \<le> x AND 0xfffff000 \<and> x AND 0xfffff000 < limit))"

definition paging_inv :: "x86_paging_state \<Rightarrow> bool" where
  "paging_inv p \<longleftrightarrow>
     page_directory_address p AND 0xfff = 0 \<and> page_tables_address p AND 0xfff = 0 \<and>
     paging_enabled p \<and> cr3 p = page_directory_address p \<and>
     (\<exists>tables. 2 \<le> tables \<and> tables \<le> 64 \<and> paging_identity_limit p = of_nat tables * 0x400000 \<and>
        (\<forall>t < 1024. page_directory p t = (if t < tables then boot_directory_entry p t else 0))) \<and>
     (\<forall>e < 1024. entry_ok (paging_identity_limit p) e (identity_page_tables p 0 e))"

lemma bit_page_address: "e < 0x100000 \<Longrightarrow> bit (page_address e) n \<longleftrightarrow> 12 \<le> n \<and> bit e (n - 12) \<and> n < 32"
  by (auto simp: page_address_def bit_simps)

lemma unat_page_address: "e < 0x100000 \<Longrightarrow> unat (page_address e) = e * 4096"
  by (simp add: page_address_def push_bit_eq_mult unat_word_ariths unat_of_nat)

lemma page_base_is_address: "(w :: u32) AND 0xfffff000 = page_address (unat w div 4096)"
  using unat_u32_less [of w]
  by (subst word_unat_eq_iff) (simp add: unat_page_base unat_page_address)

lemma boot_directory_bits:
  assumes "page_tables_address p AND 0xfff = 0"
  shows "bit (boot_directory_entry p t) 0" and "bit (boot_directory_entry p t) 1"
    and "bit (boot_directory_entry p t) 2 \<longleftrightarrow> t = 0"
proof -
  have "(page_tables_address p + of_nat t * 0x1000) AND 0xfff = 0"
  proof -
    have "4096 dvd unat (page_tables_address p)"
      using assms unat_page_offset [of "page_tables_address p"] by (simp add: dvd_eq_mod_eq_0)
    then have "4096 dvd unat (page_tables_address p + of_nat t * 0x1000)"
      by (simp add: unat_word_ariths unat_of_nat dvd_mod_iff)
    then have "unat (page_tables_address p + of_nat t * 0x1000) mod 4096 = 0" by simp
    then show ?thesis using unat_page_offset [of "page_tables_address p + of_nat t * 0x1000"]
      by (simp add: unat_eq_0)
  qed
  note low = aligned_bits [OF this]
  show "bit (boot_directory_entry p t) 0" and "bit (boot_directory_entry p t) 1"
    and "bit (boot_directory_entry p t) 2 \<longleftrightarrow> t = 0"
    using low [of 2] by (auto simp: boot_directory_entry_def bit_or_iff)
qed

lemma unat_span_base: "unat ((w :: u64) AND NOT 0x3fffff) = unat w div 0x400000 * 0x400000"
proof -
  have mask: "(0x3fffff :: u64) = mask 22" by (simp add: mask_eq_exp_minus_1)
  have "w AND NOT 0x3fffff = push_bit 22 (drop_bit 22 w)"
    unfolding mask by (rule bit_word_eqI) (auto simp: bit_simps)
  moreover have "unat w div 0x400000 * 0x400000 < 0x10000000000000000" using unat_u64_less [of w] by linarith
  ultimately show ?thesis by (simp add: push_bit_eq_mult drop_bit_eq_div unat_div_distrib unat_word_ariths)
qed

text \<open>The number of tables: the detected limit, clipped to the identity range and rounded up to whole tables.\<close>

lemma detected_table_count_value:
  fixes bi
  defines "limit \<equiv> (case x86_memory_map_usable_limit bi of None \<Rightarrow> 0 | Some l \<Rightarrow> unat l)"
  shows "unat (detected_table_count bi) = (min 0x10000000 (max 0x800000 limit) + 0x3fffff) div 0x400000"
proof -
  define mapped :: u64 where "mapped = (case x86_memory_map_usable_limit bi of
      None \<Rightarrow> 0x800000 | Some detected \<Rightarrow> if detected > 0x800000 then detected else 0x800000)"
  define clipped where "clipped = (if mapped > 0x10000000 then 0x10000000 else mapped)"
  have v: "unat clipped = min 0x10000000 (max 0x800000 limit)"
    by (auto simp: clipped_def mapped_def limit_def word_le_nat_alt word_less_nat_alt split: option.splits)
  then have c: "0x800000 \<le> unat clipped" "unat clipped \<le> 0x10000000" by auto
  define rounded where "rounded = (clipped + 0x400000 - 1) AND NOT 0x3fffff"
  have r: "unat rounded = (unat clipped + 0x3fffff) div 0x400000 * 0x400000"
  proof -
    have "unat (clipped + 0x400000 - 1) = unat clipped + 0x3fffff"
      using c by (simp add: unat_word_ariths unat_sub_if')
    then show ?thesis using unat_span_base [of "clipped + 0x400000 - 1"] by (simp add: rounded_def)
  qed
  have d: "2 \<le> (unat clipped + 0x3fffff) div 0x400000" "(unat clipped + 0x3fffff) div 0x400000 < 65"
    using c by (simp_all add: div_less_iff_less_mult less_eq_div_iff_mult_less_eq)
  then have b: "0x800000 \<le> unat rounded" "unat rounded \<le> 0x10000000" unfolding r by linarith+
  then have "detected_table_count bi = ucast (rounded div 0x400000)"
    by (cases "mapped > 0x10000000")
      (simp_all add: detected_table_count_def Let_def mapped_def [symmetric] clipped_def
        rounded_def word_less_nat_alt)
  moreover have "unat (ucast (rounded div 0x400000) :: u32) = unat rounded div 0x400000"
    using b by (simp add: unsigned_ucast_eq unat_div_distrib take_bit_nat_eq_self_iff)
  ultimately show ?thesis using r v by simp
qed

lemma detected_table_count_bounds:
  "2 \<le> unat (detected_table_count bi) \<and> unat (detected_table_count bi) \<le> 64"
proof -
  have "(min 0x10000000 (max 0x800000 l) + 0x3fffff) div 0x400000 < 65" "2 \<le> (min 0x10000000 (max 0x800000 l) + 0x3fffff) div 0x400000"
    for l :: nat by (simp_all add: div_less_iff_less_mult less_eq_div_iff_mult_less_eq)
  then show ?thesis unfolding detected_table_count_value by fastforce
qed

section \<open>Loops over entries, pointwise\<close>

definition map_entries :: "(u32 \<Rightarrow> u32) \<Rightarrow> nat set \<Rightarrow> x86_paging_state \<Rightarrow> x86_paging_state" where
  "map_entries f S p = p\<lparr>identity_page_tables := (identity_page_tables p)
     (0 := (\<lambda>e. if e \<in> S then f (identity_page_tables p 0 e) else identity_page_tables p 0 e))\<rparr>"

lemma map_entries_simps [simp]:
  "page_directory (map_entries f S p) = page_directory p"
  "paging_enabled (map_entries f S p) = paging_enabled p"
  "paging_identity_limit (map_entries f S p) = paging_identity_limit p"
  "cr0 (map_entries f S p) = cr0 p" "cr3 (map_entries f S p) = cr3 p"
  "page_directory_address (map_entries f S p) = page_directory_address p"
  "page_tables_address (map_entries f S p) = page_tables_address p"
  "host_tlb_flush_count (map_entries f S p) = host_tlb_flush_count p"
  "identity_page_tables (map_entries f S p) 0 e =
     (if e \<in> S then f (identity_page_tables p 0 e) else identity_page_tables p 0 e)"
  "0 < t \<Longrightarrow> identity_page_tables (map_entries f S p) t = identity_page_tables p t"
  by (simp_all add: map_entries_def)

lemma map_entries_id: "(\<And>e. e \<in> S \<Longrightarrow> f (identity_page_tables p 0 e) = identity_page_tables p 0 e)
    \<Longrightarrow> map_entries f S p = p"
  by (auto simp: map_entries_def fun_eq_iff intro!: x86_paging_state.equality)

lemma map_entries_empty [simp]: "map_entries f {} p = p"
  by (rule map_entries_id) simp

lemma map_entries_map_entries: "map_entries g S (map_entries f S p) = map_entries (g \<circ> f) S p"
  by (auto simp: map_entries_def fun_eq_iff intro!: x86_paging_state.equality)

lemma map_entries_insert:
  assumes "e \<notin> S"
  shows "set_entry (map_entries f S p) (0, e) (f (identity_page_tables p 0 e)) = map_entries f (insert e S) p"
  using assms by (auto simp: map_entries_def set_entry_def fun_eq_iff intro!: x86_paging_state.equality)

lemma fold_add_flags:
  "distinct es \<Longrightarrow> fold (add_flags flags) es p = map_entries (\<lambda>x. x OR flags) (set es) p"
proof (induction es rule: rev_induct)
  case (snoc e es)
  then have "fold (add_flags flags) (es @ [e]) p =
      set_entry (map_entries (\<lambda>x. x OR flags) (set es) p) (0, e) (identity_page_tables p 0 e OR flags)"
    by (simp add: add_flags_def [of flags e])
  with snoc show ?case using map_entries_insert [of e "set es" "\<lambda>x. x OR flags" p] by simp
qed simp

definition clear_user :: "u32 \<Rightarrow> u32" where
  "clear_user x = (x AND NOT X86_PAGE_USER)"

lemma bit_clear_user [simp]: "bit (clear_user x) n \<longleftrightarrow> bit x n \<and> n \<noteq> 2"
  using bit_imp_le_length [of x n] by (auto simp: clear_user_def bit_and_iff)

lemma page_base_clear_user [simp]: "clear_user x AND 0xfffff000 = x AND 0xfffff000"
  by (rule bit_word_eqI) auto

lemma clear_user_id: "\<not> bit x 2 \<Longrightarrow> clear_user x = x"
  by (rule bit_word_eqI) auto

lemma strip_user_step_alt:
  "strip_user_step ok page (p, changed, valid) =
     (let entry = identity_page_tables p 0 page; valid = (valid \<and> ok page entry)
      in if bit entry 2 then (set_entry p (0, page) (clear_user entry), True, valid) else (p, changed, valid))"
  by (simp add: strip_user_step_def clear_user_def Let_def flag_simps)

lemma fold_strip_user:
  "distinct es \<Longrightarrow> fold (strip_user_step ok) es (p, False, True) =
     (map_entries clear_user (set es) p, (\<exists>e \<in> set es. bit (identity_page_tables p 0 e) 2),
      (\<forall>e \<in> set es. ok e (identity_page_tables p 0 e)))"
proof (induction es rule: rev_induct)
  case (snoc e es)
  let ?q = "map_entries clear_user (set es) p"
  have e: "identity_page_tables ?q 0 e = identity_page_tables p 0 e" using snoc.prems by simp
  have q: "bit (identity_page_tables p 0 e) 2 \<or>
      ?q = map_entries clear_user (insert e (set es)) p"
    using snoc.prems clear_user_id by (auto simp: map_entries_def fun_eq_iff intro!: x86_paging_state.equality)
  have i: "set_entry ?q (0, e) (clear_user (identity_page_tables p 0 e)) =
      map_entries clear_user (insert e (set es)) p"
    using snoc.prems map_entries_insert [of e "set es" clear_user] by simp
  show ?case
  proof (cases "bit (identity_page_tables p 0 e) 2")
    case True
    with snoc e i show ?thesis by (auto simp: strip_user_step_alt Let_def)
  next
    case False
    with snoc e q show ?thesis by (auto simp: strip_user_step_alt Let_def clear_user_id)
  qed
qed simp

section \<open>The invariant\<close>

lemma paging_inv_active:
  assumes "paging_inv p"
  shows "active_page_directory p = page_directory_address p" and "active_boot_page_directory p"
proof -
  have d: "cr3 p AND 0xfffff000 = cr3 p" and c: "cr3 p = page_directory_address p"
    using assms aligned_page_base by (auto simp: paging_inv_def)
  have "active_page_directory p = cr3 p AND 0xfffff000"
    unfolding active_page_directory_def by (rule bit_word_eqI) (simp add: bit_and_iff)
  with d c show a: "active_page_directory p = page_directory_address p" by simp
  obtain tables where "2 \<le> tables" "tables \<le> 64" "paging_identity_limit p = of_nat tables * 0x400000"
    using assms by (auto simp: paging_inv_def)
  then have "unat (paging_identity_limit p) = tables * 0x400000"
    by (simp add: unat_word_ariths unat_of_nat)
  with \<open>2 \<le> tables\<close> have "X86_DOS_VIDEO_LIMIT \<le> paging_identity_limit p" by (simp add: word_le_nat_alt)
  with a assms show "active_boot_page_directory p"
    by (simp add: active_boot_page_directory_def paging_inv_def)
qed

lemma paging_inv_flush [simp]: "paging_inv p \<Longrightarrow> paging_inv (flush_translation_lookaside_buffer p)"
  using paging_inv_active(1) [of p]
  by (auto simp: paging_inv_def flush_translation_lookaside_buffer_def boot_directory_entry_def)

lemma paging_inv_map_entries:
  assumes "paging_inv p"
    and "\<And>e. e \<in> S \<Longrightarrow> e < 1024 \<Longrightarrow> entry_ok (paging_identity_limit p) e (identity_page_tables p 0 e)
      \<Longrightarrow> entry_ok (paging_identity_limit p) e (f (identity_page_tables p 0 e))"
  shows "paging_inv (map_entries f S p)"
  using assms by (auto simp: paging_inv_def boot_directory_entry_def)

lemma set_entry_map: "set_entry p (0, e) v = map_entries (\<lambda>_. v) {e} p"
  by (auto simp: map_entries_def set_entry_def fun_eq_iff intro!: x86_paging_state.equality)

lemma entry_ok_clear_user: "entry_ok limit e x \<Longrightarrow> entry_ok limit e (clear_user x)"
  by (auto simp: entry_ok_def)


lemma legacy_video_rangeD:
  assumes "legacy_video_range address count = Some limit"
  shows "set (video_pages address limit) \<subseteq> {0xa0..<0xc0}" and "distinct (video_pages address limit)"
    and "unat limit = unat address + count" and "0 < count" and "unat address mod 4096 = 0"
    and "count mod 4096 = 0"
proof -
  have a: "0xa0000 \<le> unat address" "unat address < 0xc0000" "count \<le> unat (0xc0000 - address)"
    and l: "limit = address + of_nat count"
    using assms by (auto simp: legacy_video_range_def Let_def word_le_nat_alt word_less_nat_alt split: if_splits)
  then have c: "unat address + count \<le> 0xc0000" by (simp add: unat_sub_if')
  with l show lim: "unat limit = unat address + count"
    by (simp add: unat_word_ariths unat_of_nat)
  show "0 < count" "count mod 4096 = 0"
    using assms by (auto simp: legacy_video_range_def split: if_splits)
  show "unat address mod 4096 = 0"
    using assms unat_page_offset [of address] by (auto simp: legacy_video_range_def split: if_splits)
  show "distinct (video_pages address limit)" by (simp add: video_pages_def)
  have "0xa0 \<le> unat address div 4096" "(unat address + count) div 4096 < 0xc1"
    using a c by (simp_all add: less_eq_div_iff_mult_less_eq div_less_iff_less_mult)
  then show "set (video_pages address limit) \<subseteq> {0xa0..<0xc0}"
    by (auto simp: video_pages_def unat_page_number lim)
qed

lemma protected_user_rangeD:
  assumes "protected_user_range p address count = Some (f, l)"
  shows "0x200 \<le> f" and "f = unat address div 4096" and "f < l" and "l \<le> 0x400"
    and "l = (unat address + count + 4095) div 4096"
proof -
  have a: "0x200000 \<le> unat address" "unat address < 0x400000" "count \<le> unat (0x400000 - address)" "0 < count"
    and f: "f = unat (drop_bit 12 address)"
    and l: "l = unat (drop_bit 12 ((address + of_nat count + 0x1000 - 1) AND NOT 0xfff))"
    using assms
    by (auto simp: protected_user_range_def Let_def word_le_nat_alt word_less_nat_alt simp del: push_bit_eq_mult
        split: if_splits)
  then have c: "unat address + count \<le> 0x400000" by (simp add: unat_sub_if')
  then have s: "unat (address + of_nat count + 0x1000 - 1) = unat address + count + 4095"
    using a(4) by (simp add: unat_word_ariths unat_of_nat unat_sub_if')
  have m: "(w :: u32) AND NOT 0xfff = w AND 0xfffff000" for w
    by (rule bit_word_eqI) (simp add: bit_and_iff)
  show fd: "f = unat address div 4096" by (simp add: f unat_page_number)
  show ld: "l = (unat address + count + 4095) div 4096"
    unfolding l unat_page_number m unat_page_base s by simp
  show "0x200 \<le> f" using a(1) by (simp add: fd less_eq_div_iff_mult_less_eq)
  have "(unat address + count + 4095) div 4096 < 0x401" using c by (simp add: div_less_iff_less_mult)
  then show "l \<le> 0x400" by (simp add: ld)
  have "unat address div 4096 + 1 \<le> (unat address + count + 4095) div 4096"
    using a(4) div_le_mono [of "unat address + 4096" "unat address + count + 4095"] by simp
  then show "f < l" by (simp add: fd ld)
qed

lemma low_boot_page_entry:
  assumes "paging_inv p" "linear < 0x400000"
  shows "boot_page_entry p linear = Some (0, unat linear div 4096)" and "unat linear div 4096 < 1024"
proof -
  have lin: "unat linear < 0x400000" using assms(2) by (simp add: word_less_nat_alt)
  then show e: "unat linear div 4096 < 1024" by (simp add: div_less_iff_less_mult)
  obtain tables where t: "2 \<le> tables" "tables \<le> 64" "paging_identity_limit p = of_nat tables * 0x400000"
    "\<forall>t < 1024. page_directory p t = (if t < tables then boot_directory_entry p t else 0)"
    "page_tables_address p AND 0xfff = 0"
    using assms(1) by (auto simp: paging_inv_def)
  have "unat (paging_identity_limit p) = tables * 0x400000" using t by (simp add: unat_word_ariths unat_of_nat)
  then have "linear < paging_identity_limit p" using lin t(1) by (simp add: word_less_nat_alt)
  moreover have "linear div 0x400000 = 0" using assms(2) by (simp add: word_unat_eq_iff unat_div_distrib lin)
  moreover have "unat (drop_bit 12 linear AND 0x3ff) = unat linear div 4096"
  proof -
    have m: "(0x3ff :: u32) = mask 10" by (simp add: mask_eq_exp_minus_1)
    have "drop_bit 12 linear AND 0x3ff = take_bit 10 (drop_bit 12 linear)"
      unfolding m by (simp add: take_bit_eq_mask)
    with e show ?thesis by (simp add: take_bit_eq_mod unat_mod_distrib unat_page_number)
  qed
  moreover have "bit (page_directory p 0) 0" using t boot_directory_bits by simp
  ultimately show "boot_page_entry p linear = Some (0, unat linear div 4096)"
    using paging_inv_active(2) [OF assms(1)] by (simp add: boot_page_entry_def Let_def flag_simps)
qed

section \<open>Every operation keeps the invariant\<close>

lemma paging_inv_initialize:
  assumes "page_directory_address p AND 0xfff = 0" "page_tables_address p AND 0xfff = 0"
  shows "paging_inv (x86_paging_initialize p bi)"
proof -
  let ?n = "unat (detected_table_count bi)"
  have ok: "entry_ok limit e (boot_table_entry bi 0 e)" if "e < 1024" for limit e
  proof (cases "x86_boot_page_is_present bi (page_address e)")
    case True
    let ?f = "access_flags (x86_boot_page_access (page_address e))"
    have x: "boot_table_entry bi 0 e = page_address e OR X86_PAGE_PRESENT OR ?f"
      using True by (simp add: boot_table_entry_def page_address_def Let_def)
    have f: "bit ?f n \<Longrightarrow> n < 3" for n
      by (cases "x86_boot_page_access (page_address e)") (auto simp: bit_or_iff)
    have base: "boot_table_entry bi 0 e AND 0xfffff000 = page_address e"
      unfolding x by (rule bit_word_eqI) (use that in \<open>auto simp: bit_or_iff bit_page_address dest: f\<close>)
    have low: "bit (boot_table_entry bi 0 e) n \<longleftrightarrow> n = 0 \<or> bit ?f n" if "n < 12" for n
      unfolding x using that \<open>e < 1024\<close> by (auto simp: bit_or_iff bit_page_address)
    show ?thesis using that base
      by (auto simp: entry_ok_def low x86_boot_page_access_def word_less_nat_alt unat_page_address bit_or_iff)
  qed (simp add: boot_table_entry_def page_address_def entry_ok_def Let_def)
  have n: "2 \<le> ?n" "?n \<le> 64" using detected_table_count_bounds [of bi] by auto
  show ?thesis
    unfolding paging_inv_def
    using assms n ok
    by (auto simp: x86_paging_initialize_def Let_def boot_directory_entry_def intro!: exI [of _ ?n])
qed


lemma snapshot_validD:
  assumes "guest_shadow_snapshot_is_valid p (Some s)"
  shows "snap_linear_page s < 0x400000"
    and "0xc0 \<le> unat (snap_linear_page s) div 4096" and "unat (snap_linear_page s) div 4096 < 0x100"
    and "page_address (unat (snap_linear_page s) div 4096) = snap_linear_page s"
    and "original_entry s AND 0xfffff000 = snap_linear_page s"
    and "bit (original_entry s) 0" "\<not> bit (original_entry s) 1" "bit (original_entry s) 2"
proof -
  have a: "0xc0000 \<le> unat (snap_linear_page s)" "unat (snap_linear_page s) < 0x100000"
    "snap_linear_page s AND 0xfff = 0" and o: "original_entry s AND 0xfffff000 = snap_linear_page s"
    "original_entry s AND 7 = 5"
    using assms by (auto simp: guest_shadow_snapshot_is_valid_def word_le_nat_alt word_less_nat_alt)
  show "snap_linear_page s < 0x400000" using a by (simp add: word_less_nat_alt)
  show "0xc0 \<le> unat (snap_linear_page s) div 4096" "unat (snap_linear_page s) div 4096 < 0x100"
    using a by (simp_all add: less_eq_div_iff_mult_less_eq div_less_iff_less_mult)
  show "page_address (unat (snap_linear_page s) div 4096) = snap_linear_page s"
    using aligned_page_base [OF a(3)] by (simp add: page_base_is_address)
  show "original_entry s AND 0xfffff000 = snap_linear_page s" by (rule o)
  show "bit (original_entry s) 0" "\<not> bit (original_entry s) 1" "bit (original_entry s) 2"
    using o(2) by (simp_all add: flag_simps)
qed

lemma shadow_entry_bits:
  assumes "page AND 0xfff = 0"
  shows "guest_shadow_entry s page AND 0xfffff000 = page"
    and "n < 12 \<Longrightarrow> bit (guest_shadow_entry s page) n \<longleftrightarrow> bit (original_entry s) n \<or> n = 1"
proof -
  show "guest_shadow_entry s page AND 0xfffff000 = page"
    by (rule bit_word_eqI) (use aligned_bits [OF assms] in
      \<open>auto simp: guest_shadow_entry_def bit_or_iff bit_and_iff not_less [symmetric]\<close>)
  show "n < 12 \<Longrightarrow> bit (guest_shadow_entry s page) n \<longleftrightarrow> bit (original_entry s) n \<or> n = 1"
    using aligned_bits [OF assms, of n] by (auto simp: guest_shadow_entry_def bit_or_iff bit_and_iff)
qed

lemma entry_ok_original:
  assumes "guest_shadow_snapshot_is_valid p (Some s)"
  shows "entry_ok limit (unat (snap_linear_page s) div 4096) (original_entry s)"
  using snapshot_validD [OF assms] by (auto simp: entry_ok_def)

lemma entry_ok_shadow:
  assumes "guest_shadow_snapshot_is_valid p (Some s)" "private_shadow_target_is_safe p page"
  shows "entry_ok (paging_identity_limit p) (unat (snap_linear_page s) div 4096) (guest_shadow_entry s page)"
proof -
  have "page AND 0xfff = 0" "0x800000 \<le> page" "page < paging_identity_limit p"
    using assms(2) by (auto simp: private_shadow_target_is_safe_def not_le split: if_splits)
  then show ?thesis using snapshot_validD [OF assms(1)] shadow_entry_bits(1) by (simp add: entry_ok_def)
qed

lemma paging_inv_set_entry:
  assumes "paging_inv p" "entry_ok (paging_identity_limit p) e v"
  shows "paging_inv (set_entry p (0, e) v)"
  unfolding set_entry_map by (rule paging_inv_map_entries [OF assms(1)]) (use assms(2) in simp)

lemma paging_inv_publish:
  assumes "paging_inv p"
  shows "paging_inv (snd (x86_paging_guest_shadow_publish p snapshot page))"
proof (cases snapshot)
  case (Some s)
  show ?thesis
  proof (cases "guest_shadow_snapshot_is_valid p snapshot \<and> private_shadow_target_is_safe p page")
    case True
    with Some low_boot_page_entry [OF assms, of "snap_linear_page s"] snapshot_validD(1) [of p s] show ?thesis
      by (auto simp: x86_paging_guest_shadow_publish_def assms
          intro!: paging_inv_flush paging_inv_set_entry entry_ok_shadow)
  qed (auto simp: x86_paging_guest_shadow_publish_def assms Some)
qed (simp add: x86_paging_guest_shadow_publish_def assms)

lemma paging_inv_restore:
  assumes "paging_inv p"
  shows "paging_inv (snd (x86_paging_guest_shadow_restore p snapshot page))"
proof (cases snapshot)
  case (Some s)
  show ?thesis
  proof (cases "guest_shadow_snapshot_is_valid p snapshot")
    case True
    with Some low_boot_page_entry [OF assms, of "snap_linear_page s"] snapshot_validD(1) [of p s] show ?thesis
      by (auto simp: x86_paging_guest_shadow_restore_def Let_def assms
          intro!: paging_inv_flush paging_inv_set_entry entry_ok_original)
  qed (auto simp: x86_paging_guest_shadow_restore_def assms Some)
qed (simp add: x86_paging_guest_shadow_restore_def assms)

lemma paging_inv_strip: "paging_inv p \<Longrightarrow> paging_inv (map_entries clear_user S p)"
  by (rule paging_inv_map_entries) (auto intro: entry_ok_clear_user)

lemma force_supervisor_eq:
  "force_legacy_video_supervisor p address count =
     (case legacy_video_range address count of
        None \<Rightarrow> (False, p)
      | Some limit \<Rightarrow>
          (let S = set (video_pages address limit); p' = map_entries clear_user S p
           in (active_boot_page_directory p \<and>
               (\<forall>e \<in> S. identity_page_tables p 0 e AND 0xfffff000 = page_address e \<and>
                  identity_page_tables p 0 e AND 3 = 3),
               if (\<exists>e \<in> S. bit (identity_page_tables p 0 e) 2) \<and> active_boot_page_directory p
               then flush_translation_lookaside_buffer p' else p')))"
  by (auto simp: force_legacy_video_supervisor_def fold_strip_user legacy_video_rangeD(2) Let_def
      page_address_def split: option.splits)

lemma paging_inv_force:
  "paging_inv p \<Longrightarrow> paging_inv (snd (force_legacy_video_supervisor p address count))"
  by (auto simp: force_supervisor_eq Let_def paging_inv_strip split: option.splits)

lemma paging_inv_grant_video:
  assumes "paging_inv p"
  shows "paging_inv (snd (x86_paging_grant_legacy_video_range p address count))"
proof (cases "legacy_video_identity_mappings_are_valid p address count False True")
  case True
  then obtain limit where l: "legacy_video_range address count = Some limit"
    and v: "\<forall>e \<in> set (video_pages address limit). identity_page_tables p 0 e AND 0xfffff000 = page_address e"
    by (auto simp: legacy_video_identity_mappings_are_valid_def list_all_iff page_address_def Let_def split: option.splits)
  have "entry_ok lim e (identity_page_tables p 0 e OR 4)" if "e \<in> set (video_pages address limit)" for lim e
    using that v legacy_video_rangeD(1) [OF l] by (auto simp: entry_ok_def)
  then have "paging_inv (fold (add_flags 4) (video_pages address limit) p)"
    using legacy_video_rangeD(2) [OF l] by (auto simp: fold_add_flags intro: paging_inv_map_entries [OF assms])
  with True l show ?thesis
    by (simp add: x86_paging_grant_legacy_video_range_def assms paging_inv_force)
qed (simp add: x86_paging_grant_legacy_video_range_def assms paging_inv_force)

lemma paging_inv_grant_user:
  assumes "paging_inv p"
  shows "paging_inv (snd (x86_paging_grant_user_range p address count))"
proof (cases "protected_user_range p address count")
  case (Some fl)
  obtain f l where fl: "fl = (f, l)" by fastforce
  note range = protected_user_rangeD [OF Some [unfolded fl]]
  have "entry_ok lim e (x OR 6)" if "e \<in> {f..<l}" "entry_ok lim e x" "bit x 0" for lim e x
    using that range(1,4) by (auto simp: entry_ok_def)
  then show ?thesis using range
    by (auto simp: x86_paging_grant_user_range_def Some fl assms list_all_iff fold_add_flags flag_simps
        intro!: paging_inv_flush paging_inv_map_entries)
qed (simp add: x86_paging_grant_user_range_def assms)

lemma paging_inv_revoke_user:
  assumes "paging_inv p"
  shows "paging_inv (snd (x86_paging_revoke_user_range p address count))"
  using assms by (auto simp: x86_paging_revoke_user_range_def fold_strip_user paging_inv_strip
      split: option.splits)

section \<open>Reachable states\<close>

text \<open>Any sequence of paging operations with any arguments, whatever they return.\<close>

inductive paging_step :: "x86_paging_state \<Rightarrow> x86_paging_state \<Rightarrow> bool" where
  grant_video: "paging_step p (snd (x86_paging_grant_legacy_video_range p address count))"
| revoke_video: "paging_step p (snd (x86_paging_revoke_legacy_video_range p address count))"
| grant_user: "paging_step p (snd (x86_paging_grant_user_range p address count))"
| revoke_user: "paging_step p (snd (x86_paging_revoke_user_range p address count))"
| publish: "paging_step p (snd (x86_paging_guest_shadow_publish p snapshot page))"
| restore: "paging_step p (snd (x86_paging_guest_shadow_restore p snapshot page))"

inductive paging_reachable :: "x86_boot_info option \<Rightarrow> x86_paging_state \<Rightarrow> bool" for bi where
  boot: "page_directory_address p AND 0xfff = 0 \<Longrightarrow> page_tables_address p AND 0xfff = 0 \<Longrightarrow>
    paging_reachable bi (x86_paging_initialize p bi)"
| step: "paging_reachable bi p \<Longrightarrow> paging_step p q \<Longrightarrow> paging_reachable bi q"

inductive_cases paging_stepE: "paging_step p q"

lemma paging_step_inv: "paging_step p q \<Longrightarrow> paging_inv p \<Longrightarrow> paging_inv q"
  by (auto elim!: paging_stepE simp: x86_paging_revoke_legacy_video_range_def paging_inv_grant_video
      paging_inv_force paging_inv_grant_user paging_inv_revoke_user paging_inv_publish paging_inv_restore)

lemma paging_reachable_inv: "paging_reachable bi p \<Longrightarrow> paging_inv p"
  by (induction rule: paging_reachable.induct) (auto intro: paging_inv_initialize paging_step_inv)


section \<open>What a guest can reach\<close>

lemma unat_frame_offset:
  "unat (((w :: u32) AND 0xfffff000) OR (l AND 0xfff)) = unat w div 4096 * 4096 + unat l mod 4096"
proof -
  have "(w AND 0xfffff000) OR (l AND 0xfff) = (w AND 0xfffff000) + (l AND 0xfff)"
    by (rule disjunctive_add [symmetric]) (auto simp: bit_and_iff)
  moreover have "unat w div 4096 * 4096 + unat l mod 4096 < 4294967296"
  proof -
    have "unat w div 4096 < 1048576" using unat_u32_less [of w] by (simp add: div_less_iff_less_mult)
    moreover have "unat l mod 4096 < 4096" by simp
    ultimately show ?thesis by linarith
  qed
  ultimately show ?thesis by (simp add: unat_word_ariths unat_page_base unat_page_offset)
qed

lemma frame_offset_self: "((w :: u32) AND 0xfffff000) OR (w AND 0xfff) = w"
  by (rule bit_word_eqI) (auto simp: bit_or_iff bit_and_iff)

lemma cpu_translate_low:
  assumes "paging_inv p"
  shows "cpu_translate p linear writing =
    (let pte = identity_page_tables p 0 (unat linear div 4096)
     in if linear < 0x400000 \<and> bit pte 0 \<and> bit pte 2 \<and> (writing \<longrightarrow> bit pte 1)
        then Some ((pte AND 0xfffff000) OR (linear AND 0xfff)) else None)"
proof -
  have d: "page_directory p t = (if t < tables then boot_directory_entry p t else 0)"
    if "\<forall>t < 1024. page_directory p t = (if t < tables then boot_directory_entry p t else 0)" "t < 1024" for t tables
    using that by simp
  have t: "unat linear div 0x400000 < 1024" using unat_u32_less [of linear] by (simp add: div_less_iff_less_mult)
  obtain tables where tables: "2 \<le> tables"
    "\<forall>t < 1024. page_directory p t = (if t < tables then boot_directory_entry p t else 0)"
    "page_tables_address p AND 0xfff = 0"
    using assms by (auto simp: paging_inv_def)
  show ?thesis
  proof (cases "linear < 0x400000")
    case True
    then have l: "unat linear < 0x400000" by (simp add: word_less_nat_alt)
    then have "unat linear div 4096 < 1024" by (simp add: div_less_iff_less_mult)
    with True l tables boot_directory_bits [OF tables(3), of 0] show ?thesis
      by (simp add: cpu_translate_def Let_def)
  next
    case False
    then have "0 < unat linear div 0x400000" by (simp add: word_less_nat_alt div_greater_zero_iff)
    with t tables boot_directory_bits(3) [OF tables(3), of "unat linear div 0x400000"] False show ?thesis
      by (simp add: cpu_translate_def Let_def)
  qed
qed

lemma cpu_translate_confined:
  assumes inv: "paging_inv p" and tr: "cpu_translate p linear writing = Some physical"
  shows "(physical = linear \<and> (linear < 0x110000 \<or> 0x200000 \<le> linear \<and> linear < 0x400000) \<and>
           (0xc0000 \<le> linear \<and> linear < 0x100000 \<longrightarrow> \<not> writing)) \<or>
         (0xc0000 \<le> linear \<and> linear < 0x100000 \<and> X86_BOOT_IDENTITY_FLOOR \<le> physical \<and>
           physical < paging_identity_limit p)"
proof -
  let ?e = "unat linear div 4096"
  define x where "x = identity_page_tables p 0 ?e"
  have l: "linear < 0x400000" "bit x 0" "bit x 2" "writing \<longrightarrow> bit x 1"
    and ph: "physical = (x AND 0xfffff000) OR (linear AND 0xfff)"
    using tr by (auto simp: cpu_translate_low [OF inv] Let_def x_def split: if_splits)
  have e: "?e < 1024" using l(1) by (simp add: word_less_nat_alt div_less_iff_less_mult)
  have ok: "entry_ok (paging_identity_limit p) ?e x" using inv e by (simp add: paging_inv_def x_def)
  have rom: "0xc0 \<le> ?e \<longleftrightarrow> 0xc0000 \<le> linear" "?e < 0x100 \<longleftrightarrow> linear < 0x100000"
    and win: "?e < 0x110 \<longleftrightarrow> linear < 0x110000" "0x200 \<le> ?e \<longleftrightarrow> 0x200000 \<le> linear"
    by (simp_all add: word_less_nat_alt word_le_nat_alt less_eq_div_iff_mult_less_eq div_less_iff_less_mult)
  from ok l(2) consider
      (same) "x AND 0xfffff000 = page_address ?e" "?e < 0x110 \<or> 0x200 \<le> ?e" "0xc0 \<le> ?e \<and> ?e < 0x100 \<longrightarrow> \<not> bit x 1"
    | (moved) "0xc0 \<le> ?e" "?e < 0x100" "0x800000 \<le> x AND 0xfffff000" "x AND 0xfffff000 < paging_identity_limit p"
    using l(3) unfolding entry_ok_def by blast
  then show ?thesis
  proof cases
    case same
    then have "physical = linear" using ph frame_offset_self [of linear] by (simp add: page_base_is_address)
    with same l rom win show ?thesis by auto
  next
    case moved
    obtain tables where "tables \<le> 64" "paging_identity_limit p = of_nat tables * 0x400000"
      using inv by (auto simp: paging_inv_def)
    then have lim: "unat (paging_identity_limit p) = tables * 1024 * 4096" by (simp add: unat_word_ariths unat_of_nat)
    have phys: "unat physical = unat x div 4096 * 4096 + unat linear mod 4096"
      unfolding ph by (rule unat_frame_offset)
    have "unat x div 4096 * 4096 < tables * 1024 * 4096" "0x800000 \<le> unat x div 4096 * 4096"
      using moved lim by (simp_all add: word_less_nat_alt word_le_nat_alt unat_page_base)
    then have "unat x div 4096 + 1 \<le> tables * 1024" by simp
    then have "(unat x div 4096 + 1) * 4096 \<le> tables * 1024 * 4096" by (rule mult_le_mono1)
    then have "unat x div 4096 * 4096 + 4096 \<le> tables * 1024 * 4096" by simp
    moreover have "unat linear mod 4096 < 4096" by simp
    ultimately have "unat physical < tables * 1024 * 4096" using phys by linarith
    with moved rom phys lim \<open>0x800000 \<le> unat x div 4096 * 4096\<close> show ?thesis
      by (simp add: word_less_nat_alt word_le_nat_alt)
  qed
qed

end
