(* ===== verification/PagingSafety.thy ===== *)
theory PagingSafety
  imports PagingProof
begin

text \<open>
  The properties of the boot page tables: what privilege-level-3 code can reach in any state the
  paging operations can produce, that video grants are undone exactly and fail closed, that firmware
  aliases are published and withdrawn exactly, that the software checks agree with the page walk,
  and that no change of a live table goes without a TLB flush.
\<close>

section \<open>Software translation and the page walk\<close>

lemma frame_self_iff:
  "(((x :: u32) AND 0xfffff000) OR (l AND 0xfff)) = l \<longleftrightarrow> x AND 0xfffff000 = l AND 0xfffff000"
proof
  assume "((x AND 0xfffff000) OR (l AND 0xfff)) = l"
  then have "((x AND 0xfffff000) OR (l AND 0xfff)) AND 0xfffff000 = l AND 0xfffff000" by simp
  moreover have "((x AND 0xfffff000) OR (l AND 0xfff)) AND 0xfffff000 = x AND 0xfffff000"
    by (rule bit_word_eqI) (auto simp: bit_or_iff bit_and_iff)
  ultimately show "x AND 0xfffff000 = l AND 0xfffff000" by simp
qed (use frame_offset_self [of l] in simp)

lemma identity_translate_eq:
  assumes inv: "paging_inv p" and b: "x86_paging_binding_is_active p (Some b)"
  shows "x86_paging_guest_identity_translate p (Some b) address writing =
    (if address < X86_REAL_MODE_LINEAR_LIMIT \<and> cpu_translate p address writing = Some address
     then Some \<lparr>physical_address = address, contiguous_bytes = 0x1000 - (address AND 0xfff)\<rparr> else None)"
proof (cases "address < 0x110000")
  case True
  let ?e = "unat address div 4096"
  let ?x = "identity_page_tables p 0 ?e"
  have low: "address < 0x400000" using True by (simp add: word_less_nat_alt)
  have base: "(address AND 0xfffff000) < 0x400000" "unat (address AND 0xfffff000) div 4096 = ?e"
    using low by (auto simp: word_less_nat_alt unat_page_base)
  have entry: "boot_page_entry p (address AND 0xfffff000) = Some (0, ?e)"
    using low_boot_page_entry(1) [OF inv base(1)] base(2) by simp
  have dir: "guest_directory_is_user_accessible p address"
  proof -
    have "address div 0x400000 = 0" using low by (simp add: word_unat_eq_iff unat_div_distrib word_less_nat_alt)
    moreover have "bit (page_directory p 0) 0 \<and> bit (page_directory p 0) 2"
      using inv boot_directory_bits [of p 0] by (auto simp: paging_inv_def)
    ultimately show ?thesis by (simp add: guest_directory_is_user_accessible_def flag_simps)
  qed
  have lim: "guest_linear_limit b = 0x110000" using b by (simp add: x86_paging_binding_is_active_def)
  show ?thesis
    using True low entry dir lim b
    by (auto simp: x86_paging_guest_identity_translate_def cpu_translate_low [OF inv] Let_def entry_at_def flag_simps
        frame_self_iff
        split: if_splits)
next
  case False
  then show ?thesis using b by (auto simp: x86_paging_guest_identity_translate_def x86_paging_binding_is_active_def Let_def)
qed

lemma snapshot_active:
  assumes "paging_inv p"
  shows "\<exists>b. x86_paging_snapshot p = Some b \<and> x86_paging_binding_is_active p (Some b) \<and>
    guest_linear_limit b = X86_REAL_MODE_LINEAR_LIMIT"
  using assms paging_inv_active(1) [OF assms]
  by (simp add: x86_paging_snapshot_def x86_paging_binding_is_active_def Let_def paging_inv_def)

lemma binding_active_iff:
  assumes "paging_inv p"
  shows "x86_paging_binding_is_active p (Some b) \<longleftrightarrow> x86_paging_snapshot p = Some b"
  using assms paging_inv_active(1) [OF assms]
  by (cases b) (auto simp: x86_paging_snapshot_def x86_paging_binding_is_active_def Let_def paging_inv_def)

lemma cpu_translate_self:
  assumes "paging_inv p" "linear < 0x110000"
  shows "cpu_translate p linear writing = Some linear \<longleftrightarrow>
    (let x = identity_page_tables p 0 (unat linear div 4096)
     in x AND 0xfffff000 = page_address (unat linear div 4096) \<and> bit x 0 \<and> bit x 2 \<and> (writing \<longrightarrow> bit x 1))"
proof -
  have low: "linear < 0x400000" using assms(2) by (simp add: word_less_nat_alt)
  then show ?thesis
    by (auto simp: cpu_translate_low [OF assms(1)] Let_def frame_self_iff page_base_is_address [of linear])
qed

lemma page_interval_bytes:
  fixes a n :: nat
  assumes "0 < n"
  shows "(\<forall>e \<in> {a div 4096..<(a + n - 1) div 4096 + 1}. P e) \<longleftrightarrow> (\<forall>i < n. P ((a + i) div 4096))"
proof
  assume P: "\<forall>e \<in> {a div 4096..<(a + n - 1) div 4096 + 1}. P e"
  show "\<forall>i < n. P ((a + i) div 4096)"
  proof (intro allI impI)
    fix i assume "i < n"
    then have "a div 4096 \<le> (a + i) div 4096" "(a + i) div 4096 \<le> (a + n - 1) div 4096"
      by (auto intro: div_le_mono)
    with P show "P ((a + i) div 4096)" by simp
  qed
next
  assume P: "\<forall>i < n. P ((a + i) div 4096)"
  show "\<forall>e \<in> {a div 4096..<(a + n - 1) div 4096 + 1}. P e"
  proof
    fix e assume e: "e \<in> {a div 4096..<(a + n - 1) div 4096 + 1}"
    define i where "i = max a (e * 4096) - a"
    have "e * 4096 \<le> a + n - 1" using e by (simp add: less_Suc_eq_le less_eq_div_iff_mult_less_eq)
    then have "i < n" using assms by (auto simp: i_def)
    moreover have "(a + i) div 4096 = e"
    proof (cases "e * 4096 \<le> a")
      case True
      then have "e \<le> a div 4096" by (simp add: less_eq_div_iff_mult_less_eq)
      with e True show ?thesis by (simp add: i_def)
    qed (simp add: i_def)
    ultimately show "P e" using P by blast
  qed
qed

lemma range_accessible_eq:
  assumes inv: "paging_inv p" and n: "0 < n"
  shows "x86_paging_guest_range_is_accessible p a n writing \<longleftrightarrow>
    unat a + n \<le> 0x110000 \<and> (\<forall>i < n. cpu_translate p (a + of_nat i) writing = Some (a + of_nat i))"
proof (cases "unat a + n \<le> 0x110000")
  case True
  have fits: "\<not> a > 0x110000" "\<not> n > unat (0x110000 - a)"
    using True by (auto simp: word_less_nat_alt unat_sub_if')
  have last: "unat (a + of_nat n) = unat a + n" using True by (simp add: unat_word_ariths unat_of_nat)
  then have "\<not> a + of_nat n \<le> a" and last1: "unat (a + of_nat n - 1) = unat a + n - 1"
    using n by (simp_all add: word_le_nat_alt unat_sub_if')
  have byte: "unat (a + of_nat i) = unat a + i" "a + of_nat i < 0x110000" if "i < n" for i
    using that True by (auto simp: unat_word_ariths unat_of_nat word_less_nat_alt)
  have dir: "bit (page_directory p 0) 0 \<and> bit (page_directory p 0) 2"
    using inv boot_directory_bits [of p 0] by (auto simp: paging_inv_def)
  have "x86_paging_guest_range_is_accessible p a n writing \<longleftrightarrow>
    (\<forall>e \<in> {unat a div 4096..<(unat a + n - 1) div 4096 + 1}. let x = identity_page_tables p 0 e in
       x AND 0xfffff000 = page_address e \<and> bit x 0 \<and> bit x 2 \<and> (writing \<longrightarrow> bit x 1))"
    using fits n \<open>\<not> a + of_nat n \<le> a\<close> dir paging_inv_active(2) [OF inv]
    by (auto simp: x86_paging_guest_range_is_accessible_def Let_def list_all_iff unat_page_number last1 flag_simps
        page_address_def)
  also have "\<dots> \<longleftrightarrow> (\<forall>i < n. let x = identity_page_tables p 0 ((unat a + i) div 4096) in
       x AND 0xfffff000 = page_address ((unat a + i) div 4096) \<and> bit x 0 \<and> bit x 2 \<and> (writing \<longrightarrow> bit x 1))"
    by (rule page_interval_bytes [OF n])
  also have "\<dots> \<longleftrightarrow> (\<forall>i < n. cpu_translate p (a + of_nat i) writing = Some (a + of_nat i))"
    using byte by (simp add: cpu_translate_self [OF inv])
  finally show ?thesis using True by simp
next
  case False
  then have "a > 0x110000 \<or> n > unat (0x110000 - a)" by (auto simp: word_less_nat_alt unat_sub_if')
  with False show ?thesis by (auto simp: x86_paging_guest_range_is_accessible_def)
qed


section \<open>Grants and aliases\<close>

lemma flush_simps [simp]:
  "identity_page_tables (flush_translation_lookaside_buffer p) = identity_page_tables p"
  "page_directory (flush_translation_lookaside_buffer p) = page_directory p"
  "paging_identity_limit (flush_translation_lookaside_buffer p) = paging_identity_limit p"
  "paging_enabled (flush_translation_lookaside_buffer p) = paging_enabled p"
  "page_directory_address (flush_translation_lookaside_buffer p) = page_directory_address p"
  "page_tables_address (flush_translation_lookaside_buffer p) = page_tables_address p"
  "host_tlb_flush_count (flush_translation_lookaside_buffer p) = host_tlb_flush_count p + 1"
  by (simp_all add: flush_translation_lookaside_buffer_def)

lemma flush_inv_eq:
  "paging_inv p \<Longrightarrow> flush_translation_lookaside_buffer p = p\<lparr>host_tlb_flush_count := host_tlb_flush_count p + 1\<rparr>"
  using paging_inv_active(1) [of p]
  by (simp add: flush_translation_lookaside_buffer_def paging_inv_def)

lemma video_bytes:
  assumes "legacy_video_range a n = Some limit" "i < n"
  shows "unat (a + of_nat i) = unat a + i" and "a + of_nat i < 0x110000"
    and "(unat a + i) div 4096 \<in> set (video_pages a limit)"
proof -
  note r = legacy_video_rangeD [OF assms(1)]
  have a: "unat a < 0xc0000" "n \<le> unat (0xc0000 - a)"
    using assms(1) by (auto simp: legacy_video_range_def word_less_nat_alt word_le_nat_alt split: if_splits)
  then have "unat a + n \<le> 0xc0000" by (simp add: unat_sub_if')
  with assms(2) show b: "unat (a + of_nat i) = unat a + i" and "a + of_nat i < 0x110000"
    by (auto simp: unat_word_ariths unat_of_nat word_less_nat_alt)
  have "4096 dvd unat a + n" using r(5,6) by (simp add: dvd_add mod_eq_0_iff_dvd)
  then obtain k where "unat a + n = 4096 * k" by (rule dvdE)
  then have "(unat a + i) div 4096 < (unat a + n) div 4096"
    using assms(2) by (simp add: div_less_iff_less_mult)
  moreover have "unat a div 4096 \<le> (unat a + i) div 4096" by (rule div_le_mono) simp
  ultimately show "(unat a + i) div 4096 \<in> set (video_pages a limit)"
    by (simp add: video_pages_def unat_page_number r(3))
qed

lemma set_user_clear: "\<not> bit x 2 \<Longrightarrow> clear_user (x OR 4) = x"
  by (rule bit_word_eqI) (auto simp: bit_or_iff)

lemma grant_video_success:
  assumes inv: "paging_inv p" and g: "x86_paging_grant_legacy_video_range p a n = (True, q)"
  obtains limit where "legacy_video_range a n = Some limit"
    and "\<And>e. e \<in> set (video_pages a limit) \<Longrightarrow> \<not> bit (identity_page_tables p 0 e) 2 \<and>
      bit (identity_page_tables p 0 e) 0 \<and> bit (identity_page_tables p 0 e) 1 \<and>
      identity_page_tables p 0 e AND 0xfffff000 = page_address e"
    and "q = flush_translation_lookaside_buffer (map_entries (\<lambda>x. x OR 4) (set (video_pages a limit)) p)"
    and "paging_inv (map_entries (\<lambda>x. x OR 4) (set (video_pages a limit)) p)"
proof -
  obtain limit where l: "legacy_video_range a n = Some limit"
    using g by (auto simp: x86_paging_grant_legacy_video_range_def split: if_splits)
  have v: "\<not> bit (identity_page_tables p 0 e) 2 \<and> bit (identity_page_tables p 0 e) 0 \<and>
      bit (identity_page_tables p 0 e) 1 \<and> identity_page_tables p 0 e AND 0xfffff000 = page_address e"
    if "e \<in> set (video_pages a limit)" for e
    using g l that
    by (auto simp: x86_paging_grant_legacy_video_range_def legacy_video_identity_mappings_are_valid_def
        list_all_iff Let_def flag_simps page_address_def split: if_splits)
  have q: "q = flush_translation_lookaside_buffer (map_entries (\<lambda>x. x OR 4) (set (video_pages a limit)) p)"
    using g l legacy_video_rangeD(2) [OF l]
    by (auto simp: x86_paging_grant_legacy_video_range_def fold_add_flags split: if_splits)
  have "paging_inv (map_entries (\<lambda>x. x OR 4) (set (video_pages a limit)) p)"
    using v legacy_video_rangeD(1) [OF l]
    by (intro paging_inv_map_entries [OF inv]) (auto simp: entry_ok_def)
  with l v q that show thesis by blast
qed

lemma stripped_untranslatable:
  assumes inv: "paging_inv p" and l: "legacy_video_range a n = Some limit" and i: "i < n"
    and t: "\<And>e. e \<in> set (video_pages a limit) \<Longrightarrow> \<not> bit (identity_page_tables p 0 e) 2"
  shows "cpu_translate p (a + of_nat i) w = None"
  using video_bytes [OF l i] t by (simp add: cpu_translate_low [OF inv] Let_def)

lemma force_tables:
  assumes "legacy_video_range a n = Some limit" "e \<in> set (video_pages a limit)"
  shows "\<not> bit (identity_page_tables (snd (force_legacy_video_supervisor p a n)) 0 e) 2"
  using assms by (auto simp: force_supervisor_eq Let_def)

lemma strip_id:
  "\<forall>e \<in> S. \<not> bit (identity_page_tables p 0 e) 2 \<Longrightarrow> map_entries clear_user S p = p"
  by (rule map_entries_id) (simp add: clear_user_id)

lemma step_flushes:
  assumes "paging_step p q" "paging_inv p" "identity_page_tables q \<noteq> identity_page_tables p"
  shows "host_tlb_flush_count q = host_tlb_flush_count p + 1"
proof -
  note active = paging_inv_active(2) [OF assms(2)]
  have force: "host_tlb_flush_count (snd (force_legacy_video_supervisor p a n)) = host_tlb_flush_count p + 1"
    if "identity_page_tables (snd (force_legacy_video_supervisor p a n)) \<noteq> identity_page_tables p" for a n
    using that active by (auto simp: force_supervisor_eq Let_def strip_id split: option.splits if_splits)
  from assms(1,3) show ?thesis
  proof cases
    case (grant_video a n)
    with assms(3) force active legacy_video_rangeD(2) show ?thesis
      by (auto simp: x86_paging_grant_legacy_video_range_def fold_add_flags split: if_splits)
  next
    case (revoke_video a n)
    with assms(3) force show ?thesis by (simp add: x86_paging_revoke_legacy_video_range_def)
  next
    case (grant_user a n)
    with assms(3) show ?thesis
      by (auto simp: x86_paging_grant_user_range_def fold_add_flags split: option.splits if_splits)
  next
    case (revoke_user a n)
    with assms(3) show ?thesis
      by (auto simp: x86_paging_revoke_user_range_def fold_strip_user strip_id
          split: option.splits if_splits)
  next
    case (publish snapshot page)
    with assms(3) show ?thesis
      by (auto simp: x86_paging_guest_shadow_publish_def set_entry_def split: option.splits if_splits)
  next
    case (restore snapshot page)
    with assms(3) show ?thesis
      by (auto simp: x86_paging_guest_shadow_restore_def set_entry_def Let_def split: option.splits if_splits)
  qed
qed


section \<open>Firmware aliases\<close>

lemma snapshot_okD:
  assumes inv: "paging_inv p" and s: "x86_paging_guest_shadow_snapshot p (Some b) page = (X86_PAGING_GUEST_SHADOW_OK, Some s)"
  shows "guest_shadow_snapshot_is_valid p (Some s)" and "snap_linear_page s = page"
    and "original_entry s = identity_page_tables p 0 (unat page div 4096)"
    and "guest_directory_is_user_accessible p page"
proof -
  have "page < 0x400000"
    using s by (auto simp: x86_paging_guest_shadow_snapshot_def word_le_nat_alt word_less_nat_alt
        split: if_splits option.splits)
  note e = low_boot_page_entry(1) [OF inv this]
  show "guest_shadow_snapshot_is_valid p (Some s)" "snap_linear_page s = page"
    "original_entry s = identity_page_tables p 0 (unat page div 4096)" "guest_directory_is_user_accessible p page"
    using s e by (auto simp: x86_paging_guest_shadow_snapshot_def guest_shadow_snapshot_is_valid_def entry_at_def
        not_le not_less list_all_iff split: if_splits)
qed

lemma snapshot_valid_cong:
  assumes "paging_enabled p = paging_enabled q" "page_directory_address p = page_directory_address q"
    "active_page_directory p = active_page_directory q"
  shows "guest_shadow_snapshot_is_valid p s = guest_shadow_snapshot_is_valid q s"
  using assms by (cases s) (simp_all add: guest_shadow_snapshot_is_valid_def x86_paging_binding_is_active_def)

lemma published:
  assumes inv: "paging_inv p" and s: "x86_paging_guest_shadow_snapshot p (Some b) page = (X86_PAGING_GUEST_SHADOW_OK, Some s)"
    and safe: "private_shadow_target_is_safe p target"
  shows "x86_paging_guest_shadow_publish p (Some s) target = (X86_PAGING_GUEST_SHADOW_OK,
    flush_translation_lookaside_buffer (set_entry p (0, unat page div 4096) (guest_shadow_entry s target)))"
proof -
  note v = snapshot_okD [OF inv s]
  have "page < 0x400000" using snapshot_validD(1) [OF v(1)] v(2) by simp
  then have e: "boot_page_entry p page = Some (0, unat page div 4096)" by (rule low_boot_page_entry(1) [OF inv])
  have "target AND 0xfff = 0" using safe by (auto simp: private_shadow_target_is_safe_def split: if_splits)
  with v e safe show ?thesis
    by (simp add: x86_paging_guest_shadow_publish_def entry_at_def entries_match_ignoring_cpu_state_def)
qed

lemma restored:
  assumes inv: "paging_inv p" and s: "x86_paging_guest_shadow_snapshot p (Some b) page = (X86_PAGING_GUEST_SHADOW_OK, Some s)"
    and safe: "private_shadow_target_is_safe p target"
    and q: "q = flush_translation_lookaside_buffer (set_entry p (0, unat page div 4096) (guest_shadow_entry s target))"
  shows "x86_paging_guest_shadow_restore q (Some s) target = (X86_PAGING_GUEST_SHADOW_OK,
    p\<lparr>host_tlb_flush_count := host_tlb_flush_count p + 2\<rparr>)"
proof -
  let ?e = "unat page div 4096"
  note v = snapshot_okD [OF inv s]
  note sv = snapshot_validD [OF v(1), unfolded v(2)]
  have t: "target AND 0xfff = 0" "0x800000 \<le> target"
    using safe by (auto simp: private_shadow_target_is_safe_def not_less split: if_splits)
  have qinv: "paging_inv q"
    unfolding q using paging_inv_set_entry [OF inv entry_ok_shadow [OF v(1) safe]] v(2) by simp
  have qv: "guest_shadow_snapshot_is_valid q (Some s)"
    using v(1) paging_inv_active(1) [OF inv] paging_inv_active(1) [OF qinv]
    by (subst snapshot_valid_cong [of q p]) (simp_all add: q set_entry_def)
  have e: "boot_page_entry q page = Some (0, ?e)" by (rule low_boot_page_entry(1) [OF qinv sv(1)])
  have at: "entry_at q (0, ?e) = guest_shadow_entry s target" by (simp add: q entry_at_def set_entry_def)
  have dir: "guest_directory_is_user_accessible q page"
    using v(4) by (simp add: guest_directory_is_user_accessible_def q set_entry_def)
  have differ: "\<not> entries_match_ignoring_cpu_state (guest_shadow_entry s target) (original_entry s)"
  proof
    assume "entries_match_ignoring_cpu_state (guest_shadow_entry s target) (original_entry s)"
    then have "(guest_shadow_entry s target AND NOT 0x60) AND 2 = (original_entry s AND NOT 0x60) AND 2"
      unfolding entries_match_ignoring_cpu_state_def by simp
    then have "bit ((guest_shadow_entry s target AND NOT 0x60) AND 2) 1 = bit ((original_entry s AND NOT 0x60) AND 2) 1"
      by simp
    with sv(7) shadow_entry_bits(2) [OF t(1), of 1 s] show False by (simp add: bit_and_iff)
  qed
  have undo: "set_entry q (0, ?e) (original_entry s) = p\<lparr>host_tlb_flush_count := host_tlb_flush_count p + 1\<rparr>"
  proof -
    have "q = (set_entry p (0, ?e) (guest_shadow_entry s target))\<lparr>host_tlb_flush_count := host_tlb_flush_count p + 1\<rparr>"
      using flush_inv_eq [OF paging_inv_set_entry [OF inv entry_ok_shadow [OF v(1) safe]]] v(2)
      by (simp add: q set_entry_def)
    then have "set_entry q (0, ?e) (original_entry s) =
        (set_entry p (0, ?e) (original_entry s))\<lparr>host_tlb_flush_count := host_tlb_flush_count p + 1\<rparr>"
      by (simp add: set_entry_def)
    then show ?thesis using v(3) by (simp add: set_entry_def)
  qed
  have "paging_inv (set_entry q (0, ?e) (original_entry s))"
    using paging_inv_set_entry [OF qinv entry_ok_original [OF qv]] v(2) by simp
  from flush_inv_eq [OF this] have "flush_translation_lookaside_buffer (set_entry q (0, ?e) (original_entry s)) =
      p\<lparr>host_tlb_flush_count := host_tlb_flush_count p + 2\<rparr>"
    by (simp add: undo)
  with t qv e at dir differ v(2) show ?thesis
    by (simp add: x86_paging_guest_shadow_restore_def Let_def entries_match_ignoring_cpu_state_def)
qed


lemma map_entries_count:
  "map_entries f S (p\<lparr>host_tlb_flush_count := c\<rparr>) = (map_entries f S p)\<lparr>host_tlb_flush_count := c\<rparr>"
  by (simp add: map_entries_def cong: if_cong)

lemma granted_then_revoked:
  assumes "paging_inv p" and "x86_paging_grant_legacy_video_range p a n = (True, q)"
  shows "x86_paging_legacy_video_range_is_user_accessible q a n"
    and "\<forall>i < n. cpu_translate q (a + of_nat i) True = Some (a + of_nat i)"
    and "x86_paging_revoke_legacy_video_range q a n =
      (True, p\<lparr>host_tlb_flush_count := host_tlb_flush_count p + 2\<rparr>)"
proof -
  note inv = assms(1)
  obtain limit where l: "legacy_video_range a n = Some limit"
    and v: "\<And>e. e \<in> set (video_pages a limit) \<Longrightarrow> \<not> bit (identity_page_tables p 0 e) 2 \<and>
      bit (identity_page_tables p 0 e) 0 \<and> bit (identity_page_tables p 0 e) 1 \<and>
      identity_page_tables p 0 e AND 0xfffff000 = page_address e"
    and q: "q = flush_translation_lookaside_buffer (map_entries (\<lambda>x. x OR 4) (set (video_pages a limit)) p)"
    and minv: "paging_inv (map_entries (\<lambda>x. x OR 4) (set (video_pages a limit)) p)"
    using grant_video_success [OF inv assms(2)] by metis
  let ?S = "set (video_pages a limit)"
  have qinv: "paging_inv q" using minv by (simp add: q)
  have qe: "e \<in> ?S \<Longrightarrow> identity_page_tables q 0 e = identity_page_tables p 0 e OR 4" for e by (simp add: q)
  have qb: "bit (identity_page_tables q 0 e) 0 \<and> bit (identity_page_tables q 0 e) 1 \<and> bit (identity_page_tables q 0 e) 2 \<and>
      identity_page_tables q 0 e AND 0xfffff000 = page_address e" if "e \<in> ?S" for e
    using v [OF that] qe [OF that] by (simp add: bit_or_iff)
  show "x86_paging_legacy_video_range_is_user_accessible q a n"
    using l qb paging_inv_active(2) [OF qinv]
    by (auto simp: x86_paging_legacy_video_range_is_user_accessible_def
        legacy_video_identity_mappings_are_valid_def list_all_iff Let_def flag_simps page_address_def)
  show "\<forall>i < n. cpu_translate q (a + of_nat i) True = Some (a + of_nat i)"
    using video_bytes [OF l] qb by (simp add: cpu_translate_self [OF qinv] Let_def)
  have strip: "map_entries clear_user ?S q = p\<lparr>host_tlb_flush_count := host_tlb_flush_count p + 1\<rparr>"
  proof -
    have "map_entries clear_user ?S q =
        (map_entries (clear_user \<circ> (\<lambda>x. x OR 4)) ?S p)\<lparr>host_tlb_flush_count := host_tlb_flush_count p + 1\<rparr>"
      unfolding q flush_inv_eq [OF minv] by (simp add: map_entries_count map_entries_map_entries)
    also have "map_entries (clear_user \<circ> (\<lambda>x. x OR 4)) ?S p = p"
      using v set_user_clear by (intro map_entries_id) simp
    finally show ?thesis .
  qed
  have e: "unat a div 4096 \<in> ?S" using legacy_video_rangeD(4) [OF l] video_bytes(3) [OF l, of 0] by simp
  then have "\<exists>e \<in> ?S. bit (identity_page_tables q 0 e) 2" using qb [OF e] by (intro bexI [OF _ e]) simp
  moreover have "flush_translation_lookaside_buffer (map_entries clear_user ?S q) =
      p\<lparr>host_tlb_flush_count := host_tlb_flush_count p + 2\<rparr>"
    by (subst flush_inv_eq [OF paging_inv_strip [OF qinv]]) (simp add: strip)
  ultimately show "x86_paging_revoke_legacy_video_range q a n =
      (True, p\<lparr>host_tlb_flush_count := host_tlb_flush_count p + 2\<rparr>)"
    using l qb paging_inv_active(2) [OF qinv]
    by (auto simp: x86_paging_revoke_legacy_video_range_def force_supervisor_eq Let_def flag_simps)
qed

lemma aligned_offset:
  assumes "(base :: u32) AND 0xfff = 0" "i < 0x1000"
  shows "unat (base + of_nat i) = unat base + i" and "base OR of_nat i = base + of_nat i"
    and "(base + of_nat i) AND 0xfff = of_nat i"
proof -
  have "unat base mod 4096 = 0" using assms(1) unat_page_offset [of base] by simp
  then obtain k where b: "unat base = 4096 * k" by (metis dvdE mod_eq_0_iff_dvd)
  then have "unat base + 4096 \<le> 0x100000000" using unat_u32_less [of base] by simp
  then show u: "unat (base + of_nat i) = unat base + i" using assms(2) by (simp add: unat_word_ariths unat_of_nat)
  have i: "unat (of_nat i :: u32) = i" using assms(2) by (simp add: unat_of_nat)
  have "of_nat i AND (0xfff :: u32) = of_nat i" using i assms(2) by (simp add: word_unat_eq_iff unat_page_offset)
  then have "base OR of_nat i = (base AND 0xfffff000) OR (of_nat i AND 0xfff)"
    by (simp add: aligned_page_base [OF assms(1)])
  then have "unat (base OR of_nat i) = unat base + i"
    using b i assms(2) unat_frame_offset [of base "of_nat i"] by simp
  with u show "base OR of_nat i = base + of_nat i" by (simp add: word_unat_eq_iff)
  show "(base + of_nat i) AND 0xfff = of_nat i"
    using b u i assms(2) by (simp add: word_unat_eq_iff unat_page_offset)
qed

lemma safe_after_publish:
  assumes inv: "paging_inv p" and v: "guest_shadow_snapshot_is_valid p (Some s)"
    and safe: "private_shadow_target_is_safe p target"
  shows "private_shadow_target_is_safe (flush_translation_lookaside_buffer
    (set_entry p (0, unat (snap_linear_page s) div 4096) (guest_shadow_entry s target))) target"
proof -
  let ?q = "flush_translation_lookaside_buffer
    (set_entry p (0, unat (snap_linear_page s) div 4096) (guest_shadow_entry s target))"
  have qinv: "paging_inv ?q" using paging_inv_set_entry [OF inv entry_ok_shadow [OF v safe]] by simp
  have same: "boot_page_entry ?q target = boot_page_entry p target"
    using paging_inv_active(2) [OF inv] paging_inv_active(2) [OF qinv]
    by (simp add: boot_page_entry_def set_entry_def)
  have t: "0x800000 \<le> unat target"
    using safe by (auto simp: private_shadow_target_is_safe_def word_less_nat_alt split: if_splits)
  then have "2 \<le> unat (target div 0x400000)" by (simp add: unat_div_distrib less_eq_div_iff_mult_less_eq)
  then have "fst slot \<noteq> 0" if "boot_page_entry p target = Some slot" for slot
    using that by (auto simp: boot_page_entry_def Let_def split: if_splits)
  then have "entry_at ?q slot = entry_at p slot" if "boot_page_entry p target = Some slot" for slot
    using that by (simp add: entry_at_def set_entry_def)
  with safe same show ?thesis
    by (auto simp: private_shadow_target_is_safe_def set_entry_def split: if_splits option.splits)
qed

lemma published_translates:
  assumes inv: "paging_inv p" and s: "x86_paging_guest_shadow_snapshot p (Some b) page = (X86_PAGING_GUEST_SHADOW_OK, Some s)"
    and safe: "private_shadow_target_is_safe p target"
    and q: "q = flush_translation_lookaside_buffer (set_entry p (0, unat page div 4096) (guest_shadow_entry s target))"
  shows "\<forall>i < 0x1000. cpu_translate q (page + of_nat i) True = Some (target + of_nat i) \<and>
       x86_paging_guest_shadow_translate q (Some s) target (page + of_nat i) True =
         Some \<lparr>physical_address = target + of_nat i, contiguous_bytes = 0x1000 - of_nat i\<rparr>"
proof (intro allI impI)
  fix i :: nat assume i: "i < 0x1000"
  let ?e = "unat page div 4096"
  note v = snapshot_okD [OF inv s]
  note sv = snapshot_validD [OF v(1), unfolded v(2)]
  have t: "target AND 0xfff = 0" "0x800000 \<le> target"
    using safe by (auto simp: private_shadow_target_is_safe_def not_less split: if_splits)
  have pg: "page AND 0xfff = 0" "page < 0x100000"
    using v(1,2) by (auto simp: guest_shadow_snapshot_is_valid_def)
  note off = aligned_offset [OF pg(1) i]
  have qinv: "paging_inv q"
    unfolding q using paging_inv_set_entry [OF inv entry_ok_shadow [OF v(1) safe]] v(2) by simp
  have e: "unat (page + of_nat i) div 4096 = ?e"
  proof -
    have "unat page mod 4096 = 0" using pg(1) unat_page_offset [of page] by simp
    then obtain k where "unat page = 4096 * k" by (metis dvdE mod_eq_0_iff_dvd)
    with i show ?thesis by (simp add: off(1))
  qed
  have at: "identity_page_tables q 0 ?e = guest_shadow_entry s target" by (simp add: q set_entry_def)
  note bits = shadow_entry_bits [OF t(1), where s = s]
  have "page + of_nat i < 0x400000" using off(1) pg i by (simp add: word_less_nat_alt)
  then have cpu: "cpu_translate q (page + of_nat i) True = Some (target + of_nat i)"
    using sv bits(1) bits(2) [of 0] bits(2) [of 1] bits(2) [of 2] e at off(3) aligned_offset(2) [OF t(1) i]
    by (simp add: cpu_translate_low [OF qinv] Let_def)
  have tsafe: "private_shadow_target_is_safe q target"
    unfolding q by (rule safe_after_publish [OF inv v(1) safe, unfolded v(2)])
  have qv: "guest_shadow_snapshot_is_valid q (Some s)"
    using v(1) paging_inv_active(1) [OF inv] paging_inv_active(1) [OF qinv]
    by (subst snapshot_valid_cong [of q p]) (simp_all add: q set_entry_def)
  have dir: "guest_directory_is_user_accessible q page"
    using v(4) by (simp add: guest_directory_is_user_accessible_def q set_entry_def)
  have entry: "boot_page_entry q page = Some (0, ?e)" by (rule low_boot_page_entry(1) [OF qinv sv(1)])
  have "\<not> page + of_nat i < page" "\<not> page + 0x1000 \<le> page + of_nat i"
    using off(1) pg i by (simp_all add: word_less_nat_alt word_le_nat_alt unat_word_ariths)
  then have "x86_paging_guest_shadow_translate q (Some s) target (page + of_nat i) True =
      Some \<lparr>physical_address = target + of_nat i, contiguous_bytes = 0x1000 - of_nat i\<rparr>"
    using qv tsafe dir entry at sv(6,8) bits(2) [of 0] bits(2) [of 1] bits(2) [of 2] v(2)
    by (simp add: x86_paging_guest_shadow_translate_def entry_at_def entries_match_ignoring_cpu_state_def Let_def
        flag_simps)
  with cpu show "cpu_translate q (page + of_nat i) True = Some (target + of_nat i) \<and>
       x86_paging_guest_shadow_translate q (Some s) target (page + of_nat i) True =
         Some \<lparr>physical_address = target + of_nat i, contiguous_bytes = 0x1000 - of_nat i\<rparr>"
    by blast
qed

section \<open>Properties\<close>

text \<open>The tables before the kernel sets them up: cleared storage at page-aligned addresses.\<close>

definition cleared_paging :: x86_paging_state where
  "cleared_paging = \<lparr>page_directory = (\<lambda>_. 0), identity_page_tables = (\<lambda>_ _. 0), paging_enabled = False,
     paging_identity_limit = 0, cr0 = 1, cr3 = 0, page_directory_address = 0x500000,
     page_tables_address = 0x510000, host_tlb_flush_count = 0\<rparr>"

definition booted_paging :: x86_paging_state where
  "booted_paging = x86_paging_initialize cleared_paging None"

lemma booted_reachable: "paging_reachable None booted_paging"
  unfolding booted_paging_def by (rule paging_reachable.boot) (simp_all add: cleared_paging_def)

lemma boot_entry:
  assumes e: "e < 0x100"
  shows "identity_page_tables (x86_paging_initialize p boot_info) 0 e =
     (page_address e OR 1 OR access_flags (x86_boot_page_access (page_address e)))"
proof -
  have "page_address e AND 0xfffff000 = page_address e"
    using e by (simp add: page_base_is_address unat_page_address)
  moreover have "(page_address e AND NOT (0x1000 - 1)) = page_address e AND 0xfffff000"
    by (rule bit_word_eqI) (simp add: bit_and_iff)
  ultimately have "x86_boot_page_is_present boot_info (page_address e)"
    using e by (simp add: x86_boot_page_is_present_def Let_def word_less_nat_alt unat_page_address)
  moreover have "0 < unat (detected_table_count boot_info)" using detected_table_count_bounds [of boot_info] by linarith
  ultimately show ?thesis using e
    by (simp add: x86_paging_initialize_def boot_table_entry_def page_address_def Let_def)
qed

lemmas booted_entry = boot_entry [of _ cleared_paging None, folded booted_paging_def]

text \<open>C1: whatever sequence of paging operations ran since boot, with whatever arguments, an access at
  privilege level 3 reaches either the byte at its own linear address, inside the real-mode window or the
  protected-process aperture and never for a write into the firmware window, or, from the firmware
  window only, a byte of managed memory between the identity floor and the mapped limit. In
  particular the kernel between 4 and 8 MiB is out of reach and the ROM backing is never written.\<close>

theorem guest_reach_confined:
  assumes "paging_reachable bi p" and "cpu_translate p linear writing = Some physical"
  shows "(physical = linear \<and> (linear < 0x110000 \<or> 0x200000 \<le> linear \<and> linear < 0x400000) \<and>
           (0xc0000 \<le> linear \<and> linear < 0x100000 \<longrightarrow> \<not> writing)) \<or>
         (0xc0000 \<le> linear \<and> linear < 0x100000 \<and> X86_BOOT_IDENTITY_FLOOR \<le> physical \<and>
           physical < paging_identity_limit p)"
  using cpu_translate_confined [OF paging_reachable_inv [OF assms(1)] assms(2)] .

theorem guest_reach_confined_witness:
  "cpu_translate booted_paging 0x500 True = Some 0x500 \<and>
   ((0x500 :: u32) < 0x110000 \<or> 0x200000 \<le> (0x500 :: u32) \<and> (0x500 :: u32) < 0x400000)"
proof -
  have tr: "cpu_translate booted_paging 0x500 True = Some 0x500"
    by (simp add: cpu_translate_low [OF paging_reachable_inv [OF booted_reachable]] booted_entry Let_def
        page_address_def x86_boot_page_access_def)
  with guest_reach_confined [OF booted_reachable tr] show ?thesis by simp
qed

text \<open>C5: a video grant that succeeds makes every byte of the range writable by the guest at its own
  address, is reported by the access check, and is undone exactly by the matching revocation: the
  tables are those from before the grant and the translation cache was flushed twice.\<close>

theorem video_grant_revoke_roundtrip:
  assumes "paging_reachable bi p" and "x86_paging_grant_legacy_video_range p a n = (True, q)"
  shows "x86_paging_legacy_video_range_is_user_accessible q a n \<and>
    (\<forall>i < n. cpu_translate q (a + of_nat i) True = Some (a + of_nat i)) \<and>
    x86_paging_revoke_legacy_video_range q a n =
      (True, p\<lparr>host_tlb_flush_count := host_tlb_flush_count p + 2\<rparr>)"
  using granted_then_revoked [OF paging_reachable_inv [OF assms(1)] assms(2)] by blast

lemma booted_video_entry:
  "e \<in> {0xa0..<0xc0} \<Longrightarrow> identity_page_tables booted_paging 0 e = (page_address e OR 3)"
  by (simp add: booted_entry x86_boot_page_access_def word_less_nat_alt unat_page_address)

lemma booted_grant:
  "x86_paging_grant_legacy_video_range booted_paging 0xb8000 0x8000 =
     (True, snd (x86_paging_grant_legacy_video_range booted_paging 0xb8000 0x8000))"
proof -
  have r: "legacy_video_range 0xb8000 0x8000 = Some 0xc0000" by (simp add: legacy_video_range_def Let_def)
  have "legacy_video_identity_mappings_are_valid booted_paging 0xb8000 0x8000 False True"
  proof -
    have "(page_address e OR 3) AND 0xfffff000 = page_address e" if "e < 0x100" for e
      by (rule bit_word_eqI) (use that in \<open>auto simp: bit_or_iff bit_page_address\<close>)
    moreover have "\<not> bit (page_address e) 2" if "e < 0x100" for e
      using that by (simp add: bit_page_address)
    ultimately show ?thesis
      by (auto simp: legacy_video_identity_mappings_are_valid_def r list_all_iff video_pages_def Let_def
          booted_video_entry flag_simps bit_or_iff page_address_def [symmetric])
  qed
  then show ?thesis
    using paging_inv_active(2) [OF paging_reachable_inv [OF booted_reachable]] r
    by (simp add: x86_paging_grant_legacy_video_range_def)
qed

theorem video_grant_revoke_roundtrip_witness:
  "cpu_translate (snd (x86_paging_grant_legacy_video_range booted_paging 0xb8000 0x8000)) 0xb8000 True = Some 0xb8000"
  using video_grant_revoke_roundtrip [OF booted_reachable booted_grant] by (auto dest: spec [of _ 0])



text \<open>C7: the software check of a guest range agrees with the page walk byte by byte: it accepts a
  non-empty range exactly when the range ends inside the real-mode window and every byte of it
  translates to itself for the requested kind of access.\<close>

theorem range_check_agrees_with_walk:
  assumes "paging_reachable bi p" and "0 < n"
  shows "x86_paging_guest_range_is_accessible p a n writing \<longleftrightarrow>
    unat a + n \<le> 0x110000 \<and> (\<forall>i < n. cpu_translate p (a + of_nat i) writing = Some (a + of_nat i))"
  using range_accessible_eq [OF paging_reachable_inv [OF assms(1)] assms(2)] .

theorem range_check_agrees_with_walk_witness:
  "\<not> x86_paging_guest_range_is_accessible booted_paging 0x10fff0 0x20 False"
  using range_check_agrees_with_walk [OF booted_reachable, where n = "0x20" and a = "0x10fff0"] by simp

text \<open>C2: a firmware page that was snapshotted can always be redirected to a safe private page; then
  every byte of it translates to the same byte of the private page, also for writes, both in the
  walk and in the software translation; and restoring it yields the tables from before.\<close>

theorem firmware_alias_roundtrip:
  assumes "paging_reachable bi p"
    and "x86_paging_guest_shadow_snapshot p (Some b) page = (X86_PAGING_GUEST_SHADOW_OK, Some s)"
    and "private_shadow_target_is_safe p target"
  shows "\<exists>q. x86_paging_guest_shadow_publish p (Some s) target = (X86_PAGING_GUEST_SHADOW_OK, q) \<and>
    (\<forall>i < 0x1000. cpu_translate q (page + of_nat i) True = Some (target + of_nat i) \<and>
       x86_paging_guest_shadow_translate q (Some s) target (page + of_nat i) True =
         Some \<lparr>physical_address = target + of_nat i, contiguous_bytes = 0x1000 - of_nat i\<rparr>) \<and>
    x86_paging_guest_shadow_restore q (Some s) target =
      (X86_PAGING_GUEST_SHADOW_OK, p\<lparr>host_tlb_flush_count := host_tlb_flush_count p + 2\<rparr>)"
  using published_translates [OF paging_reachable_inv [OF assms(1)] assms(2,3) refl]
    published [OF paging_reachable_inv [OF assms(1)] assms(2,3)]
    restored [OF paging_reachable_inv [OF assms(1)] assms(2,3) refl] by blast

text \<open>C8: no paging operation changes an entry of the live tables without flushing the translation
  cache exactly once.\<close>

theorem table_changes_are_flushed:
  assumes "paging_reachable bi p" and "paging_step p q" and "identity_page_tables q \<noteq> identity_page_tables p"
  shows "host_tlb_flush_count q = host_tlb_flush_count p + 1"
  using step_flushes [OF assms(2) paging_reachable_inv [OF assms(1)] assms(3)] .


theorem table_changes_are_flushed_witness:
  "host_tlb_flush_count (snd (x86_paging_grant_legacy_video_range booted_paging 0xb8000 0x8000)) = 1"
proof -
  let ?q = "snd (x86_paging_grant_legacy_video_range booted_paging 0xb8000 0x8000)"
  note inv = paging_reachable_inv [OF booted_reachable]
  have "cpu_translate ?q 0xb8000 True = Some 0xb8000"
    using granted_then_revoked(2) [OF inv booted_grant] by (auto dest: spec [of _ 0])
  then have "bit (identity_page_tables ?q 0 0xb8) 2"
    by (simp add: cpu_translate_low [OF paging_step_inv [OF paging_step.grant_video inv]] Let_def split: if_splits)
  moreover have "\<not> bit (identity_page_tables booted_paging 0 0xb8) 2"
    by (simp add: booted_video_entry bit_or_iff bit_page_address)
  ultimately have "identity_page_tables ?q \<noteq> identity_page_tables booted_paging" by metis
  from table_changes_are_flushed [OF booted_reachable paging_step.grant_video this] show ?thesis
    by (simp add: booted_paging_def x86_paging_initialize_def Let_def)
qed

definition sample_paging :: x86_paging_state where
  "sample_paging = x86_paging_initialize cleared_paging (Some sample_boot_info)"

lemma sample_reachable: "paging_reachable (Some sample_boot_info) sample_paging"
  unfolding sample_paging_def by (rule paging_reachable.boot) (simp_all add: cleared_paging_def)

lemma sample_table_count: "detected_table_count (Some sample_boot_info) = 4"
  by (simp add: detected_table_count_def x86_memory_map_usable_limit_def sample_valid sample_ranges_def
      memory_range_def range_limit_def X86_BOOT_MEMORY_USABLE_def)

lemma sample_entries:
  "identity_page_tables sample_paging 0 0xf0 = 0xf0005"
  "identity_page_tables sample_paging 2 0 = 0x800003"
  by (simp_all add: sample_paging_def x86_paging_initialize_def sample_table_count boot_table_entry_def Let_def
      x86_boot_page_is_present_def x86_boot_page_access_def range_query_bytes sample_valid sample_usable)

lemma sample_target: "private_shadow_target_is_safe sample_paging 0x800000"
proof -
  have "page_directory sample_paging 2 = 0x512003"
    by (simp add: sample_paging_def x86_paging_initialize_def sample_table_count boot_directory_entry_def
        cleared_paging_def Let_def)
  moreover have "paging_identity_limit sample_paging = 0x1000000"
    by (simp add: sample_paging_def x86_paging_initialize_def sample_table_count Let_def)
  ultimately show ?thesis
    using paging_inv_active(2) [OF paging_reachable_inv [OF sample_reachable]]
    by (simp add: private_shadow_target_is_safe_def boot_page_entry_def entry_at_def sample_entries)
qed

lemma sample_snapshot:
  "\<exists>b s. x86_paging_guest_shadow_snapshot sample_paging (Some b) 0xf0000 = (X86_PAGING_GUEST_SHADOW_OK, Some s)"
proof -
  note inv = paging_reachable_inv [OF sample_reachable]
  obtain b where "x86_paging_binding_is_active sample_paging (Some b)" using snapshot_active [OF inv] by blast
  moreover have "page_directory sample_paging 0 = 0x510007"
    by (simp add: sample_paging_def x86_paging_initialize_def sample_table_count boot_directory_entry_def
        cleared_paging_def Let_def)
  ultimately show ?thesis
    using low_boot_page_entry(1) [OF inv, of "0xf0000"]
    by (auto simp: x86_paging_guest_shadow_snapshot_def guest_directory_is_user_accessible_def entry_at_def
        sample_entries intro!: exI [of _ b])
qed

theorem firmware_alias_roundtrip_witness:
  "\<exists>s q. x86_paging_guest_shadow_publish sample_paging (Some s) 0x800000 = (X86_PAGING_GUEST_SHADOW_OK, q) \<and>
     cpu_translate q 0xf0123 True = Some 0x800123"
proof -
  obtain b s where s: "x86_paging_guest_shadow_snapshot sample_paging (Some b) 0xf0000 =
      (X86_PAGING_GUEST_SHADOW_OK, Some s)"
    using sample_snapshot by blast
  obtain q where q: "x86_paging_guest_shadow_publish sample_paging (Some s) 0x800000 = (X86_PAGING_GUEST_SHADOW_OK, q)"
    and tr: "\<forall>i < 0x1000. cpu_translate q (0xf0000 + of_nat i) True = Some (0x800000 + of_nat i)"
    using firmware_alias_roundtrip [OF sample_reachable s sample_target] by blast
  from tr have "cpu_translate q (0xf0000 + of_nat 0x123) True = Some (0x800000 + of_nat 0x123)"
    by (elim allE [of _ "0x123"]) simp
  with q show ?thesis by auto
qed

end
