(* ===== verification/PhysicalPages.thy ===== *)
theory PhysicalPages
  imports Paging
begin

text \<open>
  The owner of guest physical pages: \<open>include/x86_guest_memory.h\<close> and \<open>kernel/x86_vm/memory/physical.c\<close>.
  The manager is a record; its two bitmaps and its lease table are functions of the array index, and
  every index the code computes is below the array's size. The zeroing callback may change the
  machine, whose state is the type variable \<open>'z\<close>; it reports a raw status. \<open>reserved\<close> padding,
  which is written but never read, is left out. Counters and addresses keep their C widths; page
  numbers that a loop runs over are natural numbers.
\<close>

section \<open>Data\<close>

type_synonym x86_guest_memory_lease = u64

abbreviation (input) X86_GUEST_PAGE_BYTES :: u64 where "X86_GUEST_PAGE_BYTES \<equiv> 0x1000"
abbreviation (input) X86_GUEST_MEMORY_BASE :: u64 where "X86_GUEST_MEMORY_BASE \<equiv> 0x00800000"
abbreviation (input) X86_GUEST_MEMORY_APERTURE_LIMIT :: u64 where "X86_GUEST_MEMORY_APERTURE_LIMIT \<equiv> 0x10000000"
abbreviation (input) X86_GUEST_MEMORY_PAGE_COUNT :: nat where "X86_GUEST_MEMORY_PAGE_COUNT \<equiv> 63488"
abbreviation (input) X86_GUEST_MEMORY_BITMAP_WORDS :: nat where "X86_GUEST_MEMORY_BITMAP_WORDS \<equiv> 1984"
abbreviation (input) X86_GUEST_MEMORY_LEASE_COUNT :: nat where "X86_GUEST_MEMORY_LEASE_COUNT \<equiv> 1024"
abbreviation (input) X86_GUEST_MEMORY_GENERATION_MAX :: u64 where
  "X86_GUEST_MEMORY_GENERATION_MAX \<equiv> 0x001fffffffffffff"

datatype x86_guest_memory_status =
    X86_GUEST_MEMORY_OK
  | X86_GUEST_MEMORY_INVALID_ARGUMENT
  | X86_GUEST_MEMORY_INVALID_MAP
  | X86_GUEST_MEMORY_NOT_INITIALIZED
  | X86_GUEST_MEMORY_NO_MEMORY
  | X86_GUEST_MEMORY_NO_LEASE
  | X86_GUEST_MEMORY_STALE_LEASE
  | X86_GUEST_MEMORY_OWNER_MISMATCH
  | X86_GUEST_MEMORY_ZERO_FAILED
  | X86_GUEST_MEMORY_POISONED

datatype x86_guest_memory_lease_state =
  X86_GUEST_MEMORY_LEASE_FREE | X86_GUEST_MEMORY_LEASE_LIVE | X86_GUEST_MEMORY_LEASE_RETIRED

record x86_guest_memory_lease_slot =
  lease_generation :: u64
  lease_owner :: u64
  lease_first_page :: u32
  lease_page_count :: u32
  lease_state :: x86_guest_memory_lease_state

text \<open>\<open>zero\<close> takes the callback's context, an address and a byte count; 0 is \<open>X86_GUEST_ZERO_OK\<close> and 1 is
  \<open>X86_GUEST_ZERO_FAILED\<close>.\<close>

record 'z x86_guest_memory_ops =
  zero :: "'z \<Rightarrow> u64 \<Rightarrow> u32 \<Rightarrow> u32 \<Rightarrow> nat \<times> 'z"

record 'z x86_guest_memory_manager =
  available :: "nat \<Rightarrow> u32"
  allocated :: "nat \<Rightarrow> u32"
  leases :: "nat \<Rightarrow> x86_guest_memory_lease_slot"
  memory_ops :: "'z x86_guest_memory_ops option"
  zero_context :: u64
  managed_base :: u64
  managed_limit :: u64
  available_pages :: u32
  allocated_pages :: u32
  next_free_hint :: u32
  manager_initialized :: u8
  manager_constructed :: u8
  manager_poisoned :: u8

record x86_guest_memory_lease_info =
  info_owner :: u64
  info_physical_address :: u32
  info_page_count :: u32

record x86_guest_memory_snapshot =
  largest_free_pages :: u64
  total_free_pages :: u64
  managed_pages :: u64
  highest_address :: u64

definition empty_lease_slot :: x86_guest_memory_lease_slot where
  "empty_lease_slot = \<lparr>lease_generation = 0, lease_owner = 0, lease_first_page = 0, lease_page_count = 0,
     lease_state = X86_GUEST_MEMORY_LEASE_FREE\<rparr>"

section \<open>Bitmaps\<close>

definition bit_is_set :: "(nat \<Rightarrow> u32) \<Rightarrow> u32 \<Rightarrow> bool" where
  "bit_is_set bitmap page \<longleftrightarrow> bitmap (unat (drop_bit 5 page)) AND push_bit (unat (page AND 31)) 1 \<noteq> 0"

definition bit_set :: "(nat \<Rightarrow> u32) \<Rightarrow> u32 \<Rightarrow> nat \<Rightarrow> u32" where
  "bit_set bitmap page = bitmap(unat (drop_bit 5 page) :=
     bitmap (unat (drop_bit 5 page)) OR push_bit (unat (page AND 31)) 1)"

definition bit_clear :: "(nat \<Rightarrow> u32) \<Rightarrow> u32 \<Rightarrow> nat \<Rightarrow> u32" where
  "bit_clear bitmap page = bitmap(unat (drop_bit 5 page) :=
     bitmap (unat (drop_bit 5 page)) AND NOT (push_bit (unat (page AND 31)) 1))"

definition align_up_page :: "u64 \<Rightarrow> u64" where
  "align_up_page v = (let m = X86_GUEST_PAGE_BYTES - 1 in
     if v > NOT 0 - m then NOT 0 else (v + m) AND NOT m)"

definition align_down_page :: "u64 \<Rightarrow> u64" where
  "align_down_page v = (v AND NOT (X86_GUEST_PAGE_BYTES - 1))"

section \<open>Construction from the memory map\<close>

definition change_range_availability ::
  "(nat \<Rightarrow> u32) \<Rightarrow> x86_boot_memory_range \<Rightarrow> bool \<Rightarrow> nat \<Rightarrow> u32" where
  "change_range_availability bitmap r usable =
     (let range_end = range_base r + range_length r;
          first = (if usable then align_up_page (range_base r) else align_down_page (range_base r));
          last = (if usable then align_down_page range_end else align_up_page range_end);
          first = (if first < X86_GUEST_MEMORY_BASE then X86_GUEST_MEMORY_BASE else first);
          last = (if last > X86_GUEST_MEMORY_APERTURE_LIMIT then X86_GUEST_MEMORY_APERTURE_LIMIT else last)
      in if first \<ge> last \<or> first \<ge> X86_GUEST_MEMORY_APERTURE_LIMIT \<or> last \<le> X86_GUEST_MEMORY_BASE then bitmap
         else fold (\<lambda>page bm. if usable then bit_set bm (of_nat page) else bit_clear bm (of_nat page))
                [unat ((first - X86_GUEST_MEMORY_BASE) div X86_GUEST_PAGE_BYTES)..<
                 unat ((last - X86_GUEST_MEMORY_BASE) div X86_GUEST_PAGE_BYTES)] bitmap)"

definition count_available :: "(nat \<Rightarrow> u32) \<Rightarrow> u32" where
  "count_available bitmap =
     fold (\<lambda>page n. if bit_is_set bitmap (of_nat page) then n + 1 else n) [0..<X86_GUEST_MEMORY_PAGE_COUNT] 0"

definition x86_guest_memory_construct :: "'z x86_guest_memory_manager \<Rightarrow> 'z x86_guest_memory_manager" where
  "x86_guest_memory_construct m =
     m\<lparr>available := (\<lambda>_. 0), allocated := (\<lambda>_. 0), leases := (\<lambda>_. empty_lease_slot), memory_ops := None,
       zero_context := KERNEL_OBJECT_HANDLE_INVALID, managed_base := 0, managed_limit := 0,
       available_pages := 0, allocated_pages := 0,
       next_free_hint := ucast ((0 - X86_GUEST_MEMORY_BASE) div X86_GUEST_PAGE_BYTES),
       manager_initialized := 0, manager_constructed := 1, manager_poisoned := 0\<rparr>"

text \<open>The loop that finds the first and the last available page, over what \<open>managed_base\<close> and
  \<open>managed_limit\<close> hold.\<close>

definition managed_step :: "(nat \<Rightarrow> u32) \<Rightarrow> nat \<Rightarrow> u64 \<times> u64 \<Rightarrow> u64 \<times> u64" where
  "managed_step bitmap word bounds =
     (case bounds of (base, limit) \<Rightarrow>
        if \<not> bit_is_set bitmap (of_nat word) then (base, limit)
        else (if base = 0 then X86_GUEST_MEMORY_BASE + of_nat word * X86_GUEST_PAGE_BYTES else base,
              X86_GUEST_MEMORY_BASE + of_nat (word + 1) * X86_GUEST_PAGE_BYTES))"

definition x86_guest_memory_initialize ::
  "'z x86_guest_memory_manager \<Rightarrow> x86_boot_info option \<Rightarrow> 'z x86_guest_memory_ops option \<Rightarrow> u64
     \<Rightarrow> x86_guest_memory_status \<times> 'z x86_guest_memory_manager" where
  "x86_guest_memory_initialize m boot_info table ctx =
     (if table = None \<or> \<not> valid_identity ctx then (X86_GUEST_MEMORY_INVALID_ARGUMENT, m)
      else if manager_constructed m \<noteq> 1 \<or> manager_initialized m \<noteq> 0 then (X86_GUEST_MEMORY_INVALID_ARGUMENT, m)
      else if \<not> x86_memory_map_is_valid boot_info then (X86_GUEST_MEMORY_INVALID_MAP, m)
      else (let ranges = used_ranges (the boot_info);
                usable = fold (\<lambda>r bm. if range_type r = X86_BOOT_MEMORY_USABLE
                           then change_range_availability bm r True else bm) ranges (\<lambda>_. 0);
                bitmap = fold (\<lambda>r bm. if range_type r \<noteq> X86_BOOT_MEMORY_USABLE
                           then change_range_availability bm r False else bm) ranges usable;
                pages = count_available bitmap;
                cleared = m\<lparr>available := bitmap, allocated := (\<lambda>_. 0), leases := (\<lambda>_. empty_lease_slot),
                            available_pages := pages\<rparr>;
                refused = cleared\<lparr>memory_ops := None, zero_context := KERNEL_OBJECT_HANDLE_INVALID\<rparr>
            in if pages = 0 then (X86_GUEST_MEMORY_INVALID_MAP, refused)
               else (let (base, limit) = fold (managed_step bitmap) [0..<X86_GUEST_MEMORY_PAGE_COUNT] (0, 0)
                     in if base = 0 \<or> limit \<le> base
                        then (X86_GUEST_MEMORY_INVALID_MAP,
                              refused\<lparr>managed_base := base, managed_limit := limit, available_pages := 0\<rparr>)
                        else (X86_GUEST_MEMORY_OK,
                              cleared\<lparr>memory_ops := table, zero_context := ctx, managed_base := base,
                                managed_limit := limit, allocated_pages := 0, next_free_hint := 0,
                                manager_poisoned := 0, manager_initialized := 1\<rparr>))))"

section \<open>Searching\<close>

text \<open>\<open>find_lease_slot\<close> retires exhausted free slots on its way.\<close>

fun find_lease_loop ::
  "nat list \<Rightarrow> (nat \<Rightarrow> x86_guest_memory_lease_slot) \<Rightarrow> nat \<times> (nat \<Rightarrow> x86_guest_memory_lease_slot)" where
  "find_lease_loop [] slots = (X86_GUEST_MEMORY_LEASE_COUNT, slots)"
| "find_lease_loop (index # rest) slots =
     (if lease_state (slots index) \<noteq> X86_GUEST_MEMORY_LEASE_FREE then find_lease_loop rest slots
      else if lease_generation (slots index) \<ge> X86_GUEST_MEMORY_GENERATION_MAX
      then find_lease_loop rest
             (slots(index := (slots index)\<lparr>lease_state := X86_GUEST_MEMORY_LEASE_RETIRED\<rparr>))
      else (index, slots))"

definition find_lease_slot :: "'z x86_guest_memory_manager \<Rightarrow> nat \<times> 'z x86_guest_memory_manager" where
  "find_lease_slot m =
     (let (index, slots) = find_lease_loop [0..<X86_GUEST_MEMORY_LEASE_COUNT] (leases m)
      in (index, m\<lparr>leases := slots\<rparr>))"

definition page_is_free :: "'z x86_guest_memory_manager \<Rightarrow> nat \<Rightarrow> bool" where
  "page_is_free m page \<longleftrightarrow> bit_is_set (available m) (of_nat page) \<and> \<not> bit_is_set (allocated m) (of_nat page)"

definition managed_first_page :: "'z x86_guest_memory_manager \<Rightarrow> u32" where
  "managed_first_page m = ucast ((managed_base m - X86_GUEST_MEMORY_BASE) div X86_GUEST_PAGE_BYTES)"

definition managed_page_limit :: "'z x86_guest_memory_manager \<Rightarrow> u32" where
  "managed_page_limit m = ucast ((managed_limit m - X86_GUEST_MEMORY_BASE) div X86_GUEST_PAGE_BYTES)"

definition run_is_free :: "'z x86_guest_memory_manager \<Rightarrow> nat \<Rightarrow> u32 \<Rightarrow> bool" where
  "run_is_free m first pages =
     (if pages = 0 \<or> pages > managed_page_limit m \<or> of_nat first > managed_page_limit m - pages then False
      else list_all (\<lambda>index. page_is_free m (first + index)) [0..<unat pages])"

definition find_free_run :: "'z x86_guest_memory_manager \<Rightarrow> u32 \<Rightarrow> nat" where
  "find_free_run m pages =
     (if allocated_pages m > available_pages m \<or> pages = 0 \<or>
         pages > of_nat X86_GUEST_MEMORY_PAGE_COUNT \<or> pages > available_pages m - allocated_pages m
      then X86_GUEST_MEMORY_PAGE_COUNT
      else (let first = managed_first_page m; last = managed_page_limit m
            in if pages > last - first then X86_GUEST_MEMORY_PAGE_COUNT
               else (let limit = last - pages;
                         start = (if next_free_hint m \<le> limit then next_free_hint m else first);
                         start = (if start < first then first else start)
                     in case find (\<lambda>page. run_is_free m page pages) [unat start..<unat limit + 1] of
                          Some page \<Rightarrow> page
                        | None \<Rightarrow>
                            (case find (\<lambda>page. run_is_free m page pages)
                                    [unat first..<min (unat start) (unat limit + 1)] of
                               Some page \<Rightarrow> page
                             | None \<Rightarrow> X86_GUEST_MEMORY_PAGE_COUNT))))"

section \<open>Leases\<close>

definition make_lease :: "nat \<Rightarrow> u64 \<Rightarrow> x86_guest_memory_lease" where
  "make_lease slot gen = (push_bit 11 gen OR of_nat (slot + 1))"

definition resolve_lease ::
  "'z x86_guest_memory_manager \<Rightarrow> x86_guest_memory_lease \<Rightarrow> x86_guest_memory_status + nat" where
  "resolve_lease m lease =
     (if lease = 0 \<or> lease = KERNEL_OBJECT_HANDLE_INVALID then Inl X86_GUEST_MEMORY_STALE_LEASE
      else (let encoded_slot = unat (lease AND 0x7ff); gen = drop_bit 11 lease
            in if encoded_slot = 0 \<or> encoded_slot > X86_GUEST_MEMORY_LEASE_COUNT \<or> gen = 0 \<or>
                  gen > X86_GUEST_MEMORY_GENERATION_MAX then Inl X86_GUEST_MEMORY_STALE_LEASE
               else (let slot = leases m (encoded_slot - 1)
                     in if lease_state slot \<noteq> X86_GUEST_MEMORY_LEASE_LIVE \<or> lease_generation slot \<noteq> gen
                        then Inl X86_GUEST_MEMORY_STALE_LEASE
                        else Inr (encoded_slot - 1))))"

text \<open>An initialized manager has a callback table; a missing one is reported as a bad argument.\<close>

definition call_zero ::
  "'z x86_guest_memory_manager \<Rightarrow> 'z \<Rightarrow> u32 \<Rightarrow> u32 \<Rightarrow> (nat \<times> 'z) option" where
  "call_zero m z address byte_count =
     map_option (\<lambda>table. zero table z (zero_context m) address byte_count) (memory_ops m)"

definition x86_guest_memory_allocate ::
  "'z x86_guest_memory_manager \<Rightarrow> 'z \<Rightarrow> u64 \<Rightarrow> u32
     \<Rightarrow> x86_guest_memory_status \<times> 'z x86_guest_memory_manager \<times> 'z \<times> (x86_guest_memory_lease \<times> u32) option" where
  "x86_guest_memory_allocate m z owner pages =
     (if \<not> valid_identity owner \<or> pages = 0 then (X86_GUEST_MEMORY_INVALID_ARGUMENT, m, z, None)
      else if manager_initialized m \<noteq> 1 then (X86_GUEST_MEMORY_NOT_INITIALIZED, m, z, None)
      else if manager_poisoned m \<noteq> 0 then (X86_GUEST_MEMORY_POISONED, m, z, None)
      else if allocated_pages m > available_pages m
      then (X86_GUEST_MEMORY_POISONED, m\<lparr>manager_poisoned := 1\<rparr>, z, None)
      else if pages > of_nat X86_GUEST_MEMORY_PAGE_COUNT \<or> pages > available_pages m - allocated_pages m
      then (X86_GUEST_MEMORY_NO_MEMORY, m, z, None)
      else (let (slot_index, m) = find_lease_slot m
            in if slot_index = X86_GUEST_MEMORY_LEASE_COUNT then (X86_GUEST_MEMORY_NO_LEASE, m, z, None)
               else (let first_page = find_free_run m pages
                     in if first_page = X86_GUEST_MEMORY_PAGE_COUNT then (X86_GUEST_MEMORY_NO_MEMORY, m, z, None)
                        else (let address = 0x00800000 + of_nat first_page * 0x1000
                              in case call_zero m z address (pages * 0x1000) of
                                   None \<Rightarrow> (X86_GUEST_MEMORY_INVALID_ARGUMENT, m, z, None)
                                 | Some (zero_status, z') \<Rightarrow>
                                     if zero_status = 1 then (X86_GUEST_MEMORY_ZERO_FAILED, m, z', None)
                                     else if zero_status \<noteq> 0
                                     then (X86_GUEST_MEMORY_POISONED, m\<lparr>manager_poisoned := 1\<rparr>, z', None)
                                     else (let gen = lease_generation (leases m slot_index) + 1;
                                               slot = \<lparr>lease_generation = gen, lease_owner = owner,
                                                 lease_first_page = of_nat first_page, lease_page_count = pages,
                                                 lease_state = X86_GUEST_MEMORY_LEASE_LIVE\<rparr>;
                                               hint = of_nat first_page + pages;
                                               m' = m\<lparr>allocated := fold (\<lambda>index bm. bit_set bm (of_nat first_page + of_nat index))
                                                        [0..<unat pages] (allocated m),
                                                      leases := (leases m)(slot_index := slot),
                                                      allocated_pages := allocated_pages m + pages,
                                                      next_free_hint := (if hint \<ge> managed_page_limit m
                                                        then managed_first_page m else hint)\<rparr>
                                           in (X86_GUEST_MEMORY_OK, m', z',
                                               Some (make_lease slot_index gen, address)))))))"

definition x86_guest_memory_release ::
  "'z x86_guest_memory_manager \<Rightarrow> 'z \<Rightarrow> u64 \<Rightarrow> x86_guest_memory_lease
     \<Rightarrow> x86_guest_memory_status \<times> 'z x86_guest_memory_manager \<times> 'z" where
  "x86_guest_memory_release m z owner lease =
     (if \<not> valid_identity owner then (X86_GUEST_MEMORY_INVALID_ARGUMENT, m, z)
      else if manager_initialized m \<noteq> 1 then (X86_GUEST_MEMORY_NOT_INITIALIZED, m, z)
      else if manager_poisoned m \<noteq> 0 then (X86_GUEST_MEMORY_POISONED, m, z)
      else (case resolve_lease m lease of
              Inl status \<Rightarrow> (status, m, z)
            | Inr slot_index \<Rightarrow>
                (let slot = leases m slot_index; first = lease_first_page slot; pages = lease_page_count slot
                 in if lease_owner slot \<noteq> owner then (X86_GUEST_MEMORY_OWNER_MISMATCH, m, z)
                    else if pages = 0 \<or> first > of_nat X86_GUEST_MEMORY_PAGE_COUNT - pages \<or>
                            pages > allocated_pages m \<or>
                            \<not> list_all (\<lambda>index. bit_is_set (allocated m) (first + of_nat index)) [0..<unat pages]
                    then (X86_GUEST_MEMORY_POISONED, m\<lparr>manager_poisoned := 1\<rparr>, z)
                    else (case call_zero m z (0x00800000 + first * 0x1000) (pages * 0x1000) of
                            None \<Rightarrow> (X86_GUEST_MEMORY_INVALID_ARGUMENT, m, z)
                          | Some (zero_status, z') \<Rightarrow>
                              if zero_status = 1 then (X86_GUEST_MEMORY_ZERO_FAILED, m, z')
                              else if zero_status \<noteq> 0
                              then (X86_GUEST_MEMORY_POISONED, m\<lparr>manager_poisoned := 1\<rparr>, z')
                              else (X86_GUEST_MEMORY_OK,
                                    m\<lparr>allocated := fold (\<lambda>index bm. bit_clear bm (first + of_nat index))
                                         [0..<unat pages] (allocated m),
                                      allocated_pages := allocated_pages m - pages,
                                      next_free_hint := (if first < next_free_hint m then first else next_free_hint m),
                                      leases := (leases m)(slot_index := slot\<lparr>lease_owner := KERNEL_OBJECT_HANDLE_INVALID,
                                        lease_first_page := 0, lease_page_count := 0,
                                        lease_state := X86_GUEST_MEMORY_LEASE_FREE\<rparr>)\<rparr>,
                                    z')))))"

section \<open>Queries\<close>

definition x86_guest_memory_inspect ::
  "'z x86_guest_memory_manager \<Rightarrow> x86_guest_memory_lease \<Rightarrow> x86_guest_memory_status + x86_guest_memory_lease_info" where
  "x86_guest_memory_inspect m lease =
     (if manager_initialized m \<noteq> 1 then Inl X86_GUEST_MEMORY_NOT_INITIALIZED
      else if manager_poisoned m \<noteq> 0 then Inl X86_GUEST_MEMORY_POISONED
      else (case resolve_lease m lease of
              Inl status \<Rightarrow> Inl status
            | Inr slot_index \<Rightarrow>
                Inr \<lparr>info_owner = lease_owner (leases m slot_index),
                     info_physical_address = 0x00800000 + lease_first_page (leases m slot_index) * 0x1000,
                     info_page_count = lease_page_count (leases m slot_index)\<rparr>))"

definition x86_guest_memory_query_free :: "'z x86_guest_memory_manager \<Rightarrow> x86_guest_memory_status + u32" where
  "x86_guest_memory_query_free m =
     (if manager_initialized m \<noteq> 1 then Inl X86_GUEST_MEMORY_NOT_INITIALIZED
      else if manager_poisoned m \<noteq> 0 then Inl X86_GUEST_MEMORY_POISONED
      else if allocated_pages m > available_pages m then Inl X86_GUEST_MEMORY_POISONED
      else Inr (available_pages m - allocated_pages m))"

definition largest_step :: "'z x86_guest_memory_manager \<Rightarrow> nat \<Rightarrow> u32 \<times> u32 \<Rightarrow> u32 \<times> u32" where
  "largest_step m page st =
     (case st of (current, largest) \<Rightarrow>
        if \<not> page_is_free m page then (0, largest)
        else (current + 1, if current + 1 > largest then current + 1 else largest))"

definition x86_guest_memory_query_snapshot ::
  "'z x86_guest_memory_manager \<Rightarrow> x86_guest_memory_status + x86_guest_memory_snapshot" where
  "x86_guest_memory_query_snapshot m =
     (if manager_initialized m \<noteq> 1 then Inl X86_GUEST_MEMORY_NOT_INITIALIZED
      else if manager_poisoned m \<noteq> 0 \<or> allocated_pages m > available_pages m then Inl X86_GUEST_MEMORY_POISONED
      else if managed_base m < X86_GUEST_MEMORY_BASE \<or> managed_limit m \<le> managed_base m \<or>
              managed_limit m > X86_GUEST_MEMORY_APERTURE_LIMIT then Inl X86_GUEST_MEMORY_POISONED
      else (let (current, largest) =
                  fold (largest_step m) [unat (managed_first_page m)..<unat (managed_page_limit m)] (0, 0)
            in Inr \<lparr>largest_free_pages = ucast largest,
                    total_free_pages = ucast (available_pages m - allocated_pages m),
                    managed_pages = ucast (available_pages m),
                    highest_address = managed_limit m - 1\<rparr>))"

definition x86_guest_memory_query_capacity ::
  "'z x86_guest_memory_manager \<Rightarrow> x86_guest_memory_status + u32 \<times> u32 \<times> u64" where
  "x86_guest_memory_query_capacity m =
     (case x86_guest_memory_query_snapshot m of
        Inl status \<Rightarrow> Inl status
      | Inr snapshot \<Rightarrow>
          if largest_free_pages snapshot > 0xffffffff \<or> total_free_pages snapshot > 0xffffffff
          then Inl X86_GUEST_MEMORY_POISONED
          else Inr (ucast (largest_free_pages snapshot), ucast (total_free_pages snapshot),
                    highest_address snapshot))"

end
