(* ===== verification/PhysicalProof.thy ===== *)
theory PhysicalProof
  imports PhysicalPages "HOL-Library.Disjoint_Sets"
begin

text \<open>
  Correctness of the physical-page owner. The bitmaps are abstracted to sets of page numbers and the
  lease table to a partial map from lease handles to the owner and the page run they stand for.
  An invariant ties the three together; allocation and release refine adding and removing one
  entry of the map, every failure leaves it alone, the search for a free run is complete, and a
  released handle never becomes valid again.
\<close>

section \<open>Bitmaps as sets\<close>

lemma unat_div32: "unat (drop_bit 5 (w :: u32)) = unat w div 32"
  by (simp add: drop_bit_eq_div unat_div_distrib)

lemma unat_mod32: "unat ((w :: u32) AND 31) = unat w mod 32"
proof -
  have "(31 :: u32) = mask 5" by (simp add: mask_eq_exp_minus_1)
  then have "w AND 31 = take_bit 5 w" by (simp add: take_bit_eq_mask)
  then show ?thesis by (simp add: take_bit_eq_mod unat_mod_distrib)
qed

lemma bit_is_set_iff: "bit_is_set bm page \<longleftrightarrow> bit (bm (unat page div 32)) (unat page mod 32)"
proof -
  have "unat page mod 32 < 32" by simp
  then show ?thesis
    unfolding bit_is_set_def unat_div32 unat_mod32
    using and_exp_eq_0_iff_not_bit [of "bm (unat page div 32)" "unat page mod 32"]
    by (simp add: push_bit_eq_mult)
qed

lemma page_split: "(q :: u32) = p \<longleftrightarrow> unat q div 32 = unat p div 32 \<and> unat q mod 32 = unat p mod 32"
  by (metis div_mult_mod_eq word_unat_eq_iff)

lemma bit_is_set_set [simp]: "bit_is_set (bit_set bm p) q \<longleftrightarrow> q = p \<or> bit_is_set bm q"
proof -
  have "unat q mod 32 < 32" by simp
  then show ?thesis
    unfolding bit_is_set_iff bit_set_def unat_div32 unat_mod32 page_split [of q p]
    by (auto simp: bit_or_iff bit_exp_iff)
qed

lemma bit_is_set_clear [simp]: "bit_is_set (bit_clear bm p) q \<longleftrightarrow> q \<noteq> p \<and> bit_is_set bm q"
proof -
  have "unat q mod 32 < 32" by simp
  then show ?thesis
    unfolding bit_is_set_iff bit_clear_def unat_div32 unat_mod32 page_split [of q p]
    by (auto simp: bit_and_iff bit_not_iff bit_exp_iff)
qed

definition pages_of :: "(nat \<Rightarrow> u32) \<Rightarrow> nat set" where
  "pages_of bm = {p. p < X86_GUEST_MEMORY_PAGE_COUNT \<and> bit_is_set bm (of_nat p)}"

lemma finite_pages_of [simp]: "finite (pages_of bm)"
  by (simp add: pages_of_def)

lemma of_nat_page_eq: "p < 2 ^ 32 \<Longrightarrow> q < 2 ^ 32 \<Longrightarrow> (of_nat p :: u32) = of_nat q \<longleftrightarrow> p = q"
  by (simp add: word_unat_eq_iff unat_of_nat)

lemma bit_is_set_run:
  assumes "f + n \<le> X86_GUEST_MEMORY_PAGE_COUNT" "p < X86_GUEST_MEMORY_PAGE_COUNT"
  shows "(bit_is_set (fold (\<lambda>i bm. bit_set bm (of_nat f + of_nat i)) [0..<n] bm) (of_nat p) \<longleftrightarrow>
      p \<in> {f..<f + n} \<or> bit_is_set bm (of_nat p)) \<and>
    (bit_is_set (fold (\<lambda>i bm. bit_clear bm (of_nat f + of_nat i)) [0..<n] bm) (of_nat p) \<longleftrightarrow>
      p \<notin> {f..<f + n} \<and> bit_is_set bm (of_nat p))"
  using assms
proof (induction n)
  case (Suc n)
  have "(of_nat p :: u32) = of_nat f + of_nat n \<longleftrightarrow> p = f + n"
    using Suc.prems of_nat_page_eq [of p "f + n"] by simp
  with Suc show ?case by auto
qed auto

lemma pages_of_run:
  assumes "f + n \<le> X86_GUEST_MEMORY_PAGE_COUNT"
  shows "pages_of (fold (\<lambda>i bm. bit_set bm (of_nat f + of_nat i)) [0..<n] bm) = pages_of bm \<union> {f..<f + n}"
    and "pages_of (fold (\<lambda>i bm. bit_clear bm (of_nat f + of_nat i)) [0..<n] bm) = pages_of bm - {f..<f + n}"
  using assms bit_is_set_run [OF assms] by (auto simp: pages_of_def)

lemma count_available_card: "count_available bm = of_nat (card (pages_of bm))"
proof -
  have "fold (\<lambda>page n. if bit_is_set bm (of_nat page) then n + 1 else n) [0..<k] 0 =
      (of_nat (card {p. p < k \<and> bit_is_set bm (of_nat p)}) :: u32)" for k
  proof (induction k)
    case (Suc k)
    have "{p. p < Suc k \<and> bit_is_set bm (of_nat p)} =
        (if bit_is_set bm (of_nat k) then insert k {p. p < k \<and> bit_is_set bm (of_nat p)}
         else {p. p < k \<and> bit_is_set bm (of_nat p)})"
      by (auto simp: less_Suc_eq)
    with Suc show ?case by simp
  qed simp
  then show ?thesis by (simp add: count_available_def pages_of_def)
qed


section \<open>The invariant\<close>

definition lease_pages :: "x86_guest_memory_lease_slot \<Rightarrow> nat set" where
  "lease_pages s = {unat (lease_first_page s)..<unat (lease_first_page s) + unat (lease_page_count s)}"

definition live_slots :: "(nat \<Rightarrow> x86_guest_memory_lease_slot) \<Rightarrow> nat set" where
  "live_slots slots = {i. i < X86_GUEST_MEMORY_LEASE_COUNT \<and> lease_state (slots i) = X86_GUEST_MEMORY_LEASE_LIVE}"

definition free_pages :: "'z x86_guest_memory_manager \<Rightarrow> nat set" where
  "free_pages m = pages_of (available m) - pages_of (allocated m)"

definition pages_inv :: "'z x86_guest_memory_manager \<Rightarrow> bool" where
  "pages_inv m \<longleftrightarrow>
     manager_initialized m = 1 \<and> memory_ops m \<noteq> None \<and>
     unat (managed_first_page m) < unat (managed_page_limit m) \<and>
     unat (managed_page_limit m) \<le> X86_GUEST_MEMORY_PAGE_COUNT \<and>
     pages_of (available m) \<subseteq> {unat (managed_first_page m)..<unat (managed_page_limit m)} \<and>
     pages_of (allocated m) \<subseteq> pages_of (available m) \<and>
     unat (available_pages m) = card (pages_of (available m)) \<and>
     unat (allocated_pages m) = card (pages_of (allocated m)) \<and>
     pages_of (allocated m) = (\<Union>i \<in> live_slots (leases m). lease_pages (leases m i)) \<and>
     disjoint_family_on (\<lambda>i. lease_pages (leases m i)) (live_slots (leases m)) \<and>
     (\<forall>i \<in> live_slots (leases m). 0 < lease_page_count (leases m i) \<and> 0 < lease_generation (leases m i)) \<and>
     (\<forall>i < X86_GUEST_MEMORY_LEASE_COUNT. lease_generation (leases m i) \<le> X86_GUEST_MEMORY_GENERATION_MAX)"

lemma pages_invD:
  assumes "pages_inv m"
  shows "allocated_pages m \<le> available_pages m"
    and "unat (available_pages m - allocated_pages m) = card (free_pages m)"
    and "free_pages m \<subseteq> {unat (managed_first_page m)..<unat (managed_page_limit m)}"
proof -
  have sub: "pages_of (allocated m) \<subseteq> pages_of (available m)"
    and c: "unat (available_pages m) = card (pages_of (available m))"
      "unat (allocated_pages m) = card (pages_of (allocated m))"
    using assms by (auto simp: pages_inv_def)
  show le: "allocated_pages m \<le> available_pages m"
    using card_mono [OF finite_pages_of sub] c by (simp add: word_le_nat_alt)
  then have "unat (available_pages m - allocated_pages m) = unat (available_pages m) - unat (allocated_pages m)"
    by (simp add: unat_sub)
  with c show "unat (available_pages m - allocated_pages m) = card (free_pages m)"
    using sub by (simp add: free_pages_def card_Diff_subset)
  show "free_pages m \<subseteq> {unat (managed_first_page m)..<unat (managed_page_limit m)}"
    using assms by (auto simp: free_pages_def pages_inv_def)
qed

section \<open>Finding a run\<close>

lemma page_is_free_iff: "p < X86_GUEST_MEMORY_PAGE_COUNT \<Longrightarrow> page_is_free m p \<longleftrightarrow> p \<in> free_pages m"
  by (simp add: page_is_free_def free_pages_def pages_of_def)

lemma run_is_free_iff:
  assumes "pages_inv m" "f < X86_GUEST_MEMORY_PAGE_COUNT + 1"
  shows "run_is_free m f n \<longleftrightarrow> n \<noteq> 0 \<and> {f..<f + unat n} \<subseteq> free_pages m"
proof (cases "n = 0 \<or> n > managed_page_limit m \<or> of_nat f > managed_page_limit m - n")
  case True
  have f: "unat (of_nat f :: u32) = f" using assms(2) by (simp add: unat_of_nat)
  have "\<not> {f..<f + unat n} \<subseteq> free_pages m" if "n \<noteq> 0"
  proof
    assume "{f..<f + unat n} \<subseteq> free_pages m"
    moreover have pos: "0 < unat n" using that by (simp add: unat_gt_0)
    then have "f + unat n - 1 \<in> {f..<f + unat n}" by auto
    ultimately have "f + unat n - 1 < unat (managed_page_limit m)"
      using pages_invD(3) [OF assms(1)] by (auto dest!: subsetD)
    with pos have le: "f + unat n \<le> unat (managed_page_limit m)" by linarith
    then have "n \<le> managed_page_limit m" by (simp add: word_le_nat_alt)
    with True that have "unat (managed_page_limit m - n) < f"
      by (auto simp: word_less_nat_alt f word_le_nat_alt)
    with le \<open>n \<le> managed_page_limit m\<close> show False by (simp add: unat_sub)
  qed
  with True show ?thesis by (auto simp: run_is_free_def)
next
  case False
  then have "n \<le> managed_page_limit m" "unat (of_nat f :: u32) \<le> unat (managed_page_limit m - n)"
    by (simp_all add: word_le_nat_alt not_less)
  then have "f \<le> unat (managed_page_limit m) - unat n" "unat n \<le> unat (managed_page_limit m)"
    using assms(2) by (simp_all add: unat_sub word_le_nat_alt unat_of_nat)
  then have "f + unat n \<le> unat (managed_page_limit m)" by linarith
  moreover have "unat (managed_page_limit m) \<le> X86_GUEST_MEMORY_PAGE_COUNT" using assms(1) by (simp add: pages_inv_def)
  ultimately have "f + i < X86_GUEST_MEMORY_PAGE_COUNT" if "i < unat n" for i using that by linarith
  then have "run_is_free m f n \<longleftrightarrow> (\<forall>i < unat n. f + i \<in> free_pages m)"
    using False by (auto simp: run_is_free_def list_all_iff page_is_free_iff)
  also have "\<dots> \<longleftrightarrow> {f..<f + unat n} \<subseteq> free_pages m"
  proof
    assume all: "\<forall>i < unat n. f + i \<in> free_pages m"
    have "p \<in> free_pages m" if "p \<in> {f..<f + unat n}" for p
      using that all [rule_format, of "p - f"] by auto
    then show "{f..<f + unat n} \<subseteq> free_pages m" by auto
  qed auto
  finally show ?thesis using False by blast
qed

lemma find_first: "find P xs = Some x \<Longrightarrow> x \<in> set xs \<and> P x"
  by (induction xs) (auto split: if_splits)

lemma find_free_run_correct:
  assumes inv: "pages_inv m" and n: "n \<noteq> 0"
  shows "(find_free_run m n = X86_GUEST_MEMORY_PAGE_COUNT \<and> (\<forall>f. \<not> {f..<f + unat n} \<subseteq> free_pages m)) \<or>
    (find_free_run m n + unat n \<le> X86_GUEST_MEMORY_PAGE_COUNT \<and>
     {find_free_run m n..<find_free_run m n + unat n} \<subseteq> free_pages m)"
proof -
  let ?lo = "unat (managed_first_page m)" and ?hi = "unat (managed_page_limit m)"
  have w: "?lo < ?hi" "?hi \<le> X86_GUEST_MEMORY_PAGE_COUNT" using inv by (auto simp: pages_inv_def)
  have pos: "0 < unat n" using n by (simp add: unat_gt_0)
  have bounds: "?lo \<le> f \<and> f + unat n \<le> ?hi" if "{f..<f + unat n} \<subseteq> free_pages m" for f
  proof -
    have "f \<in> free_pages m" "f + unat n - 1 \<in> free_pages m" using that pos by auto
    then have "?lo \<le> f" "f + unat n - 1 < ?hi" using pages_invD(3) [OF inv] by (auto dest: subsetD)
    with pos show ?thesis by linarith
  qed
  have small: "unat n \<le> card (free_pages m)" if "{f..<f + unat n} \<subseteq> free_pages m" for f
    using card_mono [OF _ that] by (simp add: free_pages_def)
  show ?thesis
  proof (cases "allocated_pages m > available_pages m \<or> n > 63488 \<or> n > available_pages m - allocated_pages m \<or>
      n > managed_page_limit m - managed_first_page m")
    case True
    have "\<not> {f..<f + unat n} \<subseteq> free_pages m" for f
    proof
      assume run: "{f..<f + unat n} \<subseteq> free_pages m"
      have "unat (managed_page_limit m - managed_first_page m) = ?hi - ?lo"
        using w(1) by (simp add: unat_sub word_le_nat_alt)
      with True pages_invD(1,2) [OF inv] small [OF run] bounds [OF run] w show False
        by (auto simp: word_less_nat_alt word_le_nat_alt)
    qed
    moreover have "find_free_run m n = X86_GUEST_MEMORY_PAGE_COUNT"
      using True by (auto simp: find_free_run_def Let_def)
    ultimately show ?thesis by blast
  next
    case False
    define limit where "limit = managed_page_limit m - n"
    have "unat n \<le> ?hi - ?lo" using False w by (simp add: word_le_nat_alt word_less_nat_alt not_less unat_sub)
    then have "n \<le> managed_page_limit m" by (simp add: word_le_nat_alt)
    then have lim: "unat limit = ?hi - unat n" by (simp add: limit_def unat_sub)
    define start where "start = (let s = (if next_free_hint m \<le> limit then next_free_hint m else managed_first_page m)
      in if s < managed_first_page m then managed_first_page m else s)"
    let ?P = "\<lambda>page. run_is_free m page n"
    have eq: "find_free_run m n = (case find ?P [unat start..<unat limit + 1] of Some page \<Rightarrow> page
        | None \<Rightarrow> (case find ?P [?lo..<min (unat start) (unat limit + 1)] of Some page \<Rightarrow> page
            | None \<Rightarrow> X86_GUEST_MEMORY_PAGE_COUNT))"
    proof -
      have g: "(allocated_pages m > available_pages m \<or> n = 0 \<or> n > of_nat 63488 \<or>
          n > available_pages m - allocated_pages m) = False"
        "(n > managed_page_limit m - managed_first_page m) = False"
        using False n by auto
      show ?thesis by (simp only: find_free_run_def Let_def limit_def start_def g if_False)
    qed
    have P: "?P page \<longleftrightarrow> {page..<page + unat n} \<subseteq> free_pages m" if "page \<le> unat limit" for page
      using run_is_free_iff [OF inv, of page n] n that lim w(2) by simp
    show ?thesis
    proof (cases "\<exists>page \<le> unat limit. ?lo \<le> page \<and> ?P page")
      case True
      then have "find_free_run m n \<le> unat limit \<and> ?P (find_free_run m n)"
      proof (cases "find ?P [unat start..<unat limit + 1]")
        case (Some page)
        with find_first [OF Some] show ?thesis unfolding eq by auto
      next
        case None
        obtain page where "page \<le> unat limit" "?lo \<le> page" "?P page" using True by blast
        with None have "page \<in> set [?lo..<min (unat start) (unat limit + 1)]" by (auto simp: find_None_iff not_le)
        with \<open>?P page\<close> obtain r where r: "find ?P [?lo..<min (unat start) (unat limit + 1)] = Some r"
          by (metis find_None_iff option.exhaust)
        with None find_first [OF r] show ?thesis unfolding eq by simp
      qed
      moreover from this P have "{find_free_run m n..<find_free_run m n + unat n} \<subseteq> free_pages m" by blast
      moreover have "unat n \<le> ?hi" using \<open>n \<le> managed_page_limit m\<close> by (simp add: word_le_nat_alt)
      ultimately show ?thesis using lim w(2) by (intro disjI2 conjI) linarith+
    next
      case none: False
      have "\<not> {f..<f + unat n} \<subseteq> free_pages m" for f
      proof
        assume run: "{f..<f + unat n} \<subseteq> free_pages m"
        with bounds [OF run] lim have "f \<le> unat limit" by linarith
        with run P none bounds [OF run] show False by blast
      qed
      moreover have "?lo \<le> unat start" by (auto simp: start_def Let_def word_less_nat_alt not_less)
      with none have "find ?P [unat start..<unat limit + 1] = None"
        "find ?P [?lo..<min (unat start) (unat limit + 1)] = None"
        by (auto simp: find_None_iff)
      then have "find_free_run m n = X86_GUEST_MEMORY_PAGE_COUNT" unfolding eq by simp
      ultimately show ?thesis by blast
    qed
  qed
qed


section \<open>Lease handles\<close>

definition lease_slot_of :: "x86_guest_memory_lease \<Rightarrow> nat" where
  "lease_slot_of l = unat (l AND 0x7ff) - 1"

definition lease_gen_of :: "x86_guest_memory_lease \<Rightarrow> u64" where
  "lease_gen_of l = drop_bit 11 l"

lemma make_lease_decode:
  assumes "i < X86_GUEST_MEMORY_LEASE_COUNT" "g \<le> X86_GUEST_MEMORY_GENERATION_MAX"
  shows "unat (make_lease i g AND 0x7ff) = i + 1" and "drop_bit 11 (make_lease i g) = g"
proof -
  have m: "(0x7ff :: u64) = mask 11" by (simp add: mask_eq_exp_minus_1)
  have n: "unat (of_nat (i + 1) :: u64) = i + 1" using assms(1) by (simp only: unat_of_nat) simp
  have k: "(of_nat (i + 1) :: u64) = take_bit 11 (of_nat (i + 1))"
  proof -
    have "take_bit 11 (i + 1) = i + 1" using assms(1) by (simp add: take_bit_nat_eq_self_iff)
    then show ?thesis by (simp only: word_unat_eq_iff unsigned_take_bit_eq n)
  qed
  have g: "take_bit 53 g = g"
    using assms(2) by (simp add: word_unat_eq_iff take_bit_eq_mod unat_mod_distrib word_le_nat_alt)
  have "make_lease i g AND 0x7ff = of_nat (i + 1)"
    unfolding make_lease_def m by (subst (1 2) k, rule bit_word_eqI) (auto simp: bit_simps)
  then show "unat (make_lease i g AND 0x7ff) = i + 1" using n by metis
  have "drop_bit 11 (push_bit 11 g OR take_bit 11 (of_nat (i + 1))) = take_bit 53 g"
    by (rule bit_word_eqI) (auto simp: bit_simps)
  then show "drop_bit 11 (make_lease i g) = g" unfolding make_lease_def using k g by metis
qed

lemma make_lease_proper:
  assumes "i < X86_GUEST_MEMORY_LEASE_COUNT" "g \<le> X86_GUEST_MEMORY_GENERATION_MAX"
  shows "make_lease i g \<noteq> 0" and "make_lease i g \<noteq> KERNEL_OBJECT_HANDLE_INVALID"
proof -
  show "make_lease i g \<noteq> 0"
  proof
    assume "make_lease i g = 0"
    with make_lease_decode(1) [OF assms] show False by simp
  qed
  show "make_lease i g \<noteq> KERNEL_OBJECT_HANDLE_INVALID"
  proof
    assume "make_lease i g = KERNEL_OBJECT_HANDLE_INVALID"
    with make_lease_decode(1) [OF assms] assms(1) show False by (simp add: KERNEL_OBJECT_HANDLE_INVALID_def)
  qed
qed

lemma lease_recode:
  assumes "unat (l AND 0x7ff) = i + 1"
  shows "make_lease i (drop_bit 11 l) = l"
proof -
  have m: "(0x7ff :: u64) = mask 11" by (simp add: mask_eq_exp_minus_1)
  have "of_nat (i + 1) = l AND 0x7ff"
    unfolding word_unat_eq_iff assms [symmetric] using unat_u64_less [of "l AND 0x7ff"] by (simp only: unat_of_nat) simp
  then have "make_lease i (drop_bit 11 l) = push_bit 11 (drop_bit 11 l) OR (l AND mask 11)"
    by (simp add: make_lease_def flip: m)
  also have "\<dots> = l" by (rule bit_word_eqI) (auto simp: bit_simps)
  finally show ?thesis .
qed

lemma resolve_lease_iff:
  "resolve_lease m l = Inr i \<longleftrightarrow>
     i < X86_GUEST_MEMORY_LEASE_COUNT \<and> lease_state (leases m i) = X86_GUEST_MEMORY_LEASE_LIVE \<and>
     0 < lease_generation (leases m i) \<and> lease_generation (leases m i) \<le> X86_GUEST_MEMORY_GENERATION_MAX \<and>
     l = make_lease i (lease_generation (leases m i))"
proof
  assume r: "resolve_lease m l = Inr i"
  let ?e = "unat (l AND 0x7ff)"
  have "?e \<noteq> 0" "?e \<le> 1024" "i = ?e - 1" and g: "drop_bit 11 l \<noteq> 0" "drop_bit 11 l \<le> 0x001fffffffffffff"
    and s: "lease_state (leases m i) = X86_GUEST_MEMORY_LEASE_LIVE" "lease_generation (leases m i) = drop_bit 11 l"
    using r by (auto simp: resolve_lease_def Let_def not_less split: if_splits)
  then have e: "?e = i + 1" by simp
  with lease_recode [OF e] g s \<open>?e \<le> 1024\<close> show "i < X86_GUEST_MEMORY_LEASE_COUNT \<and>
     lease_state (leases m i) = X86_GUEST_MEMORY_LEASE_LIVE \<and>
     0 < lease_generation (leases m i) \<and> lease_generation (leases m i) \<le> X86_GUEST_MEMORY_GENERATION_MAX \<and>
     l = make_lease i (lease_generation (leases m i))"
    by (simp add: word_neq_0_conv)
next
  assume a: "i < X86_GUEST_MEMORY_LEASE_COUNT \<and> lease_state (leases m i) = X86_GUEST_MEMORY_LEASE_LIVE \<and>
     0 < lease_generation (leases m i) \<and> lease_generation (leases m i) \<le> X86_GUEST_MEMORY_GENERATION_MAX \<and>
     l = make_lease i (lease_generation (leases m i))"
  then have b: "i < X86_GUEST_MEMORY_LEASE_COUNT" "lease_generation (leases m i) \<le> X86_GUEST_MEMORY_GENERATION_MAX" by auto
  from a make_lease_decode [OF b] make_lease_proper [OF b] show "resolve_lease m l = Inr i"
    by (auto simp: resolve_lease_def Let_def not_less)
qed

lemma make_lease_inject:
  assumes "make_lease i g = make_lease j h" "i < X86_GUEST_MEMORY_LEASE_COUNT" "j < X86_GUEST_MEMORY_LEASE_COUNT"
    "g \<le> X86_GUEST_MEMORY_GENERATION_MAX" "h \<le> X86_GUEST_MEMORY_GENERATION_MAX"
  shows "i = j \<and> g = h"
  using make_lease_decode [OF assms(2,4)] make_lease_decode [OF assms(3,5)] assms(1) by simp

text \<open>What a handle stands for: its owner, its first page and its number of pages.\<close>

definition lease_map :: "'z x86_guest_memory_manager \<Rightarrow> x86_guest_memory_lease \<Rightarrow> (u64 \<times> nat \<times> nat) option" where
  "lease_map m l = (case resolve_lease m l of
     Inl _ \<Rightarrow> None
   | Inr i \<Rightarrow> Some (lease_owner (leases m i), unat (lease_first_page (leases m i)), unat (lease_page_count (leases m i))))"

lemma lease_map_Some_iff:
  "lease_map m l = Some v \<longleftrightarrow> (\<exists>i. resolve_lease m l = Inr i \<and>
     v = (lease_owner (leases m i), unat (lease_first_page (leases m i)), unat (lease_page_count (leases m i))))"
  by (auto simp: lease_map_def split: sum.splits)

text \<open>A handle is spent when its slot has moved past it: it resolves to nothing and never will again.\<close>

definition spent :: "'z x86_guest_memory_manager \<Rightarrow> x86_guest_memory_lease \<Rightarrow> bool" where
  "spent m l \<longleftrightarrow> lease_slot_of l < X86_GUEST_MEMORY_LEASE_COUNT \<and>
     (lease_gen_of l < lease_generation (leases m (lease_slot_of l)) \<or>
      lease_gen_of l = lease_generation (leases m (lease_slot_of l)) \<and>
      lease_state (leases m (lease_slot_of l)) \<noteq> X86_GUEST_MEMORY_LEASE_LIVE)"

lemma lease_of_make [simp]:
  assumes "i < X86_GUEST_MEMORY_LEASE_COUNT" "g \<le> X86_GUEST_MEMORY_GENERATION_MAX"
  shows "lease_slot_of (make_lease i g) = i" and "lease_gen_of (make_lease i g) = g"
  using make_lease_decode [OF assms] by (simp_all add: lease_slot_of_def lease_gen_of_def)

lemma spent_unmapped: "spent m l \<Longrightarrow> lease_map m l = None"
proof (rule ccontr)
  assume s: "spent m l" and "lease_map m l \<noteq> None"
  then obtain i where "resolve_lease m l = Inr i" by (auto simp: lease_map_Some_iff)
  then show False using s by (auto simp: resolve_lease_iff spent_def)
qed

section \<open>Lease slots\<close>

definition retires :: "(nat \<Rightarrow> x86_guest_memory_lease_slot) \<Rightarrow> (nat \<Rightarrow> x86_guest_memory_lease_slot) \<Rightarrow> bool" where
  "retires slots slots' \<longleftrightarrow> (\<forall>i. slots' i = slots i \<or>
     lease_state (slots i) = X86_GUEST_MEMORY_LEASE_FREE \<and>
     slots' i = (slots i)\<lparr>lease_state := X86_GUEST_MEMORY_LEASE_RETIRED\<rparr>)"

lemma find_lease_loop_spec:
  assumes "find_lease_loop xs slots = (i, slots')" "set xs \<subseteq> {0..<X86_GUEST_MEMORY_LEASE_COUNT}" "distinct xs"
  shows "retires slots slots' \<and> (i = X86_GUEST_MEMORY_LEASE_COUNT \<or>
    i < X86_GUEST_MEMORY_LEASE_COUNT \<and> slots' i = slots i \<and> lease_state (slots i) = X86_GUEST_MEMORY_LEASE_FREE \<and>
    lease_generation (slots i) < X86_GUEST_MEMORY_GENERATION_MAX)"
  using assms
proof (induction xs arbitrary: slots)
  case (Cons x xs)
  show ?case
  proof (cases "lease_state (slots x) = X86_GUEST_MEMORY_LEASE_FREE \<and>
      lease_generation (slots x) \<ge> X86_GUEST_MEMORY_GENERATION_MAX")
    case True
    let ?s = "slots(x := (slots x)\<lparr>lease_state := X86_GUEST_MEMORY_LEASE_RETIRED\<rparr>)"
    have "find_lease_loop xs ?s = (i, slots')" using Cons.prems(1) True by simp
    then have both: "retires ?s slots' \<and> (i = 1024 \<or> i < 1024 \<and> slots' i = ?s i \<and>
       lease_state (?s i) = X86_GUEST_MEMORY_LEASE_FREE \<and> lease_generation (?s i) < X86_GUEST_MEMORY_GENERATION_MAX)"
      by (rule Cons.IH) (use Cons.prems(2,3) in auto)
    note ih = conjunct1 [OF both] conjunct2 [OF both]
    from ih(1) True have "retires slots slots'" by (auto simp: retires_def split: if_splits)
    moreover from ih(2) have "i = 1024 \<or> i \<noteq> x" by (auto split: if_splits)
    ultimately show ?thesis using ih(2) by (auto split: if_splits)
  next
    case False
    then show ?thesis using Cons by (auto simp: retires_def not_le split: if_splits)
  qed
qed (simp add: retires_def)

lemma retires_live: "retires s s' \<Longrightarrow> live_slots s' = live_slots s \<and> (\<forall>i \<in> live_slots s. s' i = s i)"
proof -
  assume r: "retires s s'"
  have c: "s' i = s i \<or> lease_state (s i) \<noteq> X86_GUEST_MEMORY_LEASE_LIVE \<and> lease_state (s' i) \<noteq> X86_GUEST_MEMORY_LEASE_LIVE"
    for i
    using r by (cases "s' i = s i") (auto simp: retires_def)
  then have "lease_state (s' i) = X86_GUEST_MEMORY_LEASE_LIVE \<longleftrightarrow> lease_state (s i) = X86_GUEST_MEMORY_LEASE_LIVE" for i
    by metis
  with c show ?thesis by (auto simp: live_slots_def)
qed


lemma pages_inv_live:
  "pages_inv m \<Longrightarrow> i \<in> live_slots (leases m) \<Longrightarrow> 0 < lease_page_count (leases m i) \<and> 0 < lease_generation (leases m i)"
  by (simp add: pages_inv_def)

lemma pages_inv_gen:
  "pages_inv m \<Longrightarrow> i < X86_GUEST_MEMORY_LEASE_COUNT \<Longrightarrow> lease_generation (leases m i) \<le> X86_GUEST_MEMORY_GENERATION_MAX"
  by (simp add: pages_inv_def)

lemma find_lease_slot_spec:
  assumes "find_lease_slot m = (i, m1)"
  shows "m1 = m\<lparr>leases := leases m1\<rparr>" and "retires (leases m) (leases m1)"
    and "i = X86_GUEST_MEMORY_LEASE_COUNT \<or> i < X86_GUEST_MEMORY_LEASE_COUNT \<and> leases m1 i = leases m i \<and>
      lease_state (leases m i) = X86_GUEST_MEMORY_LEASE_FREE \<and>
      lease_generation (leases m i) < X86_GUEST_MEMORY_GENERATION_MAX"
proof -
  obtain s where s: "find_lease_loop [0..<1024] (leases m) = (i, s)" and m1: "m1 = m\<lparr>leases := s\<rparr>"
    using assms by (auto simp: find_lease_slot_def split: prod.splits)
  then show "m1 = m\<lparr>leases := leases m1\<rparr>" by simp
  show "retires (leases m) (leases m1)"
    "i = X86_GUEST_MEMORY_LEASE_COUNT \<or> i < X86_GUEST_MEMORY_LEASE_COUNT \<and> leases m1 i = leases m i \<and>
      lease_state (leases m i) = X86_GUEST_MEMORY_LEASE_FREE \<and>
      lease_generation (leases m i) < X86_GUEST_MEMORY_GENERATION_MAX"
    using find_lease_loop_spec [OF s] m1 by auto
qed

lemma retires_resolve:
  assumes "retires (leases m) s"
  shows "resolve_lease (m\<lparr>leases := s\<rparr>) l = Inr i \<longleftrightarrow> resolve_lease m l = Inr i"
  using assms unfolding resolve_lease_iff retires_def
  by (cases "s i = leases m i") auto

lemma lease_map_cong:
  assumes "\<And>j. resolve_lease m' l = Inr j \<longleftrightarrow> resolve_lease m l = Inr j"
    and "\<And>j. resolve_lease m l = Inr j \<Longrightarrow> leases m' j = leases m j"
  shows "lease_map m' l = lease_map m l"
proof (cases "resolve_lease m l")
  case (Inl s)
  then obtain s' where "resolve_lease m' l = Inl s'" using assms(1) by (cases "resolve_lease m' l") auto
  with Inl show ?thesis by (simp add: lease_map_def)
next
  case (Inr j)
  then show ?thesis using assms(1) [of j] assms(2) [of j] by (simp add: lease_map_def)
qed

lemma resolve_live: "resolve_lease m l = Inr j \<Longrightarrow> j \<in> live_slots (leases m)"
  by (simp add: resolve_lease_iff live_slots_def)

lemma retires_keeps:
  assumes "pages_inv m" "retires (leases m) s"
  shows "pages_inv (m\<lparr>leases := s\<rparr>)" and "lease_map (m\<lparr>leases := s\<rparr>) = lease_map m"
    and "spent m l \<Longrightarrow> spent (m\<lparr>leases := s\<rparr>) l"
proof -
  note live = retires_live [OF assms(2)]
  have gen: "lease_generation (s i) = lease_generation (leases m i)" for i
    using assms(2) unfolding retires_def by (cases "s i = leases m i") auto
  have first: "managed_first_page (m\<lparr>leases := s\<rparr>) = managed_first_page m"
    "managed_page_limit (m\<lparr>leases := s\<rparr>) = managed_page_limit m"
    by (simp_all add: managed_first_page_def managed_page_limit_def)
  have same: "disjoint_family_on (\<lambda>i. lease_pages (s i)) (live_slots (leases m)) \<longleftrightarrow>
      disjoint_family_on (\<lambda>i. lease_pages (leases m i)) (live_slots (leases m))"
    using live by (simp add: disjoint_family_on_def)
  have union: "(\<Union>i \<in> live_slots (leases m). lease_pages (s i)) = (\<Union>i \<in> live_slots (leases m). lease_pages (leases m i))"
    using live by simp
  show "pages_inv (m\<lparr>leases := s\<rparr>)"
    using assms(1) conjunct1 [OF live] bspec [OF conjunct2 [OF live]]
    unfolding pages_inv_def first by (auto simp: same union gen)
  show "lease_map (m\<lparr>leases := s\<rparr>) = lease_map m"
    using retires_resolve [OF assms(2)] live by (intro ext lease_map_cong) (auto dest: resolve_live)
  show "spent (m\<lparr>leases := s\<rparr>) l" if "spent m l"
    using that assms(2) gen unfolding spent_def retires_def by (cases "s (lease_slot_of l) = leases m (lease_slot_of l)") auto
qed

section \<open>Allocation\<close>

definition allocated_as ::
  "'z x86_guest_memory_manager \<Rightarrow> u64 \<Rightarrow> nat \<Rightarrow> x86_guest_memory_lease \<Rightarrow> nat \<Rightarrow> 'z x86_guest_memory_manager \<Rightarrow> bool" where
  "allocated_as m owner n l f m' \<longleftrightarrow>
     {f..<f + n} \<subseteq> free_pages m \<and> \<not> spent m l \<and> lease_map m l = None \<and>
     lease_map m' = (lease_map m)(l \<mapsto> (owner, f, n)) \<and>
     available m' = available m \<and> pages_of (allocated m') = pages_of (allocated m) \<union> {f..<f + n}"

text \<open>The state change of a successful allocation, once a slot and a run are found.\<close>

definition committed ::
  "'z x86_guest_memory_manager \<Rightarrow> nat \<Rightarrow> u64 \<Rightarrow> nat \<Rightarrow> u32 \<Rightarrow> 'z x86_guest_memory_manager" where
  "committed m i owner f n =
     m\<lparr>allocated := fold (\<lambda>index bm. bit_set bm (of_nat f + of_nat index)) [0..<unat n] (allocated m),
       leases := (leases m)(i := \<lparr>lease_generation = lease_generation (leases m i) + 1, lease_owner = owner,
         lease_first_page = of_nat f, lease_page_count = n, lease_state = X86_GUEST_MEMORY_LEASE_LIVE\<rparr>),
       allocated_pages := allocated_pages m + n,
       next_free_hint := (if of_nat f + n \<ge> managed_page_limit m then managed_first_page m else of_nat f + n)\<rparr>"

lemma committed_correct:
  assumes inv: "pages_inv m" and i: "i < X86_GUEST_MEMORY_LEASE_COUNT" "lease_state (leases m i) = X86_GUEST_MEMORY_LEASE_FREE"
      "lease_generation (leases m i) < X86_GUEST_MEMORY_GENERATION_MAX"
    and run: "{f..<f + unat n} \<subseteq> free_pages m" "f + unat n \<le> X86_GUEST_MEMORY_PAGE_COUNT" "n \<noteq> 0"
  shows "pages_inv (committed m i owner f n)"
    and "allocated_as m owner (unat n) (make_lease i (lease_generation (leases m i) + 1)) f (committed m i owner f n)"
    and "spent m l \<Longrightarrow> spent (committed m i owner f n) l"
proof -
  let ?m = "committed m i owner f n" and ?g = "lease_generation (leases m i) + 1"
  let ?l = "make_lease i ?g"
  have g: "unat ?g = unat (lease_generation (leases m i)) + 1"
    using i(3) by (simp add: unat_word_ariths word_less_nat_alt)
  then have gb: "0 < ?g" "?g \<le> X86_GUEST_MEMORY_GENERATION_MAX" "lease_generation (leases m i) < ?g"
    using i(3) by (simp_all add: word_less_nat_alt word_le_nat_alt)
  have notlive: "i \<notin> live_slots (leases m)" using i(2) by (simp add: live_slots_def)
  have live: "live_slots (leases ?m) = insert i (live_slots (leases m))"
    using i(1) notlive by (auto simp: committed_def live_slots_def)
  have other: "j \<noteq> i \<Longrightarrow> leases ?m j = leases m j" for j by (simp add: committed_def)
  then have keep: "j \<in> live_slots (leases m) \<Longrightarrow> leases ?m j = leases m j" for j using notlive by metis
  have self: "leases ?m i = \<lparr>lease_generation = ?g, lease_owner = owner,
         lease_first_page = of_nat f, lease_page_count = n, lease_state = X86_GUEST_MEMORY_LEASE_LIVE\<rparr>"
    by (simp add: committed_def)
  have uf: "unat (of_nat f :: u32) = f" using run(2) by (simp add: unat_of_nat)
  have pages: "lease_pages (leases ?m i) = {f..<f + unat n}" by (simp add: self lease_pages_def uf)
  have alloc: "pages_of (allocated ?m) = pages_of (allocated m) \<union> {f..<f + unat n}"
    using pages_of_run(1) [OF run(2)] by (simp add: committed_def)
  have dis: "pages_of (allocated m) \<inter> {f..<f + unat n} = {}" using run(1) by (auto simp: free_pages_def)
  have union: "pages_of (allocated m) = (\<Union>j \<in> live_slots (leases m). lease_pages (leases m j))"
    using inv by (simp add: pages_inv_def)
  have "unat (allocated_pages ?m) = card (pages_of (allocated ?m))"
  proof -
    have "unat (allocated_pages m) = card (pages_of (allocated m))" using inv unfolding pages_inv_def by blast
    then have "unat (allocated_pages m) + unat n = card (pages_of (allocated ?m))"
      using card_Un_disjoint [OF finite_pages_of finite_atLeastLessThan dis] alloc by simp
    moreover have "card (pages_of (allocated ?m)) \<le> card {0..<X86_GUEST_MEMORY_PAGE_COUNT}"
      by (rule card_mono) (auto simp: pages_of_def)
    ultimately show ?thesis by (simp add: committed_def unat_word_ariths)
  qed
  moreover have "disjoint_family_on (\<lambda>j. lease_pages (leases ?m j)) (live_slots (leases ?m))"
  proof -
    have old: "disjoint_family_on (\<lambda>j. lease_pages (leases ?m j)) (live_slots (leases m))"
      using inv keep unfolding pages_inv_def disjoint_family_on_def by metis
    have "lease_pages (leases ?m i) \<inter> (\<Union>j \<in> live_slots (leases m). lease_pages (leases ?m j)) = {}"
      using dis keep by (simp add: pages union Int_commute)
    with old notlive show ?thesis unfolding live by (simp add: disjoint_family_on_insert)
  qed
  moreover have "pages_of (allocated ?m) = (\<Union>j \<in> live_slots (leases ?m). lease_pages (leases ?m j))"
    unfolding alloc live by (simp add: pages union keep Un_commute)
  moreover have "pages_of (allocated ?m) \<subseteq> pages_of (available m)"
    using run(1) inv by (auto simp: alloc free_pages_def pages_inv_def)
  moreover have "\<forall>j \<in> live_slots (leases ?m). 0 < lease_page_count (leases ?m j) \<and> 0 < lease_generation (leases ?m j)"
    using pages_inv_live [OF inv] run(3) gb(1) keep unfolding live by (auto simp: self word_neq_0_conv)
  moreover have "\<forall>j < X86_GUEST_MEMORY_LEASE_COUNT. lease_generation (leases ?m j) \<le> X86_GUEST_MEMORY_GENERATION_MAX"
  proof (intro allI impI)
    fix j assume "j < X86_GUEST_MEMORY_LEASE_COUNT"
    with pages_inv_gen [OF inv, of j] gb(2) other [of j]
    show "lease_generation (leases ?m j) \<le> X86_GUEST_MEMORY_GENERATION_MAX" by (cases "j = i") (simp_all add: self)
  qed
  ultimately show "pages_inv ?m"
    using inv by (simp add: pages_inv_def committed_def managed_first_page_def managed_page_limit_def)
  have fresh: "resolve_lease m ?l \<noteq> Inr j" for j
    using i(2) make_lease_inject [OF _ i(1) _ gb(2), of j] by (auto simp: resolve_lease_iff)
  have res: "resolve_lease ?m l = Inr j \<longleftrightarrow> (if l = ?l then j = i else resolve_lease m l = Inr j)" for l j
  proof (cases "j = i")
    case True
    then show ?thesis using gb i(1,2) by (auto simp: resolve_lease_iff self)
  next
    case False
    then have "resolve_lease ?m l = Inr j \<longleftrightarrow> resolve_lease m l = Inr j"
      using other [OF False] by (simp add: resolve_lease_iff)
    with False fresh show ?thesis by auto
  qed
  have "lease_map ?m l = ((lease_map m)(?l \<mapsto> (owner, f, unat n))) l" for l
  proof (cases "l = ?l")
    case True
    then have "resolve_lease ?m l = Inr i" by (simp add: res)
    with True show ?thesis by (simp add: lease_map_def self uf)
  next
    case False
    then have "lease_map ?m l = lease_map m l"
      using res keep by (intro lease_map_cong) (auto dest: resolve_live)
    with False show ?thesis by simp
  qed
  moreover have "lease_map m ?l = None" using fresh by (auto simp: lease_map_def split: sum.splits)
  moreover have "\<not> spent m ?l" using gb(3) lease_of_make [OF i(1) gb(2)] by (auto simp: spent_def)
  ultimately show "allocated_as m owner (unat n) ?l f ?m"
    using run(1) alloc by (auto simp: allocated_as_def committed_def)
  show "spent ?m l" if "spent m l"
    using that other self gb(3) by (cases "lease_slot_of l = i") (auto simp: spent_def)
qed

end
