(* ===== verification/PhysicalLeases.thy ===== *)
theory PhysicalLeases
  imports PhysicalProof
begin

text \<open>Allocation and release of guest pages (\<open>kernel/x86_vm/memory/physical.c\<close>): what each call can do to the
  map from leases to page runs, one statement per outcome.\<close>

section \<open>Allocation\<close>

definition unchanged :: "'z x86_guest_memory_manager \<Rightarrow> 'z x86_guest_memory_manager \<Rightarrow> bool" where
  "unchanged m m' \<longleftrightarrow> lease_map m' = lease_map m \<and> available m' = available m \<and> allocated m' = allocated m"

lemma poison_keeps [simp]:
  "pages_inv (m\<lparr>manager_poisoned := v\<rparr>) = pages_inv m"
  "lease_map (m\<lparr>manager_poisoned := v\<rparr>) = lease_map m"
  "spent (m\<lparr>manager_poisoned := v\<rparr>) l = spent m l"
  "free_pages (m\<lparr>manager_poisoned := v\<rparr>) = free_pages m"
  "unchanged m (m\<lparr>manager_poisoned := v\<rparr>)"
proof -
  show l: "lease_map (m\<lparr>manager_poisoned := v\<rparr>) = lease_map m"
    by (intro ext lease_map_cong) (simp_all add: resolve_lease_iff)
  show "unchanged m (m\<lparr>manager_poisoned := v\<rparr>)" by (simp add: unchanged_def l)
qed (simp_all add: pages_inv_def managed_first_page_def managed_page_limit_def spent_def free_pages_def)

lemma find_lease_slot_keeps:
  assumes "pages_inv m" "find_lease_slot m = (i, m1)"
  shows "pages_inv m1" and "lease_map m1 = lease_map m" and "spent m l \<Longrightarrow> spent m1 l"
    and "available m1 = available m" and "allocated m1 = allocated m"
    and "memory_ops m1 = memory_ops m" and "zero_context m1 = zero_context m"
proof -
  note s = find_lease_slot_spec [OF assms(2)]
  note k = retires_keeps [OF assms(1) s(2), folded s(1)]
  show "pages_inv m1" "lease_map m1 = lease_map m" "spent m l \<Longrightarrow> spent m1 l" by (rule k)+
  show "available m1 = available m" "allocated m1 = allocated m"
    "memory_ops m1 = memory_ops m" "zero_context m1 = zero_context m"
    by (subst s(1), simp)+
qed

lemma no_room:
  assumes "pages_inv m" "n > 63488 \<or> n > available_pages m - allocated_pages m"
  shows "\<not> {f..<f + unat n} \<subseteq> free_pages m"
proof
  assume run: "{f..<f + unat n} \<subseteq> free_pages m"
  have "unat n \<le> card (free_pages m)" using card_mono [OF _ run] by (simp add: free_pages_def)
  moreover have "card (free_pages m) \<le> card {0..<X86_GUEST_MEMORY_PAGE_COUNT}"
    by (rule card_mono) (auto simp: free_pages_def pages_of_def)
  ultimately show False using assms pages_invD(2) [OF assms(1)] by (auto simp: word_less_nat_alt)
qed

text \<open>All that allocation can do, in one statement per outcome.\<close>

definition allocation_outcome ::
  "'z x86_guest_memory_manager \<Rightarrow> 'z \<Rightarrow> u64 \<Rightarrow> u32 \<Rightarrow> x86_guest_memory_status \<Rightarrow> 'z x86_guest_memory_manager \<Rightarrow> 'z
     \<Rightarrow> (x86_guest_memory_lease \<times> u32) option \<Rightarrow> bool" where
  "allocation_outcome m z owner n st m' z' r \<longleftrightarrow>
     (case r of
        Some (lease, address) \<Rightarrow> st = X86_GUEST_MEMORY_OK \<and> n \<noteq> 0 \<and>
          (\<exists>f t. address = 0x00800000 + of_nat f * 0x1000 \<and> f + unat n \<le> X86_GUEST_MEMORY_PAGE_COUNT \<and>
             allocated_as m owner (unat n) lease f m' \<and> memory_ops m = Some t \<and>
             zero t z (zero_context m) address (n * 0x1000) = (0, z'))
      | None \<Rightarrow> st \<noteq> X86_GUEST_MEMORY_OK \<and> unchanged m m' \<and>
          (st = X86_GUEST_MEMORY_NO_MEMORY \<longrightarrow> (\<forall>f. \<not> {f..<f + unat n} \<subseteq> free_pages m)) \<and>
          (z' = z \<and> st \<noteq> X86_GUEST_MEMORY_ZERO_FAILED \<or>
           (\<exists>f t. n \<noteq> 0 \<and> {f..<f + unat n} \<subseteq> free_pages m \<and> f + unat n \<le> X86_GUEST_MEMORY_PAGE_COUNT \<and> memory_ops m = Some t \<and>
              fst (zero t z (zero_context m) (0x00800000 + of_nat f * 0x1000) (n * 0x1000)) \<noteq> 0)))"

lemma allocate_cases:
  assumes inv: "pages_inv m" and run: "x86_guest_memory_allocate m z owner n = (st, m', z', r)"
  shows "pages_inv m' \<and> (\<forall>l. spent m l \<longrightarrow> spent m' l) \<and> allocation_outcome m z owner n st m' z' r"
proof -
  let ?bad = "\<not> valid_identity owner \<or> n = 0 \<or> manager_initialized m \<noteq> 1 \<or> manager_poisoned m \<noteq> 0 \<or>
    allocated_pages m > available_pages m"
  consider (bad) ?bad | (full) "\<not> ?bad" "n > 63488 \<or> n > available_pages m - allocated_pages m"
    | (go) "\<not> ?bad" "\<not> (n > 63488 \<or> n > available_pages m - allocated_pages m)" by blast
  then show ?thesis
  proof cases
    case bad
    then show ?thesis using run inv
      by (auto simp: x86_guest_memory_allocate_def allocation_outcome_def unchanged_def split: if_splits)
  next
    case full
    then have "(st, m', z', r) = (X86_GUEST_MEMORY_NO_MEMORY, m, z, None)"
      using run by (auto simp: x86_guest_memory_allocate_def split: if_splits)
    then show ?thesis using inv no_room [OF inv full(2)] by (simp add: allocation_outcome_def unchanged_def)
  next
    case go
    obtain i m1 where s: "find_lease_slot m = (i, m1)" by fastforce
    note k = find_lease_slot_keeps [OF inv s]
    have free1: "free_pages m1 = free_pages m" by (simp add: free_pages_def k)
    have u1: "unchanged m m1" by (simp add: unchanged_def k)
    obtain t where t: "memory_ops m = Some t" using inv by (auto simp: pages_inv_def)
    define f where "f = find_free_run m1 n"
    define a :: u32 where "a = 0x00800000 + of_nat f * 0x1000"
    obtain zs z1 where zero: "zero t z (zero_context m) a (n * 0x1000) = (zs, z1)" by fastforce
    have n: "n \<noteq> 0" using go(1) by blast
    have eq: "x86_guest_memory_allocate m z owner n =
       (if i = X86_GUEST_MEMORY_LEASE_COUNT then (X86_GUEST_MEMORY_NO_LEASE, m1, z, None)
        else if f = X86_GUEST_MEMORY_PAGE_COUNT then (X86_GUEST_MEMORY_NO_MEMORY, m1, z, None)
        else if zs = 1 then (X86_GUEST_MEMORY_ZERO_FAILED, m1, z1, None)
        else if zs \<noteq> 0 then (X86_GUEST_MEMORY_POISONED, m1\<lparr>manager_poisoned := 1\<rparr>, z1, None)
        else (X86_GUEST_MEMORY_OK, committed m1 i owner f n, z1,
              Some (make_lease i (lease_generation (leases m1 i) + 1), a)))"
      using go s t zero k(6,7)
      by (simp add: x86_guest_memory_allocate_def f_def a_def Let_def call_zero_def committed_def)
    note found = find_free_run_correct [OF k(1) n, folded f_def, unfolded free1]
    have slot: "i = 1024 \<or> i < 1024 \<and> lease_state (leases m1 i) = X86_GUEST_MEMORY_LEASE_FREE \<and>
        lease_generation (leases m1 i) < X86_GUEST_MEMORY_GENERATION_MAX"
      using find_lease_slot_spec(3) [OF s] by auto
    have refused: "\<exists>f t. n \<noteq> 0 \<and> {f..<f + unat n} \<subseteq> free_pages m \<and> f + unat n \<le> X86_GUEST_MEMORY_PAGE_COUNT \<and>
        memory_ops m = Some t \<and> fst (zero t z (zero_context m) (0x00800000 + of_nat f * 0x1000) (n * 0x1000)) \<noteq> 0"
      if "f \<noteq> 63488" "zs \<noteq> 0"
      using that found n t zero unfolding a_def by (intro exI [of _ f] exI [of _ t]) auto
    show ?thesis
    proof (cases "i = 1024 \<or> f = 63488 \<or> zs \<noteq> 0")
      case True
      then consider (slot) "i = 1024" | (room) "i \<noteq> 1024" "f = 63488" | (failed) "i \<noteq> 1024" "f \<noteq> 63488" "zs = 1"
        | (unsure) "i \<noteq> 1024" "f \<noteq> 63488" "zs \<noteq> 0" "zs \<noteq> 1" by blast
      then show ?thesis
      proof cases
        case slot
        then have "st = X86_GUEST_MEMORY_NO_LEASE" "m' = m1" "z' = z" "r = None" using run eq by simp_all
        with k(1,3) u1 show ?thesis by (simp add: allocation_outcome_def)
      next
        case room
        then have "st = X86_GUEST_MEMORY_NO_MEMORY" "m' = m1" "z' = z" "r = None" using run eq by simp_all
        moreover have "\<forall>f. \<not> {f..<f + unat n} \<subseteq> free_pages m" using found n room(2) by (auto simp: unat_eq_0)
        ultimately show ?thesis using k(1,3) u1 by (simp add: allocation_outcome_def)
      next
        case failed
        then have "st = X86_GUEST_MEMORY_ZERO_FAILED" "m' = m1" "r = None" using run eq by simp_all
        moreover have "\<exists>f t. n \<noteq> 0 \<and> {f..<f + unat n} \<subseteq> free_pages m \<and> f + unat n \<le> X86_GUEST_MEMORY_PAGE_COUNT \<and>
            memory_ops m = Some t \<and> fst (zero t z (zero_context m) (0x00800000 + of_nat f * 0x1000) (n * 0x1000)) \<noteq> 0"
          using refused failed by simp
        ultimately show ?thesis using k(1,3) u1 by (simp add: allocation_outcome_def)
      next
        case unsure
        then have "st = X86_GUEST_MEMORY_POISONED" "m' = m1\<lparr>manager_poisoned := 1\<rparr>" "r = None" using run eq by simp_all
        moreover have "\<exists>f t. n \<noteq> 0 \<and> {f..<f + unat n} \<subseteq> free_pages m \<and> f + unat n \<le> X86_GUEST_MEMORY_PAGE_COUNT \<and>
            memory_ops m = Some t \<and> fst (zero t z (zero_context m) (0x00800000 + of_nat f * 0x1000) (n * 0x1000)) \<noteq> 0"
          using refused unsure by simp
        ultimately show ?thesis using k(1,3) u1 by (simp add: allocation_outcome_def unchanged_def)
      qed
    next
      case False
      then have out: "st = X86_GUEST_MEMORY_OK" "m' = committed m1 i owner f n" "z' = z1"
        "r = Some (make_lease i (lease_generation (leases m1 i) + 1), a)" and "zs = 0"
        using run eq by simp_all
      have sl: "i < 1024" "lease_state (leases m1 i) = X86_GUEST_MEMORY_LEASE_FREE"
        "lease_generation (leases m1 i) < X86_GUEST_MEMORY_GENERATION_MAX" using slot False by auto
      have rn: "{f..<f + unat n} \<subseteq> free_pages m1" "f + unat n \<le> 63488" using found False free1 by auto
      note c = committed_correct [OF k(1) sl rn n]
      have "allocated_as m owner (unat n) (make_lease i (lease_generation (leases m1 i) + 1)) f m'"
        using c(2) k unfolding allocated_as_def out(2) free1 by auto
      with c(1,3) k(3) rn(2) t zero \<open>zs = 0\<close> n show ?thesis
        unfolding out(1,3,4) by (auto simp: allocation_outcome_def out(2) a_def)
    qed
  qed
qed


section \<open>Release\<close>

definition returned :: "'z x86_guest_memory_manager \<Rightarrow> nat \<Rightarrow> 'z x86_guest_memory_manager" where
  "returned m i =
     (let slot = leases m i; first = lease_first_page slot; pages = lease_page_count slot
      in m\<lparr>allocated := fold (\<lambda>index bm. bit_clear bm (first + of_nat index)) [0..<unat pages] (allocated m),
           allocated_pages := allocated_pages m - pages,
           next_free_hint := (if first < next_free_hint m then first else next_free_hint m),
           leases := (leases m)(i := slot\<lparr>lease_owner := KERNEL_OBJECT_HANDLE_INVALID, lease_first_page := 0,
             lease_page_count := 0, lease_state := X86_GUEST_MEMORY_LEASE_FREE\<rparr>)\<rparr>)"

definition released_as ::
  "'z x86_guest_memory_manager \<Rightarrow> u64 \<Rightarrow> nat \<Rightarrow> x86_guest_memory_lease \<Rightarrow> nat \<Rightarrow> 'z x86_guest_memory_manager \<Rightarrow> bool" where
  "released_as m owner n l f m' \<longleftrightarrow>
     lease_map m l = Some (owner, f, n) \<and> lease_map m' = (lease_map m)(l := None) \<and> spent m' l \<and>
     available m' = available m \<and> {f..<f + n} \<subseteq> pages_of (allocated m) \<and>
     pages_of (allocated m') = pages_of (allocated m) - {f..<f + n}"

lemma live_pages:
  assumes inv: "pages_inv m" and i: "i \<in> live_slots (leases m)"
  shows "lease_pages (leases m i) \<subseteq> pages_of (allocated m)"
    and "unat (lease_first_page (leases m i)) + unat (lease_page_count (leases m i)) \<le> X86_GUEST_MEMORY_PAGE_COUNT"
    and "0 < unat (lease_page_count (leases m i))"
    and "unat (lease_page_count (leases m i)) \<le> unat (allocated_pages m)"
proof -
  let ?f = "unat (lease_first_page (leases m i))" and ?n = "unat (lease_page_count (leases m i))"
  have "pages_of (allocated m) = (\<Union>i \<in> live_slots (leases m). lease_pages (leases m i))"
    using inv unfolding pages_inv_def by blast
  with i show sub: "lease_pages (leases m i) \<subseteq> pages_of (allocated m)" by blast
  show pos: "0 < ?n" using pages_inv_live [OF inv i] by (simp add: word_less_nat_alt)
  then have "?f + ?n - 1 \<in> lease_pages (leases m i)" by (auto simp: lease_pages_def)
  with sub have "?f + ?n - 1 < X86_GUEST_MEMORY_PAGE_COUNT" by (auto simp: pages_of_def)
  with pos show "?f + ?n \<le> X86_GUEST_MEMORY_PAGE_COUNT" by linarith
  have "card (lease_pages (leases m i)) \<le> card (pages_of (allocated m))"
    by (rule card_mono [OF finite_pages_of sub])
  moreover have "unat (allocated_pages m) = card (pages_of (allocated m))" using inv unfolding pages_inv_def by blast
  ultimately show "?n \<le> unat (allocated_pages m)" by (simp add: lease_pages_def)
qed

lemma returned_correct:
  assumes inv: "pages_inv m" and r: "resolve_lease m l = Inr i"
  shows "pages_inv (returned m i)"
    and "released_as m (lease_owner (leases m i)) (unat (lease_page_count (leases m i))) l
      (unat (lease_first_page (leases m i))) (returned m i)"
    and "spent m k \<Longrightarrow> spent (returned m i) k"
proof -
  let ?m = "returned m i" and ?s = "leases m i"
  let ?f = "unat (lease_first_page ?s)" and ?n = "unat (lease_page_count ?s)"
  have i: "i \<in> live_slots (leases m)" by (rule resolve_live [OF r])
  note p = live_pages [OF inv i]
  have ib: "i < 1024" using i by (simp add: live_slots_def)
  have live: "live_slots (leases ?m) = live_slots (leases m) - {i}"
    by (auto simp: returned_def live_slots_def Let_def)
  have other: "j \<noteq> i \<Longrightarrow> leases ?m j = leases m j" for j by (simp add: returned_def Let_def)
  have self: "lease_generation (leases ?m i) = lease_generation ?s"
    "lease_state (leases ?m i) = X86_GUEST_MEMORY_LEASE_FREE" by (simp_all add: returned_def Let_def)
  have pages: "lease_pages ?s = {?f..<?f + ?n}" by (simp add: lease_pages_def)
  have alloc: "pages_of (allocated ?m) = pages_of (allocated m) - {?f..<?f + ?n}"
    using pages_of_run(2) [OF p(2), of "allocated m"] by (simp add: returned_def Let_def)
  have dis: "disjoint_family_on (\<lambda>j. lease_pages (leases m j)) (live_slots (leases m))"
    and union: "pages_of (allocated m) = (\<Union>j \<in> live_slots (leases m). lease_pages (leases m j))"
    and cnt: "unat (allocated_pages m) = card (pages_of (allocated m))"
    using inv unfolding pages_inv_def by blast+
  have "unat (allocated_pages ?m) = card (pages_of (allocated ?m))"
  proof -
    have "unat (allocated_pages ?m) = unat (allocated_pages m) - ?n"
      using p(4) by (simp add: returned_def Let_def unat_sub word_le_nat_alt)
    also have "\<dots> = card (pages_of (allocated m) - {?f..<?f + ?n})"
      using p(1) cnt by (simp add: card_Diff_subset pages)
    finally show ?thesis by (simp add: alloc)
  qed
  moreover have "disjoint_family_on (\<lambda>j. lease_pages (leases ?m j)) (live_slots (leases ?m))"
    using dis other unfolding live disjoint_family_on_def by auto
  moreover have "pages_of (allocated ?m) = (\<Union>j \<in> live_slots (leases ?m). lease_pages (leases ?m j))"
  proof -
    have "(\<Union>j \<in> live_slots (leases ?m). lease_pages (leases ?m j)) =
        (\<Union>j \<in> live_slots (leases m) - {i}. lease_pages (leases m j))"
      unfolding live using other by simp
    also have "\<dots> = pages_of (allocated m) - lease_pages ?s"
      using dis i unfolding union disjoint_family_on_def by blast
    finally show ?thesis by (simp add: alloc pages)
  qed
  moreover have "pages_of (allocated ?m) \<subseteq> pages_of (available m)"
    using inv unfolding alloc pages_inv_def by blast
  moreover have "\<forall>j \<in> live_slots (leases ?m). 0 < lease_page_count (leases ?m j) \<and> 0 < lease_generation (leases ?m j)"
    using pages_inv_live [OF inv] other unfolding live by auto
  moreover have "lease_generation (leases ?m j) \<le> X86_GUEST_MEMORY_GENERATION_MAX" if "j < X86_GUEST_MEMORY_LEASE_COUNT" for j
    using pages_inv_gen [OF inv that] other [of j] self(1) by (cases "j = i") simp_all
  ultimately show "pages_inv ?m"
    using inv by (simp add: pages_inv_def returned_def managed_first_page_def managed_page_limit_def Let_def)
  have res: "resolve_lease ?m k = Inr j \<longleftrightarrow> k \<noteq> l \<and> resolve_lease m k = Inr j" for k j
  proof (cases "j = i")
    case True
    then show ?thesis using r self(2) by (auto simp: resolve_lease_iff)
  next
    case False
    have "resolve_lease ?m k = Inr j \<longleftrightarrow> resolve_lease m k = Inr j"
      using other [OF False] by (simp add: resolve_lease_iff)
    moreover have "resolve_lease m l \<noteq> Inr j" using r False by simp
    ultimately show ?thesis by auto
  qed
  have "lease_map ?m k = ((lease_map m)(l := None)) k" for k
  proof (cases "k = l")
    case True
    have "resolve_lease ?m l \<noteq> Inr j" for j by (simp add: res)
    with True show ?thesis by (simp add: lease_map_def split: sum.splits)
  next
    case False
    have "j \<noteq> i" if "resolve_lease m k = Inr j" for j using that r False by (auto simp: resolve_lease_iff)
    with False have "lease_map ?m k = lease_map m k" by (intro lease_map_cong) (simp_all add: res other)
    with False show ?thesis by simp
  qed
  moreover have "spent ?m l" using r self ib by (auto simp: spent_def resolve_lease_iff)
  moreover have "available ?m = available m" by (simp add: returned_def Let_def)
  moreover have "lease_map m l = Some (lease_owner ?s, ?f, ?n)" using r by (simp add: lease_map_def)
  moreover have "{?f..<?f + ?n} \<subseteq> pages_of (allocated m)" using p(1) by (simp add: pages)
  ultimately show "released_as m (lease_owner ?s) ?n l ?f ?m"
    using alloc unfolding released_as_def by blast
  show "spent ?m k" if "spent m k"
    using that other self by (cases "lease_slot_of k = i") (auto simp: spent_def)
qed

definition release_outcome ::
  "'z x86_guest_memory_manager \<Rightarrow> 'z \<Rightarrow> u64 \<Rightarrow> x86_guest_memory_lease \<Rightarrow> x86_guest_memory_status
     \<Rightarrow> 'z x86_guest_memory_manager \<Rightarrow> 'z \<Rightarrow> bool" where
  "release_outcome m z owner l st m' z' \<longleftrightarrow>
     (if st = X86_GUEST_MEMORY_OK then
        (\<exists>f n t. f + n \<le> X86_GUEST_MEMORY_PAGE_COUNT \<and> 0 < n \<and> released_as m owner n l f m' \<and> memory_ops m = Some t \<and>
           zero t z (zero_context m) (0x00800000 + of_nat f * 0x1000) (of_nat n * 0x1000) = (0, z'))
      else unchanged m m' \<and>
        (z' = z \<and> st \<noteq> X86_GUEST_MEMORY_ZERO_FAILED \<or>
         (\<exists>f n t. lease_map m l = Some (owner, f, n) \<and> memory_ops m = Some t \<and>
            fst (zero t z (zero_context m) (0x00800000 + of_nat f * 0x1000) (of_nat n * 0x1000)) \<noteq> 0)))"

lemma release_refused:
  assumes "\<not> valid_identity owner \<or> manager_initialized m \<noteq> 1 \<or> manager_poisoned m \<noteq> 0 \<or> resolve_lease m l = Inl s"
    and "x86_guest_memory_release m z owner l = (st, m', z')"
  shows "m' = m \<and> z' = z \<and> st \<noteq> X86_GUEST_MEMORY_OK \<and> st \<noteq> X86_GUEST_MEMORY_ZERO_FAILED"
proof -
  have stale: "s = X86_GUEST_MEMORY_STALE_LEASE" if "resolve_lease m l = Inl s"
    using that by (auto simp: resolve_lease_def Let_def split: if_splits)
  consider "\<not> valid_identity owner" | "valid_identity owner" "manager_initialized m \<noteq> 1"
    | "valid_identity owner" "manager_initialized m = 1" "manager_poisoned m \<noteq> 0"
    | "valid_identity owner" "manager_initialized m = 1" "manager_poisoned m = 0" "resolve_lease m l = Inl s"
    using assms(1) by blast
  then show ?thesis using assms(2) stale by cases (auto simp: x86_guest_memory_release_def)
qed

lemma release_eq:
  assumes inv: "pages_inv m" and ok: "valid_identity owner" "manager_poisoned m = 0" and r: "resolve_lease m l = Inr i"
    and t: "memory_ops m = Some t"
    and zero: "zero t z (zero_context m) (0x00800000 + lease_first_page (leases m i) * 0x1000)
      (lease_page_count (leases m i) * 0x1000) = (zs, z1)"
  shows "x86_guest_memory_release m z owner l =
       (if lease_owner (leases m i) \<noteq> owner then (X86_GUEST_MEMORY_OWNER_MISMATCH, m, z)
        else if zs = 1 then (X86_GUEST_MEMORY_ZERO_FAILED, m, z1)
        else if zs \<noteq> 0 then (X86_GUEST_MEMORY_POISONED, m\<lparr>manager_poisoned := 1\<rparr>, z1)
        else (X86_GUEST_MEMORY_OK, returned m i, z1))"
proof -
  let ?f = "lease_first_page (leases m i)" and ?n = "lease_page_count (leases m i)"
  note p = live_pages [OF inv resolve_live [OF r]]
  have init: "manager_initialized m = 1" using inv unfolding pages_inv_def by blast
  have n0: "?n \<noteq> 0" using p(3) by (simp add: unat_gt_0)
  have "?n \<le> 63488" using p(2) by (simp add: word_le_nat_alt)
  then have f: "\<not> ?f > 63488 - ?n" using p(2) by (simp add: word_less_nat_alt unat_sub)
  have n: "\<not> ?n > allocated_pages m" using p(4) by (simp add: word_less_nat_alt)
  have "bit_is_set (allocated m) (of_nat (unat ?f + j))" if "j < unat ?n" for j
  proof -
    have "unat ?f + j \<in> lease_pages (leases m i)" using that by (simp add: lease_pages_def)
    with p(1) have "unat ?f + j \<in> pages_of (allocated m)" by blast
    then show ?thesis unfolding pages_of_def by blast
  qed
  then have l: "list_all (\<lambda>index. bit_is_set (allocated m) (?f + of_nat index)) [0..<unat ?n]"
    by (simp add: list_all_iff)
  show ?thesis
    unfolding x86_guest_memory_release_def returned_def Let_def r
    using ok init n0 f n l by (simp add: call_zero_def t zero)
qed

lemma release_cases:
  assumes inv: "pages_inv m" and run: "x86_guest_memory_release m z owner l = (st, m', z')"
  shows "pages_inv m' \<and> (\<forall>k. spent m k \<longrightarrow> spent m' k) \<and> release_outcome m z owner l st m' z'"
proof -
  have keep: ?thesis if "m' = m \<or> m' = m\<lparr>manager_poisoned := 1\<rparr>" "st \<noteq> X86_GUEST_MEMORY_OK"
    "z' = z \<and> st \<noteq> X86_GUEST_MEMORY_ZERO_FAILED \<or> (\<exists>f n t. lease_map m l = Some (owner, f, n) \<and> memory_ops m = Some t \<and>
       fst (zero t z (zero_context m) (0x00800000 + of_nat f * 0x1000) (of_nat n * 0x1000)) \<noteq> 0)"
    using that(1)
  proof
    assume "m' = m"
    then show ?thesis using inv that(2,3) by (simp add: release_outcome_def unchanged_def)
  next
    assume "m' = m\<lparr>manager_poisoned := 1\<rparr>"
    then show ?thesis using inv that(2,3) by (simp add: release_outcome_def)
  qed
  have init: "manager_initialized m = 1" using inv unfolding pages_inv_def by blast
  show ?thesis
  proof (cases "valid_identity owner \<and> manager_poisoned m = 0 \<and> (\<exists>i. resolve_lease m l = Inr i)")
    case False
    then obtain s where "\<not> valid_identity owner \<or> manager_initialized m \<noteq> 1 \<or> manager_poisoned m \<noteq> 0 \<or> resolve_lease m l = Inl s"
      by (cases "resolve_lease m l") auto
    from release_refused [OF this run] show ?thesis by (intro keep) auto
  next
    case True
    then obtain i where ok: "valid_identity owner" "manager_poisoned m = 0" and r: "resolve_lease m l = Inr i" by blast
    let ?f = "lease_first_page (leases m i)" and ?n = "lease_page_count (leases m i)"
    obtain t where t: "memory_ops m = Some t" using inv unfolding pages_inv_def by blast
    obtain zs z1 where zero: "zero t z (zero_context m) (0x00800000 + ?f * 0x1000) (?n * 0x1000) = (zs, z1)" by fastforce
    note eq = release_eq [OF inv ok r t zero, unfolded run]
    have refused: "\<exists>f n t. lease_map m l = Some (owner, f, n) \<and> memory_ops m = Some t \<and>
        fst (zero t z (zero_context m) (0x00800000 + of_nat f * 0x1000) (of_nat n * 0x1000)) \<noteq> 0"
      if "lease_owner (leases m i) = owner" "zs \<noteq> 0"
      using that r t zero by (intro exI [of _ "unat ?f"] exI [of _ "unat ?n"] exI [of _ t]) (simp add: lease_map_def)
    consider (ok) "lease_owner (leases m i) = owner" "zs = 0" | (owner) "lease_owner (leases m i) \<noteq> owner"
      | (failed) "lease_owner (leases m i) = owner" "zs = 1"
      | (unsure) "lease_owner (leases m i) = owner" "zs \<noteq> 0" "zs \<noteq> 1" by blast
    then show ?thesis
    proof cases
      case ok
      then have out: "st = X86_GUEST_MEMORY_OK" "m' = returned m i" "z' = z1" using eq by simp_all
      note c = returned_correct [OF inv r] and p = live_pages [OF inv resolve_live [OF r]]
      have "unat ?f + unat ?n \<le> 63488 \<and> 0 < unat ?n \<and> released_as m owner (unat ?n) l (unat ?f) (returned m i) \<and>
          memory_ops m = Some t \<and>
          zero t z (zero_context m) (0x00800000 + of_nat (unat ?f) * 0x1000) (of_nat (unat ?n) * 0x1000) = (0, z1)"
        using c(2) p(2,3) t zero ok by simp
      then have "release_outcome m z owner l st m' z'"
        unfolding release_outcome_def out by (simp only: if_True simp_thms) blast
      with c show ?thesis by (simp add: out(2))
    next
      case owner
      then show ?thesis by (intro keep) (use eq in simp_all)
    next
      case failed
      moreover have "\<exists>f n t. lease_map m l = Some (owner, f, n) \<and> memory_ops m = Some t \<and>
          fst (zero t z (zero_context m) (0x00800000 + of_nat f * 0x1000) (of_nat n * 0x1000)) \<noteq> 0"
        using refused failed by simp
      ultimately show ?thesis by (intro keep) (use eq in simp_all)
    next
      case unsure
      moreover have "\<exists>f n t. lease_map m l = Some (owner, f, n) \<and> memory_ops m = Some t \<and>
          fst (zero t z (zero_context m) (0x00800000 + of_nat f * 0x1000) (of_nat n * 0x1000)) \<noteq> 0"
        using refused unsure by simp
      ultimately show ?thesis by (intro keep) (use eq in simp_all)
    qed
  qed
qed

end
