(* ===== verification/PhysicalInit.thy ===== *)
theory PhysicalInit
  imports PhysicalLeases
begin

text \<open>Initialization of the page manager from the firmware map: which pages become available, and
  that the invariant of the manager holds afterwards.\<close>

section \<open>Alignment\<close>

lemma unat_align_down: "unat (align_down_page v) = unat v div 4096 * 4096"
proof -
  have m: "(4095 :: u64) = mask 12" by (simp add: mask_eq_exp_minus_1)
  have b: "bit (4095 :: u64) n \<longleftrightarrow> n < 12" for n unfolding m by (simp only: bit_mask_iff) auto
  have "align_down_page v = push_bit 12 (drop_bit 12 v)"
  proof (rule bit_word_eqI)
    fix n :: nat
    assume "n < LENGTH(64)"
    then show "bit (align_down_page v) n \<longleftrightarrow> bit (push_bit 12 (drop_bit 12 v)) n"
      by (cases "12 \<le> n") (simp_all add: align_down_page_def bit_simps b del: bit_numeral_word_iff)
  qed
  moreover have "unat (push_bit 12 (drop_bit 12 v)) = unat v div 4096 * 4096"
  proof -
    have "unat v div 4096 * 4096 < 2 ^ 64"
      using unat_u64_less [of v] div_times_less_eq_dividend [of "unat v" 4096] by simp
    then show ?thesis
      by (simp add: push_bit_eq_mult drop_bit_eq_div unat_word_ariths unat_div)
  qed
  ultimately show ?thesis by simp
qed

lemma unat_align_up:
  "unat (align_up_page v) = (if unat v + 4095 < 2 ^ 64 then (unat v + 4095) div 4096 * 4096 else 2 ^ 64 - 1)"
proof (cases "unat v + 4095 < 2 ^ 64")
  case True
  then have "unat (v + 4095) = unat v + 4095" by (simp add: unat_word_ariths)
  moreover have "\<not> v > NOT 0 - 4095" using True by (simp add: word_less_nat_alt)
  moreover from this have "align_up_page v = align_down_page (v + 4095)"
    by (simp add: align_up_page_def align_down_page_def Let_def)
  ultimately show ?thesis using True by (simp add: unat_align_down)
next
  case False
  then have "v > NOT 0 - 4095" by (simp add: word_less_nat_alt)
  then have "unat (align_up_page v) = unat (NOT 0 :: u64)" by (simp add: align_up_page_def Let_def)
  also have "\<dots> = 2 ^ 64 - 1" by (simp add: unsigned_minus_1_eq_mask mask_eq_exp_minus_1)
  finally show ?thesis unfolding if_not_P [OF False] .
qed

section \<open>One range\<close>

lemma bit_is_set_pages:
  assumes "p < X86_GUEST_MEMORY_PAGE_COUNT" "\<forall>q \<in> set xs. q < X86_GUEST_MEMORY_PAGE_COUNT"
  shows "bit_is_set (fold (\<lambda>page bm. if u then bit_set bm (of_nat page) else bit_clear bm (of_nat page)) xs bm) (of_nat p) \<longleftrightarrow>
    (if u then p \<in> set xs \<or> bit_is_set bm (of_nat p) else p \<notin> set xs \<and> bit_is_set bm (of_nat p))"
  using assms(2)
proof (induction xs arbitrary: bm)
  case (Cons q xs)
  have "(of_nat p :: u32) = of_nat q \<longleftrightarrow> p = q" using assms(1) Cons.prems by (intro of_nat_page_eq) auto
  with Cons show ?case by auto
qed simp

abbreviation page_start :: "nat \<Rightarrow> nat" where "page_start p \<equiv> 0x800000 + p * 4096"

definition page_bytes :: "nat \<Rightarrow> nat set" where
  "page_bytes p = {page_start p..<page_start p + 4096}"

definition range_covers_page :: "x86_boot_memory_range \<Rightarrow> nat \<Rightarrow> bool" where
  "range_covers_page r p \<longleftrightarrow> (\<forall>x \<in> page_bytes p. covers r x)"

definition range_meets_page :: "x86_boot_memory_range \<Rightarrow> nat \<Rightarrow> bool" where
  "range_meets_page r p \<longleftrightarrow> (\<exists>x \<in> page_bytes p. covers r x)"

lemma range_page_iff:
  assumes "range_is_well_formed r"
  shows "range_covers_page r p \<longleftrightarrow> unat (range_base r) \<le> page_start p \<and> page_start p + 4096 \<le> unat (range_limit r)"
    and "range_meets_page r p \<longleftrightarrow> unat (range_base r) < page_start p + 4096 \<and> page_start p < unat (range_limit r)"
proof -
  note c = covers_iff [OF assms] and l = range_limit_unat [OF assms]
  show "range_covers_page r p \<longleftrightarrow> unat (range_base r) \<le> page_start p \<and> page_start p + 4096 \<le> unat (range_limit r)"
  proof
    assume a: "range_covers_page r p"
    have "covers r (page_start p)" "covers r (page_start p + 4095)"
      using a by (simp_all add: range_covers_page_def page_bytes_def)
    then show "unat (range_base r) \<le> page_start p \<and> page_start p + 4096 \<le> unat (range_limit r)" by (simp add: c)
  qed (auto simp: range_covers_page_def page_bytes_def c)
  show "range_meets_page r p \<longleftrightarrow> unat (range_base r) < page_start p + 4096 \<and> page_start p < unat (range_limit r)"
  proof
    assume "unat (range_base r) < page_start p + 4096 \<and> page_start p < unat (range_limit r)"
    then have "covers r (max (unat (range_base r)) (page_start p))"
      "max (unat (range_base r)) (page_start p) \<in> page_bytes p"
      using l by (auto simp: c page_bytes_def)
    then show "range_meets_page r p" unfolding range_meets_page_def by blast
  qed (auto simp: range_meets_page_def page_bytes_def c)
qed

lemma change_range_eq:
  fixes r u
  defines "a \<equiv> max 0x800000 (unat (if u then align_up_page (range_base r) else align_down_page (range_base r)))"
    and "e \<equiv> min 0x10000000 (unat (if u then align_down_page (range_limit r) else align_up_page (range_limit r)))"
  shows "change_range_availability bm r u =
     fold (\<lambda>page bm. if u then bit_set bm (of_nat page) else bit_clear bm (of_nat page))
       [(a - 0x800000) div 4096..<(e - 0x800000) div 4096] bm"
proof -
  define f l where "f = (if u then align_up_page (range_base r) else align_down_page (range_base r))"
    and "l = (if u then align_down_page (range_limit r) else align_up_page (range_limit r))"
  define f' l' where "f' = (if f < 0x800000 then 0x800000 else f)" and "l' = (if l > 0x10000000 then 0x10000000 else l)"
  have f': "unat f' = a" and l': "unat l' = e"
    unfolding f'_def l'_def a_def e_def f_def [symmetric] l_def [symmetric]
    by (auto simp: word_less_nat_alt max_def min_def)
  have eq: "change_range_availability bm r u =
      (if f' \<ge> l' \<or> f' \<ge> 0x10000000 \<or> l' \<le> 0x800000 then bm
       else fold (\<lambda>page bm. if u then bit_set bm (of_nat page) else bit_clear bm (of_nat page))
         [unat ((f' - 0x800000) div 4096)..<unat ((l' - 0x800000) div 4096)] bm)"
    unfolding change_range_availability_def Let_def range_limit_def [symmetric] f_def [symmetric] l_def [symmetric]
      f'_def [symmetric] l'_def [symmetric] by simp
  have "0x800000 \<le> f'" by (simp add: f'_def not_less)
  then have fi: "unat ((f' - 0x800000) div 4096) = (a - 0x800000) div 4096"
    using f' by (simp add: unat_div unat_sub)
  show ?thesis
  proof (cases "f' \<ge> l' \<or> f' \<ge> 0x10000000 \<or> l' \<le> 0x800000")
    case True
    then have "e \<le> a \<or> a \<ge> 0x10000000 \<or> e \<le> 0x800000" using f' l' by (auto simp: word_le_nat_alt)
    moreover have "e \<le> 0x10000000" by (simp add: e_def)
    ultimately have "e \<le> a \<or> e \<le> 0x800000" by linarith
    then have "(e - 0x800000) div 4096 \<le> (a - 0x800000) div 4096" by (auto intro: div_le_mono)
    with True eq show ?thesis by simp
  next
    case False
    then have "0x800000 \<le> l'" by (meson linear)
    then have "unat ((l' - 0x800000) div 4096) = (e - 0x800000) div 4096"
      using l' by (simp add: unat_div unat_sub)
    with False eq fi show ?thesis by simp
  qed
qed

lemma first_index: "(max 0x800000 (c * 4096) - 0x800000) div 4096 = c - (2048 :: nat)"
proof -
  have "max 0x800000 (c * 4096) - 0x800000 = (c - 2048) * (4096 :: nat)" by (simp add: max_def diff_mult_distrib)
  then show ?thesis by simp
qed

lemma last_index: "(min 0x10000000 (c * 4096) - 0x800000) div 4096 = min 65536 c - (2048 :: nat)"
proof -
  have "min 0x10000000 (c * 4096) - 0x800000 = (min 65536 c - 2048) * (4096 :: nat)" by (auto simp: min_def diff_mult_distrib)
  then show ?thesis by simp
qed

lemma page_bounds:
  "x div 4096 \<le> p + 2048 \<longleftrightarrow> x < page_start p + 4096"
  "p + 2048 < x div 4096 \<longleftrightarrow> page_start p + 4096 \<le> x"
proof -
  show "x div 4096 \<le> p + 2048 \<longleftrightarrow> x < page_start p + 4096"
    using div_less_iff_less_mult [of 4096 x "p + 2049"] by simp linarith
  then show "p + 2048 < x div 4096 \<longleftrightarrow> page_start p + 4096 \<le> x" by linarith
qed

lemma change_range_bit:
  assumes "range_is_well_formed r" "p < X86_GUEST_MEMORY_PAGE_COUNT"
  shows "bit_is_set (change_range_availability bm r u) (of_nat p) \<longleftrightarrow>
    (if u then range_covers_page r p \<or> bit_is_set bm (of_nat p)
     else \<not> range_meets_page r p \<and> bit_is_set bm (of_nat p))"
proof -
  let ?b = "unat (range_base r)" and ?l = "unat (range_limit r)"
  define a where "a = max 0x800000 (unat (if u then align_up_page (range_base r) else align_down_page (range_base r)))"
  define e where "e = min 0x10000000 (unat (if u then align_down_page (range_limit r) else align_up_page (range_limit r)))"
  let ?xs = "[(a - 0x800000) div 4096..<(e - 0x800000) div 4096]"
  have "e \<le> 0x10000000" by (simp add: e_def)
  then have "(e - 0x800000) div 4096 \<le> (0x10000000 - 0x800000) div 4096" by (intro div_le_mono) simp
  then have "\<forall>q \<in> set ?xs. q < X86_GUEST_MEMORY_PAGE_COUNT" by simp
  note bits = bit_is_set_pages [OF assms(2) this, of u bm]
  have p: "p + 2048 < 65536" using assms(2) by simp
  have "p \<in> set ?xs \<longleftrightarrow> (if u then range_covers_page r p else range_meets_page r p)"
  proof (cases u)
    case True
    have "(a - 0x800000) div 4096 \<le> p \<longleftrightarrow> ?b \<le> page_start p"
    proof (cases "?b + 4095 < 2 ^ 64")
      case small: True
      then have "(a - 0x800000) div 4096 \<le> p \<longleftrightarrow> (?b + 4095) div 4096 \<le> p + 2048"
        using True by (simp add: a_def unat_align_up first_index) linarith
      then show ?thesis unfolding page_bounds by linarith
    next
      case big: False
      then show ?thesis using True p by (simp add: a_def unat_align_up)
    qed
    moreover have "p < (e - 0x800000) div 4096 \<longleftrightarrow> p + 2048 < ?l div 4096"
      using True p by (simp add: e_def unat_align_down last_index) linarith
    ultimately show ?thesis using True by (simp add: range_page_iff [OF assms(1)] page_bounds)
  next
    case False
    have "(a - 0x800000) div 4096 \<le> p \<longleftrightarrow> ?b div 4096 \<le> p + 2048"
      using False by (simp add: a_def unat_align_down first_index) linarith
    moreover have "p < (e - 0x800000) div 4096 \<longleftrightarrow> page_start p < ?l"
    proof (cases "?l + 4095 < 2 ^ 64")
      case small: True
      then have "p < (e - 0x800000) div 4096 \<longleftrightarrow> p + 2048 < (?l + 4095) div 4096"
        using False p by (simp add: e_def unat_align_up last_index) linarith
      then show ?thesis unfolding page_bounds by linarith
    next
      case big: False
      then show ?thesis using False p by (simp add: e_def unat_align_up)
    qed
    ultimately show ?thesis using False by (simp add: range_page_iff [OF assms(1)] page_bounds)
  qed
  moreover have "change_range_availability bm r u =
      fold (\<lambda>page bm. if u then bit_set bm (of_nat page) else bit_clear bm (of_nat page)) ?xs bm"
    unfolding a_def e_def by (rule change_range_eq)
  ultimately show ?thesis using bits by (simp only: split: if_split) blast
qed

section \<open>The whole map\<close>

definition page_available :: "x86_boot_info \<Rightarrow> nat \<Rightarrow> bool" where
  "page_available bi p \<longleftrightarrow> p < X86_GUEST_MEMORY_PAGE_COUNT \<and>
     (\<exists>r \<in> set (used_ranges bi). range_type r = X86_BOOT_MEMORY_USABLE \<and> range_covers_page r p) \<and>
     (\<forall>r \<in> set (used_ranges bi). range_type r \<noteq> X86_BOOT_MEMORY_USABLE \<longrightarrow> \<not> range_meets_page r p)"

lemma page_available_usable: "page_available bi p \<Longrightarrow> x \<in> page_bytes p \<Longrightarrow> byte_usable bi x"
  unfolding page_available_def byte_usable_def range_covers_page_def range_meets_page_def by blast

lemma usable_fold:
  assumes "p < X86_GUEST_MEMORY_PAGE_COUNT" "\<forall>r \<in> set rs. range_is_well_formed r"
  shows "bit_is_set (fold (\<lambda>r bm. if range_type r = X86_BOOT_MEMORY_USABLE
      then change_range_availability bm r True else bm) rs bm) (of_nat p) \<longleftrightarrow>
    (\<exists>r \<in> set rs. range_type r = X86_BOOT_MEMORY_USABLE \<and> range_covers_page r p) \<or> bit_is_set bm (of_nat p)"
  using assms(2)
proof (induction rs arbitrary: bm)
  case (Cons r rs)
  then show ?case using change_range_bit [OF _ assms(1), of r bm True] by auto
qed simp

lemma reserved_fold:
  assumes "p < X86_GUEST_MEMORY_PAGE_COUNT" "\<forall>r \<in> set rs. range_is_well_formed r"
  shows "bit_is_set (fold (\<lambda>r bm. if range_type r \<noteq> X86_BOOT_MEMORY_USABLE
      then change_range_availability bm r False else bm) rs bm) (of_nat p) \<longleftrightarrow>
    (\<forall>r \<in> set rs. range_type r \<noteq> X86_BOOT_MEMORY_USABLE \<longrightarrow> \<not> range_meets_page r p) \<and> bit_is_set bm (of_nat p)"
  using assms(2)
proof (induction rs arbitrary: bm)
  case (Cons r rs)
  then show ?case using change_range_bit [OF _ assms(1), of r bm False] by auto
qed simp

lemma pages_of_map:
  assumes "x86_memory_map_is_valid (Some bi)"
  shows "pages_of (fold (\<lambda>r bm. if range_type r \<noteq> X86_BOOT_MEMORY_USABLE then change_range_availability bm r False else bm)
      (used_ranges bi) (fold (\<lambda>r bm. if range_type r = X86_BOOT_MEMORY_USABLE then change_range_availability bm r True else bm)
      (used_ranges bi) (\<lambda>_. 0))) = {p. page_available bi p}"
proof -
  have "\<forall>r \<in> set (used_ranges bi). range_is_well_formed r" using valid_ranges [OF assms] by blast
  note f = usable_fold [OF _ this] reserved_fold [OF _ this]
  have "\<not> bit_is_set (\<lambda>_. 0) q" for q by (simp add: bit_is_set_def)
  then show ?thesis unfolding pages_of_def page_available_def using f by (intro Collect_cong) auto
qed

definition managed_bounds :: "nat set \<Rightarrow> u64 \<times> u64" where
  "managed_bounds S = (if S = {} then (0, 0)
     else (0x800000 + of_nat (Min S) * 0x1000, 0x800000 + of_nat (Suc (Max S)) * 0x1000))"

lemma managed_bounds_insert:
  assumes "finite S" "\<forall>p \<in> S. p < k" "k < X86_GUEST_MEMORY_PAGE_COUNT" "bit_is_set bm (of_nat k)"
  shows "managed_step bm k (managed_bounds S) = managed_bounds (insert k S)"
proof (cases "S = {}")
  case True
  with assms(4) show ?thesis by (simp add: managed_bounds_def managed_step_def)
next
  case False
  then have mm: "Min S < k" "Max S < k" using Min_in [OF assms(1) False] Max_in [OF assms(1) False] assms(2) by blast+
  have "unat (0x800000 + of_nat (Min S) * 0x1000 :: u64) = 0x800000 + Min S * 0x1000"
    using mm(1) assms(3) by (simp add: unat_word_ariths unat_of_nat)
  then have nz: "0x800000 + of_nat (Min S) * 0x1000 \<noteq> (0 :: u64)" by (metis add_is_0 unat_0 zero_neq_numeral)
  have "Min (insert k S) = Min S" "Max (insert k S) = k" using mm False assms(1) by simp_all
  with False assms(4) nz show ?thesis by (simp add: managed_bounds_def managed_step_def)
qed

lemma managed_fold:
  assumes "k \<le> X86_GUEST_MEMORY_PAGE_COUNT"
  shows "fold (managed_step bm) [0..<k] (0, 0) = managed_bounds {p. p < k \<and> bit_is_set bm (of_nat p)}"
  using assms
proof (induction k)
  case 0
  then show ?case by (simp add: managed_bounds_def)
next
  case (Suc k)
  let ?S = "{p. p < k \<and> bit_is_set bm (of_nat p)}"
  have "fold (managed_step bm) [0..<Suc k] (0, 0) = managed_step bm k (managed_bounds ?S)" using Suc by simp
  also have "\<dots> = managed_bounds {p. p < Suc k \<and> bit_is_set bm (of_nat p)}"
  proof (cases "bit_is_set bm (of_nat k)")
    case True
    then have eq: "{p. p < Suc k \<and> bit_is_set bm (of_nat p)} = insert k ?S" using less_Suc_eq by auto
    have "k < X86_GUEST_MEMORY_PAGE_COUNT" using Suc.prems by simp
    then show ?thesis unfolding eq using True by (intro managed_bounds_insert) auto
  next
    case False
    then have eq: "{p. p < Suc k \<and> bit_is_set bm (of_nat p)} = ?S" using less_Suc_eq by auto
    show ?thesis unfolding eq using False by (cases "managed_bounds ?S") (simp add: managed_step_def)
  qed
  finally show ?case .
qed

lemma managed_fold_pages: "fold (managed_step bm) [0..<X86_GUEST_MEMORY_PAGE_COUNT] (0, 0) = managed_bounds (pages_of bm)"
  unfolding pages_of_def by (rule managed_fold) simp

lemma bounds_pages:
  assumes "p < X86_GUEST_MEMORY_PAGE_COUNT + 1"
  shows "unat (ucast ((0x800000 + of_nat p * 0x1000 - 0x800000 :: u64) div 0x1000) :: u32) = p"
    and "unat (0x800000 + of_nat p * 0x1000 :: u64) = page_start p"
proof -
  have "unat (of_nat p * 0x1000 :: u64) = p * 0x1000" using assms by (simp add: unat_word_ariths unat_of_nat)
  then have "unat ((of_nat p * 0x1000 :: u64) div 0x1000) = p" by (simp add: unat_div)
  then show "unat (ucast ((0x800000 + of_nat p * 0x1000 - 0x800000 :: u64) div 0x1000) :: u32) = p"
    using assms by (simp add: unsigned_ucast_eq take_bit_nat_eq_self)
  show "unat (0x800000 + of_nat p * 0x1000 :: u64) = page_start p"
    using assms by (simp add: unat_word_ariths unat_of_nat)
qed

definition bounds_ok :: "'z x86_guest_memory_manager \<Rightarrow> bool" where
  "bounds_ok m \<longleftrightarrow> X86_GUEST_MEMORY_BASE \<le> managed_base m \<and> managed_base m < managed_limit m \<and>
     managed_limit m \<le> X86_GUEST_MEMORY_APERTURE_LIMIT \<and> 4096 dvd unat (managed_base m) \<and> 4096 dvd unat (managed_limit m)"

text \<open>A refused map leaves the manager uninitialized; an accepted one leaves it with the available pages
  of the map, all free.\<close>

definition fresh_manager :: "x86_boot_info \<Rightarrow> 'z x86_guest_memory_ops \<Rightarrow> u64 \<Rightarrow> 'z x86_guest_memory_manager \<Rightarrow> bool" where
  "fresh_manager bi t ctx m \<longleftrightarrow> pages_inv m \<and> manager_poisoned m = 0 \<and> memory_ops m = Some t \<and> zero_context m = ctx \<and>
     pages_of (available m) = {p. page_available bi p} \<and> pages_of (allocated m) = {} \<and> lease_map m = Map.empty \<and>
     (\<forall>l. \<not> spent m l \<or> lease_gen_of l = 0) \<and> bounds_ok m \<and> (\<forall>i. leases m i = empty_lease_slot)"

lemma initialize_cases:
  fixes m :: "'z x86_guest_memory_manager"
  assumes "valid_identity ctx" "manager_constructed m = 1" "manager_initialized m = 0"
    and valid: "x86_memory_map_is_valid (Some bi)"
    and run: "x86_guest_memory_initialize m (Some bi) (Some t) ctx = (st, m')"
  shows "if {p. page_available bi p} = {} then st = X86_GUEST_MEMORY_INVALID_MAP \<and> manager_initialized m' = 0
         else st = X86_GUEST_MEMORY_OK \<and> fresh_manager bi t ctx m'"
proof -
  define bm where "bm = fold (\<lambda>r bm. if range_type r \<noteq> X86_BOOT_MEMORY_USABLE then change_range_availability bm r False else bm)
      (used_ranges bi) (fold (\<lambda>r bm. if range_type r = X86_BOOT_MEMORY_USABLE then change_range_availability bm r True else bm)
      (used_ranges bi) (\<lambda>_. 0))"
  let ?S = "pages_of bm"
  have S: "?S = {p. page_available bi p}" unfolding bm_def by (rule pages_of_map [OF valid])
  define base limit where "base = fst (managed_bounds ?S)" and "limit = snd (managed_bounds ?S)"
  define cleared where "cleared = m\<lparr>available := bm, allocated := (\<lambda>_. 0), leases := (\<lambda>_. empty_lease_slot),
      available_pages := count_available bm\<rparr>"
  define refused where "refused = cleared\<lparr>memory_ops := None, zero_context := KERNEL_OBJECT_HANDLE_INVALID\<rparr>"
  define accepted where "accepted = cleared\<lparr>memory_ops := Some t, zero_context := ctx, managed_base := base,
      managed_limit := limit, allocated_pages := 0, next_free_hint := 0, manager_poisoned := 0, manager_initialized := 1\<rparr>"
  have eq: "x86_guest_memory_initialize m (Some bi) (Some t) ctx =
      (if count_available bm = 0 then (X86_GUEST_MEMORY_INVALID_MAP, refused)
       else if base = 0 \<or> limit \<le> base then (X86_GUEST_MEMORY_INVALID_MAP,
          refused\<lparr>managed_base := base, managed_limit := limit, available_pages := 0\<rparr>)
       else (X86_GUEST_MEMORY_OK, accepted))"
    using assms(1-4)
    by (simp add: x86_guest_memory_initialize_def Let_def bm_def [symmetric] managed_fold_pages base_def limit_def
        cleared_def refused_def accepted_def split: prod.split)
  have card: "unat (count_available bm) = card ?S"
  proof -
    have "card ?S \<le> card {0..<X86_GUEST_MEMORY_PAGE_COUNT}" by (rule card_mono) (auto simp: pages_of_def)
    then show ?thesis by (simp add: count_available_card unat_of_nat)
  qed
  show ?thesis
  proof (cases "?S = {}")
    case True
    then have "count_available bm = 0" using card by (simp add: unat_eq_0)
    then have "st = X86_GUEST_MEMORY_INVALID_MAP" "m' = refused" using eq run by simp_all
    with True S assms(3) show ?thesis by (simp add: refused_def cleared_def)
  next
    case False
    have mm: "Min ?S \<in> ?S" "Max ?S \<in> ?S" using False by (simp_all)
    then have lt: "Min ?S < X86_GUEST_MEMORY_PAGE_COUNT + 1" "Suc (Max ?S) < X86_GUEST_MEMORY_PAGE_COUNT + 1"
      by (auto simp: pages_of_def)
    have bl: "base = 0x800000 + of_nat (Min ?S) * 0x1000" "limit = 0x800000 + of_nat (Suc (Max ?S)) * 0x1000"
      using False by (simp_all add: base_def limit_def managed_bounds_def)
    have u: "unat base = page_start (Min ?S)" "unat limit = page_start (Suc (Max ?S))"
      unfolding bl by (rule bounds_pages(2) [OF lt(1)], rule bounds_pages(2) [OF lt(2)])
    have le: "Min ?S \<le> Max ?S" using mm by simp
    have "base \<noteq> 0" using u(1) by (metis add_is_0 unat_0 zero_neq_numeral)
    moreover have "\<not> limit \<le> base" using u le by (simp add: word_le_nat_alt)
    moreover have "count_available bm \<noteq> 0" using card False by (auto simp: unat_eq_0)
    ultimately have out: "st = X86_GUEST_MEMORY_OK" "m' = accepted" using eq run by simp_all
    have first: "unat (managed_first_page accepted) = Min ?S" and last: "unat (managed_page_limit accepted) = Suc (Max ?S)"
      using bounds_pages(1) [OF lt(1)] bounds_pages(1) [OF lt(2)]
      by (simp_all add: managed_first_page_def managed_page_limit_def accepted_def bl)
    have none: "live_slots (leases accepted) = {}"
      by (simp add: live_slots_def accepted_def cleared_def empty_lease_slot_def)
    have zero: "pages_of (allocated accepted) = {}"
      by (simp add: pages_of_def accepted_def cleared_def bit_is_set_def)
    have "?S \<subseteq> {Min ?S..<Suc (Max ?S)}" by (auto simp: less_Suc_eq_le)
    then have "pages_inv accepted"
      unfolding pages_inv_def first last none zero using lt(2) le card
      by (simp add: accepted_def cleared_def empty_lease_slot_def disjoint_family_on_def)
    moreover have "resolve_lease accepted l \<noteq> Inr j" for l j using resolve_live [of accepted l j] none by blast
    then have "lease_map accepted l = None" for l by (simp add: lease_map_def split: sum.split)
    then have "lease_map accepted = Map.empty" by blast
    moreover have "\<not> spent accepted l \<or> lease_gen_of l = 0" for l
      by (auto simp: spent_def accepted_def cleared_def empty_lease_slot_def)
    moreover have "4096 dvd page_start p" for p by (intro dvd_add dvd_triv_right) simp
    then have "bounds_ok accepted"
      using u le lt(2) by (simp add: bounds_ok_def accepted_def word_le_nat_alt word_less_nat_alt)
    ultimately have "fresh_manager bi t ctx accepted"
      unfolding fresh_manager_def using zero S by (simp add: accepted_def cleared_def)
    with out False S show ?thesis by simp
  qed
qed

end
