(* ===== verification/PhysicalSafety.thy ===== *)
theory PhysicalSafety
  imports PhysicalInit
begin

text \<open>What the owner of guest pages guarantees over its whole life, from its initialization through any
  sequence of allocations and releases by any owners with any arguments, whatever the zeroing
  callback answers.\<close>

section \<open>Histories of the manager\<close>

inductive lease_step ::
  "'z x86_guest_memory_manager \<times> 'z \<Rightarrow> 'z x86_guest_memory_manager \<times> 'z \<Rightarrow> bool" where
  allocated: "x86_guest_memory_allocate m z owner n = (st, m', z', r) \<Longrightarrow> lease_step (m, z) (m', z')"
| released: "x86_guest_memory_release m z owner l = (st, m', z') \<Longrightarrow> lease_step (m, z) (m', z')"
| interfered: "lease_step (m, z) (m, z')"

inductive managed :: "x86_boot_info \<Rightarrow> 'z x86_guest_memory_manager \<Rightarrow> 'z \<Rightarrow> bool" for bi where
  booted: "x86_guest_memory_initialize m0 (Some bi) table ctx = (X86_GUEST_MEMORY_OK, m) \<Longrightarrow> managed bi m z"
| stepped: "managed bi m z \<Longrightarrow> lease_step (m, z) (m', z') \<Longrightarrow> managed bi m' z'"

inductive_cases lease_stepE: "lease_step (m, z) (m', z')"

lemma outcome_available:
  "allocation_outcome m z owner n st m' z' r \<Longrightarrow> available m' = available m"
  "release_outcome m z owner l st m' z' \<Longrightarrow> available m' = available m"
  by (auto simp: allocation_outcome_def release_outcome_def allocated_as_def released_as_def unchanged_def
      split: option.splits if_splits)

lemma step_bounds:
  "x86_guest_memory_allocate m z owner n = (st, m', z', r) \<Longrightarrow> bounds_ok m' = bounds_ok m"
  "x86_guest_memory_release m z owner l = (st, m', z') \<Longrightarrow> bounds_ok m' = bounds_ok m"
proof -
  have slot: "managed_base (snd (find_lease_slot m)) = managed_base m" "managed_limit (snd (find_lease_slot m)) = managed_limit m"
    by (simp_all add: find_lease_slot_def case_prod_unfold Let_def)
  have "managed_base (fst (snd (x86_guest_memory_allocate m z owner n))) = managed_base m"
    "managed_limit (fst (snd (x86_guest_memory_allocate m z owner n))) = managed_limit m"
    using slot by (simp_all add: x86_guest_memory_allocate_def Let_def case_prod_unfold split: option.split)
  then show "x86_guest_memory_allocate m z owner n = (st, m', z', r) \<Longrightarrow> bounds_ok m' = bounds_ok m"
    by (simp add: bounds_ok_def)
  have "managed_base (fst (snd (x86_guest_memory_release m z owner l))) = managed_base m"
    "managed_limit (fst (snd (x86_guest_memory_release m z owner l))) = managed_limit m"
    by (simp_all add: x86_guest_memory_release_def Let_def case_prod_unfold split: option.split sum.split)
  then show "x86_guest_memory_release m z owner l = (st, m', z') \<Longrightarrow> bounds_ok m' = bounds_ok m"
    by (simp add: bounds_ok_def)
qed

lemma step_ok:
  assumes "x86_guest_memory_allocate m z owner n = (X86_GUEST_MEMORY_OK, m', z', r)"
  shows "manager_poisoned m' = manager_poisoned m \<and> memory_ops m' = memory_ops m"
proof -
  have slot: "memory_ops (snd (find_lease_slot m)) = memory_ops m" "manager_poisoned (snd (find_lease_slot m)) = manager_poisoned m"
    by (simp_all add: find_lease_slot_def case_prod_unfold Let_def)
  have "memory_ops (fst (snd (x86_guest_memory_allocate m z owner n))) = memory_ops m"
    "fst (x86_guest_memory_allocate m z owner n) = X86_GUEST_MEMORY_OK \<longrightarrow>
       manager_poisoned (fst (snd (x86_guest_memory_allocate m z owner n))) = manager_poisoned m"
    using slot by (simp_all add: x86_guest_memory_allocate_def Let_def case_prod_unfold split: option.split)
  with assms show ?thesis by simp
qed

lemma lease_step_keeps:
  assumes "lease_step (m, z) (m', z')" "pages_inv m"
  shows "pages_inv m' \<and> available m' = available m \<and> bounds_ok m' = bounds_ok m \<and> (\<forall>l. spent m l \<longrightarrow> spent m' l)"
proof -
  consider (alloc) owner n st r where "x86_guest_memory_allocate m z owner n = (st, m', z', r)"
    | (free) owner l st where "x86_guest_memory_release m z owner l = (st, m', z')" | (same) "m' = m"
    using assms(1) by (auto elim: lease_stepE)
  then show ?thesis
  proof cases
    case alloc
    from allocate_cases [OF assms(2) alloc] step_bounds(1) [OF alloc] show ?thesis by (auto dest: outcome_available)
  next
    case free
    from release_cases [OF assms(2) free] step_bounds(2) [OF free] show ?thesis by (auto dest: outcome_available)
  qed (use assms(2) in simp)
qed

lemma lease_steps_keep:
  assumes "lease_step\<^sup>*\<^sup>* a b" "pages_inv (fst a)"
  shows "pages_inv (fst b) \<and> (\<forall>l. spent (fst a) l \<longrightarrow> spent (fst b) l)"
  using assms
proof (induction rule: rtranclp_induct)
  case (step b c)
  then show ?case using lease_step_keeps [of "fst b" "snd b" "fst c" "snd c"] by simp
qed simp

lemma initialize_ok:
  assumes "x86_guest_memory_initialize m (Some bi) table ctx = (X86_GUEST_MEMORY_OK, m')"
  obtains t where "table = Some t" "fresh_manager bi t ctx m'"
proof -
  have pre: "table \<noteq> None \<and> valid_identity ctx \<and> manager_constructed m = 1 \<and> manager_initialized m = 0 \<and>
      x86_memory_map_is_valid (Some bi)"
    using assms unfolding x86_guest_memory_initialize_def
    by (metis (no_types, lifting) prod.inject x86_guest_memory_status.distinct(1,3))
  then obtain t where t: "table = Some t" by blast
  with assms pre initialize_cases [of ctx m bi t X86_GUEST_MEMORY_OK m'] have "fresh_manager bi t ctx m'"
    by (auto split: if_splits)
  with t that show thesis by blast
qed

lemma managed_inv: "managed bi m z \<Longrightarrow> pages_inv m \<and> bounds_ok m \<and> pages_of (available m) = {p. page_available bi p}"
proof (induction rule: managed.induct)
  case (booted m0 table ctx m z)
  then show ?case by (auto simp: fresh_manager_def elim: initialize_ok)
next
  case (stepped m z m' z')
  then show ?case using lease_step_keeps by metis
qed

section \<open>Isolation\<close>

definition run_bytes :: "nat \<Rightarrow> nat \<Rightarrow> nat set" where
  "run_bytes f n = {page_start f..<page_start (f + n)}"

lemma run_bytes_pages: "run_bytes f n = (\<Union>p \<in> {f..<f + n}. page_bytes p)"
proof -
  have "x \<in> run_bytes f n \<longleftrightarrow> (\<exists>p \<in> {f..<f + n}. x \<in> page_bytes p)" for x
  proof
    assume "x \<in> run_bytes f n"
    then have "f \<le> (x - 0x800000) div 4096" "(x - 0x800000) div 4096 < f + n" "0x800000 \<le> x"
      by (auto simp: run_bytes_def less_mult_imp_div_less intro: div_le_mono [of "f * 4096", simplified])
    moreover have "x \<in> page_bytes ((x - 0x800000) div 4096)" using \<open>0x800000 \<le> x\<close>
      using div_mult_mod_eq [of "x - 0x800000" 4096] mod_less_divisor [of 4096 "x - 0x800000"]
      unfolding page_bytes_def atLeastLessThan_iff by linarith
    ultimately show "\<exists>p \<in> {f..<f + n}. x \<in> page_bytes p" by (intro bexI) auto
  qed (auto simp: run_bytes_def page_bytes_def)
  then show ?thesis by blast
qed

lemma page_bytes_disjoint: "x \<in> page_bytes p \<Longrightarrow> x \<in> page_bytes q \<Longrightarrow> p = q"
  unfolding page_bytes_def by simp

lemma lease_map_pages:
  assumes "pages_inv m" "lease_map m l = Some (owner, f, n)"
  shows "{f..<f + n} \<subseteq> pages_of (allocated m)" "0 < n"
proof -
  obtain i where i: "resolve_lease m l = Inr i" "f = unat (lease_first_page (leases m i))"
    "n = unat (lease_page_count (leases m i))"
    using assms(2) by (auto simp: lease_map_Some_iff)
  note live_pages [OF assms(1) resolve_live [OF i(1)]]
  then show "{f..<f + n} \<subseteq> pages_of (allocated m)" "0 < n" by (simp_all add: i lease_pages_def)
qed

lemma lease_map_disjoint:
  assumes "pages_inv m" "lease_map m l = Some (owner, f, n)" "lease_map m k = Some (other, g, j)" "l \<noteq> k"
  shows "{f..<f + n} \<inter> {g..<g + j} = {}"
proof -
  obtain a where a: "resolve_lease m l = Inr a" "{f..<f + n} = lease_pages (leases m a)"
    using assms(2) by (auto simp: lease_map_Some_iff lease_pages_def)
  obtain b where b: "resolve_lease m k = Inr b" "{g..<g + j} = lease_pages (leases m b)"
    using assms(3) by (auto simp: lease_map_Some_iff lease_pages_def)
  have "a \<noteq> b" using a(1) b(1) assms(4) by (auto simp: resolve_lease_iff)
  moreover have "disjoint_family_on (\<lambda>i. lease_pages (leases m i)) (live_slots (leases m))"
    using assms(1) unfolding pages_inv_def by blast
  ultimately show ?thesis using resolve_live [OF a(1)] resolve_live [OF b(1)] a(2) b(2)
    unfolding disjoint_family_on_def by blast
qed

section \<open>Capacity\<close>

lemma largest_fold:
  assumes "a \<le> b" "b \<le> X86_GUEST_MEMORY_PAGE_COUNT" "fold (largest_step m) [a..<b] (0, 0) = (cur, lg)"
  shows "unat cur \<le> b - a \<and> {b - unat cur..<b} \<subseteq> free_pages m \<and>
    (\<forall>f. a \<le> f \<and> f \<le> b \<and> {f..<b} \<subseteq> free_pages m \<longrightarrow> b - f \<le> unat cur) \<and>
    (\<exists>f. a \<le> f \<and> f + unat lg \<le> b \<and> {f..<f + unat lg} \<subseteq> free_pages m) \<and>
    (\<forall>f n. a \<le> f \<and> f + n \<le> b \<and> {f..<f + n} \<subseteq> free_pages m \<longrightarrow> n \<le> unat lg)"
  using assms
proof (induction b arbitrary: cur lg rule: nat_induct_at_least)
  case base
  then show ?case by auto
next
  case (Suc b)
  obtain c l where cl: "fold (largest_step m) [a..<b] (0, 0) = (c, l)" by fastforce
  note IH = Suc.IH [OF _ cl]
  have step: "largest_step m b (c, l) = (cur, lg)" using Suc.prems Suc.hyps cl by simp
  have bf: "page_is_free m b \<longleftrightarrow> b \<in> free_pages m" using Suc.prems by (intro page_is_free_iff) simp
  have IH1: "unat c \<le> b - a" "{b - unat c..<b} \<subseteq> free_pages m"
    and IH2: "\<And>f. a \<le> f \<Longrightarrow> f \<le> b \<Longrightarrow> {f..<b} \<subseteq> free_pages m \<Longrightarrow> b - f \<le> unat c"
    and IH4: "\<And>f n. a \<le> f \<Longrightarrow> f + n \<le> b \<Longrightarrow> {f..<f + n} \<subseteq> free_pages m \<Longrightarrow> n \<le> unat l"
    using IH Suc.prems by auto
  obtain f0 where f0: "a \<le> f0" "f0 + unat l \<le> b" "{f0..<f0 + unat l} \<subseteq> free_pages m" using IH Suc.prems by auto
  show ?case
  proof (cases "b \<in> free_pages m")
    case False
    then have out: "cur = 0" "lg = l" using step bf by (auto simp: largest_step_def)
    have none: "f = Suc b" if "f \<le> Suc b" "{f..<Suc b} \<subseteq> free_pages m" for f
    proof (rule ccontr)
      assume "f \<noteq> Suc b"
      then have "b \<in> {f..<Suc b}" using that(1) by simp
      with that(2) False show False by blast
    qed
    have inside: "n \<le> unat l" if "a \<le> f" "f + n \<le> Suc b" "{f..<f + n} \<subseteq> free_pages m" for f n
    proof (cases "f + n \<le> b")
      case False
      then have "f + n = Suc b" using that by simp
      then have "n = 0" using none [of f] that(3) by auto
      then show ?thesis by simp
    qed (use IH4 that in blast)
    have ex: "\<exists>f. a \<le> f \<and> f + unat l \<le> Suc b \<and> {f..<f + unat l} \<subseteq> free_pages m"
      using f0 le_SucI by blast
    have suffix: "Suc b - f \<le> 0" if "a \<le> f \<and> f \<le> Suc b \<and> {f..<Suc b} \<subseteq> free_pages m" for f
      using none [of f] that by simp
    show ?thesis unfolding out unat_0 using suffix inside ex by (intro conjI allI impI) (simp_all, metis)
  next
    case True
    have "unat c + 1 < 2 ^ 32" using IH1(1) Suc.prems by simp
    then have c1: "unat (c + 1) = unat c + 1" by (simp add: unat_word_ariths)
    have out: "cur = c + 1" "unat lg = max (unat l) (unat c + 1)"
      using step bf True by (auto simp: largest_step_def word_less_nat_alt c1 max_def)
    have run: "{Suc b - (unat c + 1)..<Suc b} \<subseteq> free_pages m"
      using IH1(2) True by (auto simp: less_Suc_eq)
    have suffix: "Suc b - f \<le> unat c + 1" if "a \<le> f" "f \<le> Suc b" "{f..<Suc b} \<subseteq> free_pages m" for f
    proof (cases "f \<le> b")
      case True
      moreover from that(3) have "{f..<b} \<subseteq> free_pages m" by auto
      ultimately show ?thesis using IH2 [OF that(1)] by simp
    qed (use that in simp)
    have inside: "n \<le> max (unat l) (unat c + 1)" if "a \<le> f" "f + n \<le> Suc b" "{f..<f + n} \<subseteq> free_pages m" for f n
    proof (cases "f + n \<le> b")
      case True
      then show ?thesis using IH4 [OF that(1) _ that(3)] by simp
    next
      case False
      then have e: "f + n = Suc b" using that by simp
      then show ?thesis using suffix [OF that(1)] that(3) by simp
    qed
    have ex: "\<exists>f. a \<le> f \<and> f + unat lg \<le> Suc b \<and> {f..<f + unat lg} \<subseteq> free_pages m"
    proof (cases "unat l \<le> unat c")
      case True
      have bc: "unat c \<le> b" "a \<le> b - unat c" using IH1(1) Suc.hyps by simp_all
      have "{b - unat c..<b - unat c + (unat c + 1)} \<subseteq> free_pages m" using run bc by simp
      then show ?thesis using True bc by (intro exI [of _ "b - unat c"]) (simp add: out(2) max_def)
    next
      case False
      then have "unat lg = unat l" by (simp add: out(2))
      then show ?thesis using f0 by (intro exI [of _ f0]) simp
    qed
    have "unat cur \<le> Suc b - a" using IH1(1) Suc.hyps by (simp add: out(1) c1)
    then show ?thesis
      using run suffix inside ex unfolding out(1) c1 out(2) by (intro conjI allI impI) (simp_all, metis)
  qed
qed

lemma find_lease_slot_free:
  assumes "i < X86_GUEST_MEMORY_LEASE_COUNT" "lease_state (leases m i) = X86_GUEST_MEMORY_LEASE_FREE"
    "lease_generation (leases m i) < X86_GUEST_MEMORY_GENERATION_MAX"
  shows "fst (find_lease_slot m) \<noteq> X86_GUEST_MEMORY_LEASE_COUNT"
proof -
  have "fst (find_lease_loop xs slots) \<noteq> X86_GUEST_MEMORY_LEASE_COUNT"
    if "i \<in> set xs" "set xs \<subseteq> {0..<X86_GUEST_MEMORY_LEASE_COUNT}" "slots i = leases m i" for xs slots
    using that
  proof (induction xs arbitrary: slots)
    case (Cons x xs)
    then show ?case using assms(2,3) by (cases "x = i") (auto simp: Let_def)
  qed simp
  from this [of "[0..<1024]" "leases m"] assms(1) show ?thesis
    by (simp add: find_lease_slot_def case_prod_unfold Let_def)
qed

lemma allocate_succeeds:
  assumes inv: "pages_inv m" and ok: "manager_poisoned m = 0" "valid_identity owner" "n \<noteq> 0"
    and run: "{f..<f + unat n} \<subseteq> free_pages m"
    and slot: "i < X86_GUEST_MEMORY_LEASE_COUNT" "lease_state (leases m i) = X86_GUEST_MEMORY_LEASE_FREE"
      "lease_generation (leases m i) < X86_GUEST_MEMORY_GENERATION_MAX"
    and ops: "memory_ops m = Some t"
    and zero: "\<And>g. {g..<g + unat n} \<subseteq> free_pages m \<Longrightarrow> g + unat n \<le> X86_GUEST_MEMORY_PAGE_COUNT \<Longrightarrow>
      fst (zero t z (zero_context m) (0x00800000 + of_nat g * 0x1000) (n * 0x1000)) = 0"
  shows "fst (x86_guest_memory_allocate m z owner n) = X86_GUEST_MEMORY_OK"
proof -
  have init: "manager_initialized m = 1" using inv unfolding pages_inv_def by blast
  have room: "\<not> (n > 63488 \<or> n > available_pages m - allocated_pages m)" using no_room [OF inv] run by blast
  obtain j m1 where s: "find_lease_slot m = (j, m1)" by fastforce
  note k = find_lease_slot_keeps [OF inv s]
  have j: "j \<noteq> X86_GUEST_MEMORY_LEASE_COUNT" using find_lease_slot_free [OF slot] s by simp
  have "free_pages m1 = free_pages m" by (simp add: free_pages_def k)
  then have fr: "find_free_run m1 n \<noteq> X86_GUEST_MEMORY_PAGE_COUNT"
    and good: "{find_free_run m1 n..<find_free_run m1 n + unat n} \<subseteq> free_pages m" "find_free_run m1 n + unat n \<le> X86_GUEST_MEMORY_PAGE_COUNT"
    using find_free_run_correct [OF k(1) ok(3)] run ok(3) by (auto simp: unat_eq_0)
  obtain z1 where "zero t z (zero_context m) (0x00800000 + of_nat (find_free_run m1 n) * 0x1000) (n * 0x1000) = (0, z1)"
    using zero [OF good] by (metis prod.collapse)
  moreover have "\<not> allocated_pages m > available_pages m" using pages_invD(1) [OF inv] by simp
  ultimately show ?thesis
    using init ok room s j fr ops k(6,7) by (simp add: x86_guest_memory_allocate_def Let_def call_zero_def)
qed

lemma query_capacity_correct:
  assumes inv: "pages_inv m" and "manager_poisoned m = 0"
    and base: "bounds_ok m"
  shows "\<exists>largest total. x86_guest_memory_query_capacity m = Inr (largest, total, managed_limit m - 1) \<and>
    unat total = card (free_pages m) \<and> (\<exists>f. {f..<f + unat largest} \<subseteq> free_pages m) \<and>
    (\<forall>f n. {f..<f + n} \<subseteq> free_pages m \<longrightarrow> n \<le> unat largest)"
proof -
  let ?lo = "unat (managed_first_page m)" and ?hi = "unat (managed_page_limit m)"
  have lh: "?lo \<le> ?hi" "?hi \<le> X86_GUEST_MEMORY_PAGE_COUNT" and init: "manager_initialized m = 1"
    using inv unfolding pages_inv_def by linarith+
  obtain cur lg where f: "fold (largest_step m) [?lo..<?hi] (0, 0) = (cur, lg)" by fastforce
  note lf = largest_fold [OF lh f]
  have "x86_guest_memory_query_snapshot m = Inr \<lparr>largest_free_pages = ucast lg,
      total_free_pages = ucast (available_pages m - allocated_pages m), managed_pages = ucast (available_pages m),
      highest_address = managed_limit m - 1\<rparr>"
    using init assms(2) base pages_invD(1) [OF inv] f
    by (simp add: x86_guest_memory_query_snapshot_def bounds_ok_def not_less not_le)
  moreover have "\<not> (ucast w :: u64) > 0xffffffff" "(ucast (ucast w :: u64) :: u32) = w" for w :: u32
    using unsigned_less [of w, where ?'a = nat] by (simp_all add: word_less_nat_alt unsigned_ucast_eq take_bit_nat_eq_self take_bit_word_eq_self)
  ultimately have "x86_guest_memory_query_capacity m = Inr (lg, available_pages m - allocated_pages m, managed_limit m - 1)"
    by (simp add: x86_guest_memory_query_capacity_def)
  moreover have "n \<le> unat lg" if "{g..<g + n} \<subseteq> free_pages m" for g n
  proof (cases "n = 0")
    case False
    then have "g \<in> {g..<g + n}" "g + n - 1 \<in> {g..<g + n}" by auto
    then have "g \<in> {?lo..<?hi}" "g + n - 1 \<in> {?lo..<?hi}" using that pages_invD(3) [OF inv] by blast+
    then have "?lo \<le> g \<and> g + n \<le> ?hi" by auto
    with lf that show ?thesis by blast
  qed simp
  ultimately show ?thesis using lf pages_invD(2) [OF inv] by blast
qed

section \<open>A sample manager\<close>

definition sample_zero :: "unit x86_guest_memory_ops" where
  "sample_zero = \<lparr>zero = (\<lambda>z ctx address count. (0, z))\<rparr>"

definition blank_manager :: "'z x86_guest_memory_manager" where
  "blank_manager = x86_guest_memory_construct \<lparr>available = (\<lambda>_. 0), allocated = (\<lambda>_. 0), leases = (\<lambda>_. empty_lease_slot),
     memory_ops = None, zero_context = 0, managed_base = 0, managed_limit = 0, available_pages = 0, allocated_pages = 0,
     next_free_hint = 0, manager_initialized = 0, manager_constructed = 0, manager_poisoned = 0\<rparr>"

definition sample_manager :: "unit x86_guest_memory_manager" where
  "sample_manager = snd (x86_guest_memory_initialize blank_manager (Some sample_boot_info) (Some sample_zero) 1)"

lemma sample_page: "page_available sample_boot_info 0"
proof -
  have w: "\<forall>r \<in> set sample_ranges. range_is_well_formed r" using valid_ranges [OF sample_valid] by simp
  have "range_covers_page (memory_range 0x100000 0xf00000 1) 0"
    using w by (subst range_page_iff) (auto simp: sample_ranges_def memory_range_def range_limit_def)
  moreover have "\<not> range_meets_page (memory_range 0xf0000 0x10000 2) 0"
    using w by (subst range_page_iff) (auto simp: sample_ranges_def memory_range_def range_limit_def)
  ultimately show ?thesis
    by (simp add: page_available_def sample_ranges_def X86_BOOT_MEMORY_USABLE_def)
      (simp add: memory_range_def)
qed

lemma blank_ready: "valid_identity 1" "manager_constructed blank_manager = 1" "manager_initialized blank_manager = 0"
  by (simp_all add: blank_manager_def x86_guest_memory_construct_def valid_identity_def KERNEL_OBJECT_HANDLE_INVALID_def)

lemma sample_initialized:
  "x86_guest_memory_initialize blank_manager (Some sample_boot_info) (Some sample_zero) 1 = (X86_GUEST_MEMORY_OK, sample_manager)"
  "fresh_manager sample_boot_info sample_zero 1 sample_manager"
proof -
  obtain st m where i: "x86_guest_memory_initialize blank_manager (Some sample_boot_info) (Some sample_zero) 1 = (st, m)" by fastforce
  have "{p. page_available sample_boot_info p} \<noteq> {}" using sample_page by blast
  then have "st = X86_GUEST_MEMORY_OK \<and> fresh_manager sample_boot_info sample_zero 1 m"
    using initialize_cases [OF _ _ _ sample_valid i]
    by (simp add: blank_manager_def x86_guest_memory_construct_def valid_identity_def KERNEL_OBJECT_HANDLE_INVALID_def)
  with i show "x86_guest_memory_initialize blank_manager (Some sample_boot_info) (Some sample_zero) 1 = (X86_GUEST_MEMORY_OK, sample_manager)"
    "fresh_manager sample_boot_info sample_zero 1 sample_manager" by (simp_all add: sample_manager_def)
qed

lemma sample_managed: "managed sample_boot_info sample_manager ()"
  by (rule managed.booted [OF sample_initialized(1)])

lemma sample_allocates:
  obtains m l a where "x86_guest_memory_allocate sample_manager () 7 1 = (X86_GUEST_MEMORY_OK, m, (), Some (l, a))"
    "lease_map m l \<noteq> None"
proof -
  note f = sample_initialized(2) [unfolded fresh_manager_def]
  have "0 \<in> free_pages sample_manager" using f sample_page by (auto simp: free_pages_def)
  then have "fst (x86_guest_memory_allocate sample_manager () 7 1) = X86_GUEST_MEMORY_OK"
    using f by (intro allocate_succeeds [where f = 0 and i = 0 and t = sample_zero])
      (simp_all add: sample_zero_def empty_lease_slot_def valid_identity_def KERNEL_OBJECT_HANDLE_INVALID_def)
  then obtain m z r where run: "x86_guest_memory_allocate sample_manager () 7 1 = (X86_GUEST_MEMORY_OK, m, z, r)"
    by (metis prod.collapse)
  have "pages_inv sample_manager" using f by blast
  from allocate_cases [OF this run] obtain l a where "r = Some (l, a)" "lease_map m l \<noteq> None"
    by (cases r) (auto simp: allocation_outcome_def allocated_as_def)
  with run that show thesis by simp
qed

section \<open>Properties\<close>

text \<open>C9: initialization on a valid map selects exactly the pages between 8 and 256 MiB that lie wholly in
  one usable range and meet no range of another type, in whatever order the firmware lists them, and
  starts with all of them free; it refuses the map exactly when there is no such page. Every byte of a
  selected page is usable memory.\<close>

theorem initialization_selects_usable_pages:
  fixes m :: "'z x86_guest_memory_manager"
  assumes "valid_identity ctx" "manager_constructed m = 1" "manager_initialized m = 0"
    and "x86_memory_map_is_valid (Some bi)"
    and "x86_guest_memory_initialize m (Some bi) (Some t) ctx = (st, m')"
  shows "(if \<exists>p. page_available bi p
          then st = X86_GUEST_MEMORY_OK \<and> pages_of (available m') = {p. page_available bi p} \<and>
            free_pages m' = pages_of (available m') \<and> lease_map m' = Map.empty \<and>
            (\<forall>p \<in> pages_of (available m'). \<forall>x \<in> page_bytes p. byte_usable bi x)
          else st = X86_GUEST_MEMORY_INVALID_MAP \<and> manager_initialized m' = 0)"
  using initialize_cases [OF assms] page_available_usable
  by (auto simp: fresh_manager_def free_pages_def split: if_splits)

theorem initialization_selects_usable_pages_witness:
  "pages_of (available sample_manager) = {p. page_available sample_boot_info p} \<and>
   0 \<in> pages_of (available sample_manager) \<and> byte_usable sample_boot_info 0x800123"
proof -
  have a: "pages_of (available sample_manager) = {p. page_available sample_boot_info p}"
    "\<forall>p \<in> pages_of (available sample_manager). \<forall>x \<in> page_bytes p. byte_usable sample_boot_info x"
    using initialization_selects_usable_pages [OF blank_ready sample_valid sample_initialized(1)] sample_page
    by (simp_all split: if_splits)
  with sample_page have p: "0 \<in> pages_of (available sample_manager)" by blast
  moreover have "0x800123 \<in> page_bytes 0" by (simp add: page_bytes_def)
  ultimately show ?thesis using a by blast
qed

text \<open>C10: at every moment of the manager's life two different live leases never share a byte, and every
  byte of a lease is usable memory of the firmware map between 8 and 256 MiB.\<close>

theorem leases_are_isolated:
  assumes "managed bi m z" and "lease_map m l = Some (owner, f, n)"
  shows "0 < n \<and> run_bytes f n \<subseteq> {0x800000..<0x10000000} \<and> (\<forall>x \<in> run_bytes f n. byte_usable bi x) \<and>
    (\<forall>k other g j. k \<noteq> l \<and> lease_map m k = Some (other, g, j) \<longrightarrow> run_bytes f n \<inter> run_bytes g j = {})"
proof -
  note inv = managed_inv [OF assms(1)]
  note p = lease_map_pages [OF conjunct1 [OF inv] assms(2)]
  have sub: "page_available bi q" if "q \<in> {f..<f + n}" for q
    using that p(1) inv unfolding pages_inv_def by blast
  have "run_bytes f n \<inter> run_bytes g j = {}" if "k \<noteq> l \<and> lease_map m k = Some (other, g, j)" for k other g j
    using lease_map_disjoint [OF conjunct1 [OF inv] assms(2), of k other g j] that page_bytes_disjoint
    unfolding run_bytes_pages by blast
  moreover have "f + n - 1 \<in> {f..<f + n}" using p(2) by simp
  then have "f + n - 1 < 63488" using sub [of "f + n - 1"] unfolding page_available_def by blast
  then have "run_bytes f n \<subseteq> {0x800000..<0x10000000}" unfolding run_bytes_def by (auto simp: add_mult_distrib)
  ultimately show ?thesis using p(2) sub page_available_usable unfolding run_bytes_pages by blast
qed

theorem leases_are_isolated_witness:
  "\<exists>m l f n. managed sample_boot_info m () \<and> lease_map m l = Some (7, f, n) \<and> 0 < n \<and>
     run_bytes f n \<subseteq> {0x800000..<0x10000000}"
proof -
  obtain m l a where run: "x86_guest_memory_allocate sample_manager () 7 1 = (X86_GUEST_MEMORY_OK, m, (), Some (l, a))"
    by (rule sample_allocates)
  have m: "managed sample_boot_info m ()"
    by (rule managed.stepped [OF sample_managed lease_step.allocated [OF run]])
  have "allocation_outcome sample_manager () 7 1 X86_GUEST_MEMORY_OK m () (Some (l, a))"
    using allocate_cases [OF _ run] sample_initialized(2) by (simp add: fresh_manager_def)
  then obtain f where "lease_map m l = Some (7, f, 1)" by (auto simp: allocation_outcome_def allocated_as_def)
  with m leases_are_isolated [OF m this] show ?thesis by blast
qed

text \<open>C11: an allocation either hands out a lease that was never handed out before, for a run of free
  pages that were zeroed through the callback with success just before, and adds exactly that lease;
  or it reports an error and changes no lease and no page. It reports a lack of memory only if no run
  of free pages is long enough.\<close>

theorem allocation_refines_lease_map:
  assumes "managed bi m z" and "x86_guest_memory_allocate m z owner n = (st, m', z', r)"
  shows "case r of
      Some (l, a) \<Rightarrow> st = X86_GUEST_MEMORY_OK \<and>
        (\<exists>f t. unat a = page_start f \<and> {f..<f + unat n} \<subseteq> free_pages m \<and> lease_map m l = None \<and> \<not> spent m l \<and>
           lease_map m' = (lease_map m)(l \<mapsto> (owner, f, unat n)) \<and> free_pages m' = free_pages m - {f..<f + unat n} \<and>
           memory_ops m = Some t \<and> zero t z (zero_context m) a (n * 0x1000) = (0, z'))
    | None \<Rightarrow> st \<noteq> X86_GUEST_MEMORY_OK \<and> lease_map m' = lease_map m \<and> free_pages m' = free_pages m \<and>
        (st = X86_GUEST_MEMORY_NO_MEMORY \<longrightarrow> (\<forall>f. \<not> {f..<f + unat n} \<subseteq> free_pages m))"
proof -
  have inv: "pages_inv m" using managed_inv [OF assms(1)] by blast
  have o: "allocation_outcome m z owner n st m' z' r" using allocate_cases [OF inv assms(2)] by blast
  have addr: "unat (0x00800000 + of_nat f * 0x1000 :: u32) = page_start f" if "f + unat n \<le> 63488" for f
    using that by (simp add: unat_word_ariths unat_of_nat)
  show ?thesis
  proof (cases r)
    case None
    with o show ?thesis by (auto simp: allocation_outcome_def unchanged_def free_pages_def)
  next
    case (Some la)
    obtain l a where la: "la = (l, a)" by fastforce
    from o Some la obtain f t where f: "st = X86_GUEST_MEMORY_OK" "a = 0x00800000 + of_nat f * 0x1000" "f + unat n \<le> 63488"
        "allocated_as m owner (unat n) l f m'" "memory_ops m = Some t" "zero t z (zero_context m) a (n * 0x1000) = (0, z')"
      by (auto simp: allocation_outcome_def)
    then have "free_pages m' = free_pages m - {f..<f + unat n}" by (auto simp: allocated_as_def free_pages_def)
    with f addr [OF f(3)] show ?thesis unfolding Some la by (auto simp: allocated_as_def intro!: exI [of _ f])
  qed
qed

theorem allocation_refines_lease_map_witness:
  "\<exists>m l a f. x86_guest_memory_allocate sample_manager () 7 1 = (X86_GUEST_MEMORY_OK, m, (), Some (l, a)) \<and>
     lease_map m = [l \<mapsto> (7, f, 1)] \<and> unat a = page_start f"
proof -
  obtain m l a where run: "x86_guest_memory_allocate sample_manager () 7 1 = (X86_GUEST_MEMORY_OK, m, (), Some (l, a))"
    by (rule sample_allocates)
  have "lease_map sample_manager = Map.empty" using sample_initialized(2) by (simp add: fresh_manager_def)
  with allocation_refines_lease_map [OF sample_managed run] run show ?thesis by fastforce
qed

text \<open>C12: a release that succeeds was asked by the owner of a live lease; it removes exactly that lease and
  frees exactly its pages, after the callback zeroed them with success. Any other outcome leaves all
  leases and pages as they were.\<close>

theorem release_refines_lease_map:
  assumes "managed bi m z" and "x86_guest_memory_release m z owner l = (st, m', z')"
  shows "if st = X86_GUEST_MEMORY_OK
    then \<exists>f n t. lease_map m l = Some (owner, f, n) \<and> lease_map m' = (lease_map m)(l := None) \<and>
      free_pages m' = free_pages m \<union> {f..<f + n} \<and> memory_ops m = Some t \<and>
      zero t z (zero_context m) (0x00800000 + of_nat f * 0x1000) (of_nat n * 0x1000) = (0, z')
    else lease_map m' = lease_map m \<and> free_pages m' = free_pages m"
proof -
  have inv: "pages_inv m" using managed_inv [OF assms(1)] by blast
  have o: "release_outcome m z owner l st m' z'" using release_cases [OF inv assms(2)] by blast
  show ?thesis
  proof (cases "st = X86_GUEST_MEMORY_OK")
    case True
    with o obtain f n t where r: "released_as m owner n l f m'" "memory_ops m = Some t"
        "zero t z (zero_context m) (0x00800000 + of_nat f * 0x1000) (of_nat n * 0x1000) = (0, z')"
      by (auto simp: release_outcome_def)
    have a: "available m' = available m" "pages_of (allocated m') = pages_of (allocated m) - {f..<f + n}"
      "{f..<f + n} \<subseteq> pages_of (allocated m)" "lease_map m l = Some (owner, f, n)" "lease_map m' = (lease_map m)(l := None)"
      using r(1) by (simp_all add: released_as_def)
    moreover have "pages_of (allocated m) \<subseteq> pages_of (available m)" using inv unfolding pages_inv_def by blast
    ultimately have "free_pages m' = free_pages m \<union> {f..<f + n}"
      unfolding free_pages_def a(1,2) by blast
    then show ?thesis unfolding if_P [OF True] using r(2,3) a(4,5) by (intro exI conjI)
  next
    case False
    with o show ?thesis by (auto simp: release_outcome_def unchanged_def free_pages_def)
  qed
qed

lemma sample_releases:
  obtains m l a m' where "x86_guest_memory_allocate sample_manager () 7 1 = (X86_GUEST_MEMORY_OK, m, (), Some (l, a))"
    "x86_guest_memory_release m () 7 l = (X86_GUEST_MEMORY_OK, m', ())" "managed sample_boot_info m ()"
proof -
  obtain m l a where run: "x86_guest_memory_allocate sample_manager () 7 1 = (X86_GUEST_MEMORY_OK, m, (), Some (l, a))"
    by (rule sample_allocates)
  note f = sample_initialized(2) [unfolded fresh_manager_def]
  have m: "managed sample_boot_info m ()"
    by (rule managed.stepped [OF sample_managed lease_step.allocated [OF run]])
  have inv: "pages_inv m" using managed_inv [OF m] by blast
  have o: "allocation_outcome sample_manager () 7 1 X86_GUEST_MEMORY_OK m () (Some (l, a))"
    using allocate_cases [OF _ run] f by simp
  then obtain f where "lease_map m l = Some (7, f, 1)" by (auto simp: allocation_outcome_def allocated_as_def)
  then obtain i where i: "resolve_lease m l = Inr i" "lease_owner (leases m i) = 7" by (auto simp: lease_map_Some_iff)
  have k: "manager_poisoned m = 0 \<and> memory_ops m = Some sample_zero"
    using step_ok [OF run] f by simp
  have "fst (x86_guest_memory_release m () 7 l) = X86_GUEST_MEMORY_OK"
    using release_eq [OF inv _ _ i(1), of 7 sample_zero "()"] k i(2)
    by (simp add: sample_zero_def valid_identity_def KERNEL_OBJECT_HANDLE_INVALID_def)
  then obtain m' where "x86_guest_memory_release m () 7 l = (X86_GUEST_MEMORY_OK, m', ())" by (metis old.unit.exhaust prod.collapse)
  with run m that show thesis by blast
qed

theorem release_refines_lease_map_witness:
  "\<exists>m m' l f. managed sample_boot_info m () \<and> x86_guest_memory_release m () 7 l = (X86_GUEST_MEMORY_OK, m', ()) \<and>
     lease_map m l = Some (7, f, 1) \<and> lease_map m' l = None"
proof -
  obtain m l a m' where r: "x86_guest_memory_allocate sample_manager () 7 1 = (X86_GUEST_MEMORY_OK, m, (), Some (l, a))"
    "x86_guest_memory_release m () 7 l = (X86_GUEST_MEMORY_OK, m', ())" "managed sample_boot_info m ()"
    by (rule sample_releases)
  have "allocation_outcome sample_manager () 7 1 X86_GUEST_MEMORY_OK m () (Some (l, a))"
    using allocate_cases [OF _ r(1)] sample_initialized(2) by (simp add: fresh_manager_def)
  then obtain f where "lease_map m l = Some (7, f, 1)" by (auto simp: allocation_outcome_def allocated_as_def)
  moreover have "lease_map m' l = None" using release_refines_lease_map [OF r(3,2)] by auto
  ultimately show ?thesis using r by blast
qed

text \<open>C13: a lease that was released is dead forever: whatever calls follow, by whomever and with whatever
  arguments, inspecting or releasing it again reports a stale lease or an earlier refusal, and never
  resolves it to somebody else's pages.\<close>

theorem released_lease_never_revives:
  assumes "managed bi m z" and "x86_guest_memory_release m z owner l = (X86_GUEST_MEMORY_OK, m1, z1)"
    and "lease_step\<^sup>*\<^sup>* (m1, z1) (m2, z2)"
  shows "resolve_lease m2 l = Inl X86_GUEST_MEMORY_STALE_LEASE \<and> lease_map m2 l = None \<and>
    (\<forall>info. x86_guest_memory_inspect m2 l \<noteq> Inr info) \<and>
    fst (x86_guest_memory_release m2 z2 other l) \<noteq> X86_GUEST_MEMORY_OK"
proof -
  have inv: "pages_inv m" using managed_inv [OF assms(1)] by blast
  have "pages_inv m1" "spent m1 l"
    using release_cases [OF inv assms(2)] by (auto simp: release_outcome_def released_as_def)
  then have s: "spent m2 l" using lease_steps_keep [OF assms(3)] by simp
  note none = spent_unmapped [OF s]
  then have "resolve_lease m2 l \<noteq> Inr i" for i by (auto simp: lease_map_def)
  then obtain st where st: "resolve_lease m2 l = Inl st" by (cases "resolve_lease m2 l") auto
  then have "st = X86_GUEST_MEMORY_STALE_LEASE" by (auto simp: resolve_lease_def Let_def split: if_splits)
  moreover have "fst (x86_guest_memory_release m2 z2 other l) \<noteq> X86_GUEST_MEMORY_OK"
    using release_refused [of other m2 l st z2 "fst (x86_guest_memory_release m2 z2 other l)"
        "fst (snd (x86_guest_memory_release m2 z2 other l))" "snd (snd (x86_guest_memory_release m2 z2 other l))"] st by simp
  ultimately show ?thesis using none st by (simp add: x86_guest_memory_inspect_def)
qed

theorem released_lease_never_revives_witness:
  "\<exists>m m1 l. managed sample_boot_info m () \<and> x86_guest_memory_release m () 7 l = (X86_GUEST_MEMORY_OK, m1, ()) \<and>
     resolve_lease m1 l = Inl X86_GUEST_MEMORY_STALE_LEASE"
proof -
  obtain m l a m' where r: "x86_guest_memory_release m () 7 l = (X86_GUEST_MEMORY_OK, m', ())" "managed sample_boot_info m ()"
    by (rule sample_releases)
  with released_lease_never_revives [OF r(2,1) rtranclp.rtrancl_refl] show ?thesis by blast
qed



end
