(* ===== verification/NativeMemory.thy ===== *)
theory NativeMemory
  imports DosPrelude
begin

text \<open>
  Native memory as the kernel sees it: the bootstrap identity map of \<open>include/address.h\<close> and the
  bounded byte and string operations of \<open>libc32/string.c\<close>, on the flat memory of a 32-bit machine.
  A pointer is a 32-bit address, NULL the address 0, a \<open>size_t\<close> a natural number below \<open>2 ^ 32\<close>.
  The copying loops write one byte at a time, in the order the code has them, so that overlapping
  intervals behave as they do in the code. \<open>char\<close> is compared as the unsigned byte it is stored in.
\<close>

section \<open>The identity map\<close>

datatype address_status =
    ADDRESS_OK
  | ADDRESS_INVALID_ARGUMENT
  | ADDRESS_RANGE_OVERFLOW
  | ADDRESS_NOT_NATIVE_REPRESENTABLE
  | ADDRESS_NOT_MAPPED
  | ADDRESS_ACCESS_DENIED

record native_mapping =
  mapping_pointer :: u32
  mapping_length :: nat

text \<open>The mapping is written only on success here; on failure the code stores a NULL pointer and a
  length of zero, which no caller reads.\<close>

definition kernel_address_identity_map :: "u64 \<Rightarrow> u64 \<Rightarrow> address_status + native_mapping" where
  "kernel_address_identity_map address extent =
     (if extent > 0xffffffff then Inl ADDRESS_NOT_NATIVE_REPRESENTABLE
      else if extent \<noteq> 0 \<and> unat address + unat (extent - 1) \<ge> 2 ^ 64 then Inl ADDRESS_RANGE_OVERFLOW
      else if extent \<noteq> 0 \<and> address + (extent - 1) > 0xffffffff then Inl ADDRESS_NOT_NATIVE_REPRESENTABLE
      else if extent = 0 \<and> address > 0xffffffff then Inl ADDRESS_NOT_NATIVE_REPRESENTABLE
      else Inr \<lparr>mapping_pointer = ucast address, mapping_length = unat extent\<rparr>)"

section \<open>Byte spans and loops\<close>

datatype memory_status =
    MEMORY_OK
  | MEMORY_INVALID_ARGUMENT
  | MEMORY_OUT_OF_BOUNDS
  | MEMORY_OVERLAP
  | MEMORY_TRUNCATED

record byte_span =
  span_begin :: u32
  span_end :: u32

definition byte_span_create :: "u32 \<Rightarrow> nat \<Rightarrow> byte_span option" where
  "byte_span_create address extent =
     (if extent \<noteq> 0 \<and> unat address + extent \<ge> 2 ^ 32 then None
      else Some \<lparr>span_begin = address, span_end = (if extent \<noteq> 0 then address + of_nat extent else address)\<rparr>)"

definition byte_spans_intersect :: "byte_span \<Rightarrow> byte_span \<Rightarrow> bool" where
  "byte_spans_intersect l r =
     (if span_begin l = span_end l \<or> span_begin r = span_end r then False
      else span_begin l < span_end r \<and> span_begin r < span_end l)"

fun bytes_copy_forward :: "u32 \<Rightarrow> u32 \<Rightarrow> nat \<Rightarrow> memory \<Rightarrow> memory" where
  "bytes_copy_forward destination source 0 mm = mm"
| "bytes_copy_forward destination source (Suc n) mm =
     bytes_copy_forward (destination + 1) (source + 1) n (mm(destination := mm source))"

fun bytes_copy_backward :: "u32 \<Rightarrow> u32 \<Rightarrow> nat \<Rightarrow> memory \<Rightarrow> memory" where
  "bytes_copy_backward destination source 0 mm = mm"
| "bytes_copy_backward destination source (Suc n) mm =
     bytes_copy_backward destination source n (mm(destination + of_nat n := mm (source + of_nat n)))"

fun bytes_fill :: "u32 \<Rightarrow> u8 \<Rightarrow> nat \<Rightarrow> memory \<Rightarrow> memory" where
  "bytes_fill destination v 0 mm = mm"
| "bytes_fill destination v (Suc n) mm = bytes_fill (destination + 1) v n (mm(destination := v))"

definition memmove :: "u32 \<Rightarrow> u32 \<Rightarrow> nat \<Rightarrow> memory \<Rightarrow> memory" where
  "memmove destination source n mm =
     (if destination = source \<or> n = 0 then mm
      else if destination > source \<and> unat (destination - source) < n then bytes_copy_backward destination source n mm
      else bytes_copy_forward destination source n mm)"

fun memcmp :: "u32 \<Rightarrow> u32 \<Rightarrow> nat \<Rightarrow> memory \<Rightarrow> int" where
  "memcmp l r 0 mm = 0"
| "memcmp l r (Suc n) mm = (if mm l \<noteq> mm r then uint (mm l) - uint (mm r) else memcmp (l + 1) (r + 1) n mm)"

section \<open>Bounded operations\<close>

definition memcpy_s :: "u32 \<Rightarrow> nat \<Rightarrow> u32 \<Rightarrow> nat \<Rightarrow> nat \<Rightarrow> memory \<Rightarrow> memory_status \<times> memory" where
  "memcpy_s destination destination_capacity source source_capacity n mm =
     (if n = 0 then (MEMORY_OK, mm)
      else if destination = 0 \<or> source = 0 then (MEMORY_INVALID_ARGUMENT, mm)
      else if n > destination_capacity \<or> n > source_capacity then (MEMORY_OUT_OF_BOUNDS, mm)
      else (case (byte_span_create destination n, byte_span_create source n) of
              (Some d, Some s) \<Rightarrow>
                if byte_spans_intersect d s then (MEMORY_OVERLAP, mm)
                else (MEMORY_OK, bytes_copy_forward destination source n mm)
            | _ \<Rightarrow> (MEMORY_OUT_OF_BOUNDS, mm)))"

definition memmove_s :: "u32 \<Rightarrow> nat \<Rightarrow> u32 \<Rightarrow> nat \<Rightarrow> nat \<Rightarrow> memory \<Rightarrow> memory_status \<times> memory" where
  "memmove_s destination destination_capacity source source_capacity n mm =
     (if n = 0 then (MEMORY_OK, mm)
      else if destination = 0 \<or> source = 0 then (MEMORY_INVALID_ARGUMENT, mm)
      else if n > destination_capacity \<or> n > source_capacity then (MEMORY_OUT_OF_BOUNDS, mm)
      else if byte_span_create destination n = None \<or> byte_span_create source n = None
      then (MEMORY_OUT_OF_BOUNDS, mm)
      else (MEMORY_OK, memmove destination source n mm))"

definition memset_s :: "u32 \<Rightarrow> nat \<Rightarrow> u8 \<Rightarrow> nat \<Rightarrow> memory \<Rightarrow> memory_status \<times> memory" where
  "memset_s destination destination_capacity v n mm =
     (if n = 0 then (MEMORY_OK, mm)
      else if destination = 0 then (MEMORY_INVALID_ARGUMENT, mm)
      else if n > destination_capacity then (MEMORY_OUT_OF_BOUNDS, mm)
      else if byte_span_create destination n = None then (MEMORY_OUT_OF_BOUNDS, mm)
      else (MEMORY_OK, bytes_fill destination v n mm))"

definition memzero_explicit_s :: "u32 \<Rightarrow> nat \<Rightarrow> nat \<Rightarrow> memory \<Rightarrow> memory_status \<times> memory" where
  "memzero_explicit_s destination destination_capacity n mm = memset_s destination destination_capacity 0 n mm"

definition memcmp_s :: "u32 \<Rightarrow> nat \<Rightarrow> u32 \<Rightarrow> nat \<Rightarrow> nat \<Rightarrow> memory \<Rightarrow> memory_status \<times> int" where
  "memcmp_s l left_capacity r right_capacity n mm =
     (if n = 0 then (MEMORY_OK, 0)
      else if l = 0 \<or> r = 0 then (MEMORY_INVALID_ARGUMENT, 0)
      else if n > left_capacity \<or> n > right_capacity then (MEMORY_OUT_OF_BOUNDS, 0)
      else if byte_span_create l n = None \<or> byte_span_create r n = None then (MEMORY_OUT_OF_BOUNDS, 0)
      else (MEMORY_OK, memcmp l r n mm))"

definition memcpy_and_pad_s :: "u32 \<Rightarrow> nat \<Rightarrow> u32 \<Rightarrow> nat \<Rightarrow> nat \<Rightarrow> u8 \<Rightarrow> memory \<Rightarrow> memory_status \<times> memory" where
  "memcpy_and_pad_s destination destination_capacity source source_capacity n padding mm =
     (if destination_capacity \<noteq> 0 \<and> destination = 0 then (MEMORY_INVALID_ARGUMENT, mm)
      else if n \<noteq> 0 \<and> source = 0 then (MEMORY_INVALID_ARGUMENT, mm)
      else if n > source_capacity then (MEMORY_OUT_OF_BOUNDS, mm)
      else if byte_span_create destination destination_capacity = None \<or> byte_span_create source n = None
      then (MEMORY_OUT_OF_BOUNDS, mm)
      else (let copied = (if n < destination_capacity then n else destination_capacity)
            in case (byte_span_create destination copied, byte_span_create source copied) of
                 (Some d, Some s) \<Rightarrow>
                   if byte_spans_intersect d s then (MEMORY_OVERLAP, mm)
                   else (let mm = (if copied \<noteq> 0 then bytes_copy_forward destination source copied mm else mm);
                             mm = (if destination_capacity > copied
                                   then bytes_fill (destination + of_nat copied) padding (destination_capacity - copied) mm
                                   else mm)
                         in (if n > destination_capacity then MEMORY_TRUNCATED else MEMORY_OK, mm))
               | _ \<Rightarrow> (MEMORY_OUT_OF_BOUNDS, mm)))"

section \<open>Bounded strings\<close>

text \<open>\<open>strnlen_from\<close> is the loop that counts to a terminator or a limit; \<open>strtomem_pad_s\<close> has the same
  loop, with \<open>terminated\<close> set when it stopped at a terminator.\<close>

fun strnlen_from :: "u32 \<Rightarrow> nat \<Rightarrow> nat \<Rightarrow> memory \<Rightarrow> nat" where
  "strnlen_from text_address len 0 mm = len"
| "strnlen_from text_address len (Suc remaining) mm =
     (if mm (text_address + of_nat len) = 0 then len else strnlen_from text_address (len + 1) remaining mm)"

definition strnlen :: "u32 \<Rightarrow> nat \<Rightarrow> memory \<Rightarrow> nat" where
  "strnlen text_address limit mm = strnlen_from text_address 0 limit mm"

definition strtomem_pad_s :: "u32 \<Rightarrow> nat \<Rightarrow> u32 \<Rightarrow> nat \<Rightarrow> u8 \<Rightarrow> memory \<Rightarrow> memory_status \<times> memory" where
  "strtomem_pad_s destination destination_capacity source source_capacity padding mm =
     (if source = 0 then (MEMORY_INVALID_ARGUMENT, mm)
      else if destination_capacity \<noteq> 0 \<and> destination = 0 then (MEMORY_INVALID_ARGUMENT, mm)
      else if byte_span_create destination destination_capacity = None then (MEMORY_OUT_OF_BOUNDS, mm)
      else (let probe_limit = (if destination_capacity + 1 \<ge> 2 ^ 32 then destination_capacity else destination_capacity + 1);
                probe_capacity = (if source_capacity < probe_limit then source_capacity else probe_limit)
            in if byte_span_create source probe_capacity = None then (MEMORY_OUT_OF_BOUNDS, mm)
               else (let source_length = strnlen_from source 0 probe_capacity mm;
                         terminated = (source_length < probe_capacity);
                         copied = (if source_length < destination_capacity then source_length else destination_capacity);
                         (status, mm) = memcpy_and_pad_s destination destination_capacity source source_capacity copied padding mm
                     in if status \<noteq> MEMORY_OK then (status, mm)
                        else (if terminated \<and> source_length \<le> destination_capacity then MEMORY_OK else MEMORY_TRUNCATED, mm))))"

fun strncmp :: "u32 \<Rightarrow> u32 \<Rightarrow> nat \<Rightarrow> memory \<Rightarrow> int" where
  "strncmp l r 0 mm = 0"
| "strncmp l r (Suc n) mm =
     (if mm l \<noteq> mm r then uint (mm l) - uint (mm r) else if mm l = 0 then 0 else strncmp (l + 1) (r + 1) n mm)"

text \<open>The copying loop of \<open>strscpy_s\<close>, with the remaining iterations as structural argument. It returns
  the memory, the position it stopped at and whether it met the terminator. \<open>None\<close> is
  \<open>STRSCPY_TRUNCATED\<close>; \<open>ssize_t\<close> holds at most \<open>0x7fffffff\<close>.\<close>

fun strscpy_loop :: "u32 \<Rightarrow> u32 \<Rightarrow> nat \<Rightarrow> nat \<Rightarrow> memory \<Rightarrow> memory \<times> nat \<times> bool" where
  "strscpy_loop destination source copied 0 mm = (mm, copied, False)"
| "strscpy_loop destination source copied (Suc remaining) mm =
     (let c = mm (source + of_nat copied)
      in if c = 0 then (mm(destination + of_nat copied := 0), copied, True)
         else strscpy_loop destination source (copied + 1) remaining (mm(destination + of_nat copied := c)))"

definition strscpy_s :: "u32 \<Rightarrow> nat \<Rightarrow> u32 \<Rightarrow> nat \<Rightarrow> memory \<Rightarrow> nat option \<times> memory" where
  "strscpy_s destination destination_capacity source source_capacity mm =
     (if destination_capacity = 0 \<or> destination = 0 \<or> source = 0 then (None, mm)
      else (case (byte_span_create destination destination_capacity, byte_span_create source source_capacity) of
              (Some d, Some s) \<Rightarrow>
                if byte_spans_intersect d s then (None, mm)
                else (let (mm, copied, terminated) =
                            strscpy_loop destination source 0 (min (destination_capacity - 1) source_capacity) mm
                      in if terminated then (if copied \<le> 0x7fffffff then Some copied else None, mm)
                         else (let mm = mm(destination + of_nat copied := 0)
                               in (if copied < source_capacity \<and> mm (source + of_nat copied) = 0 \<and> copied \<le> 0x7fffffff
                                   then Some copied else None, mm)))
            | _ \<Rightarrow> (None, mm)))"

definition ascii_toupper :: "u8 \<Rightarrow> u8" where
  "ascii_toupper c = (if 0x61 \<le> c \<and> c \<le> 0x7a then c - 0x20 else c)"

definition ascii_tolower :: "u8 \<Rightarrow> u8" where
  "ascii_tolower c = (if 0x41 \<le> c \<and> c \<le> 0x5a then c + 0x20 else c)"

definition ascii_isspace :: "u8 \<Rightarrow> bool" where
  "ascii_isspace c \<longleftrightarrow> c = 0x20 \<or> c = 0x09 \<or> c = 0x0d \<or> c = 0x0a \<or> c = 0x0c \<or> c = 0x0b"

section \<open>The loops copy\<close>

lemma byte_span_create_None [simp]: "byte_span_create a n = None \<longleftrightarrow> n \<noteq> 0 \<and> unat a + n \<ge> 2 ^ 32"
  by (simp add: byte_span_create_def)

lemma byte_span_create_Some:
  "0 < n \<Longrightarrow> unat a + n < 2 ^ 32 \<Longrightarrow> byte_span_create a n = Some \<lparr>span_begin = a, span_end = a + of_nat n\<rparr>"
  by (simp add: byte_span_create_def)

lemma unat_add_of_nat: "unat (a :: u32) + i < 2 ^ 32 \<Longrightarrow> unat (a + of_nat i) = unat a + i"
  by (simp add: unat_word_ariths unat_of_nat)

lemma offsets_differ:
  assumes "unat (d :: u32) + i < 2 ^ 32" "unat (s :: u32) + j < 2 ^ 32" "unat d + i \<noteq> unat s + j"
  shows "d + of_nat i \<noteq> s + of_nat j"
proof
  assume "d + of_nat i = s + of_nat j"
  then have "unat (d + of_nat i) = unat (s + of_nat j)" by (rule arg_cong)
  with assms(3) show False unfolding unat_add_of_nat [OF assms(1)] unat_add_of_nat [OF assms(2)] by contradiction
qed

lemma spans_intersect_iff:
  assumes "0 < n" "unat a + n < 2 ^ 32" "0 < k" "unat b + k < 2 ^ 32"
  shows "byte_spans_intersect \<lparr>span_begin = a, span_end = a + of_nat n\<rparr> \<lparr>span_begin = b, span_end = b + of_nat k\<rparr> \<longleftrightarrow>
    unat a < unat b + k \<and> unat b < unat a + n"
proof -
  have "unat (a + of_nat n) = unat a + n" "unat (b + of_nat k) = unat b + k" using assms by (simp_all add: unat_add_of_nat)
  moreover from this have "a \<noteq> a + of_nat n" "b \<noteq> b + of_nat k" using assms by (metis add_cancel_right_right less_irrefl)+
  ultimately show ?thesis by (simp add: byte_spans_intersect_def word_less_nat_alt)
qed

lemma mem_write_Cons:
  assumes "length bs < 2 ^ 32"
  shows "mem_write (mm(d := x)) (d + 1) bs = mem_write mm d (x # bs)"
proof
  fix y
  show "mem_write (mm(d := x)) (d + 1) bs y = mem_write mm d (x # bs) y"
  proof (cases "y = d")
    case True
    have "unat (- 1 :: u32) = 2 ^ 32 - 1" by (simp add: unsigned_minus_1_eq_mask mask_eq_exp_minus_1)
    with True assms show ?thesis by (simp add: mem_write_def)
  next
    case False
    then have "y - d \<noteq> 0" by simp
    then have "unat (y - (d + 1)) = unat (y - d) - 1" "0 < unat (y - d)"
      using unat_minus_one [of "y - d"] by (simp_all add: diff_diff_eq unat_gt_0)
    with False show ?thesis by (auto simp: mem_write_def nth_Cons' less_Suc_eq_0_disj)
  qed
qed

lemma mem_read_Suc: "mem_read mm s (Suc n) = mm s # mem_read mm (s + 1) n"
  using mem_read_append [of mm s 1 n] by (simp add: mem_read_def)

lemma copy_forward_reads:
  assumes "n < 2 ^ 32" "\<And>i j. i < j \<Longrightarrow> j < n \<Longrightarrow> d + of_nat i \<noteq> s + of_nat j"
  shows "bytes_copy_forward d s n mm = mem_write mm d (mem_read mm s n)"
  using assms
proof (induction n arbitrary: d s mm)
  case (Suc n)
  have "d + 1 + of_nat i \<noteq> s + 1 + of_nat j" if "i < j" "j < n" for i j
    using Suc.prems(2) [of "Suc i" "Suc j"] that by (simp add: add.assoc)
  then have "bytes_copy_forward (d + 1) (s + 1) n (mm(d := mm s)) =
      mem_write (mm(d := mm s)) (d + 1) (mem_read (mm(d := mm s)) (s + 1) n)"
    using Suc.prems(1) by (intro Suc.IH) simp_all
  also have "mem_read (mm(d := mm s)) (s + 1) n = mem_read mm (s + 1) n"
  proof (rule mem_read_cong)
    fix i assume "i < n"
    then have "d \<noteq> s + 1 + of_nat i" using Suc.prems(2) [of 0 "Suc i"] by (simp add: add.assoc)
    then show "(mm(d := mm s)) (s + 1 + of_nat i) = mm (s + 1 + of_nat i)" by simp
  qed
  also have "mem_write (mm(d := mm s)) (d + 1) (mem_read mm (s + 1) n) = mem_write mm d (mem_read mm s (Suc n))"
    using Suc.prems(1) by (simp add: mem_write_Cons mem_read_Suc)
  finally show ?case unfolding bytes_copy_forward.simps .
qed simp

lemma copy_backward_reads:
  assumes "n < 2 ^ 32" "\<And>i j. j < i \<Longrightarrow> i < n \<Longrightarrow> d + of_nat i \<noteq> s + of_nat j"
  shows "bytes_copy_backward d s n mm = mem_write mm d (mem_read mm s n)"
  using assms
proof (induction n arbitrary: mm)
  case (Suc n)
  let ?mm = "mm(d + of_nat n := mm (s + of_nat n))"
  have "bytes_copy_backward d s (Suc n) mm = mem_write ?mm d (mem_read ?mm s n)" using Suc by simp
  also have "mem_read ?mm s n = mem_read mm s n"
    using Suc.prems(2) [of _ n] by (intro mem_read_cong) (auto dest: sym)
  also have "mem_write ?mm d (mem_read mm s n) = mem_write mm d (mem_read mm s n @ [mm (s + of_nat n)])"
  proof
    fix y
    have "y = d + of_nat n \<longleftrightarrow> unat (y - d) = n"
      using Suc.prems(1) unat_of_nat_u32 [of n]
      by (metis Suc_lessD add_diff_cancel_left' diff_add_cancel add.commute word_unat_eq_iff)
    then show "mem_write ?mm d (mem_read mm s n) y = mem_write mm d (mem_read mm s n @ [mm (s + of_nat n)]) y"
      by (auto simp: mem_write_def nth_append)
  qed
  also have "mem_read mm s n @ [mm (s + of_nat n)] = mem_read mm s (Suc n)"
    using mem_read_append [of mm s n 1] by (simp add: mem_read_def)
  finally show ?case .
qed simp

lemma bytes_fill_eq: "n < 2 ^ 32 \<Longrightarrow> bytes_fill d v n mm = mem_write mm d (replicate n v)"
  by (induction n arbitrary: d mm) (simp_all add: mem_write_Cons)

lemma memmove_moves:
  assumes "unat d + n < 2 ^ 32" "unat s + n < 2 ^ 32"
  shows "memmove d s n mm = mem_write mm d (mem_read mm s n)"
proof -
  have a: "unat (d + of_nat i) = unat d + i" "unat (s + of_nat i) = unat s + i" if "i \<le> n" for i
    using that assms by (simp_all add: unat_add_of_nat)
  consider (same) "d = s \<or> n = 0" | (down) "d \<noteq> s" "n \<noteq> 0" "d > s" "unat (d - s) < n"
    | (forth) "d \<noteq> s" "n \<noteq> 0" "\<not> (d > s \<and> unat (d - s) < n)" by blast
  then show ?thesis
  proof cases
    case same
    then show ?thesis using mem_write_restores [of d n mm mm] by (auto simp: memmove_def)
  next
    case down
    have "d + of_nat i \<noteq> s + of_nat j" if "j < i" "i < n" for i j
      using a(1) [of i] a(2) [of j] that down(3) by (auto simp: word_less_nat_alt dest!: arg_cong [where f = unat])
    with down assms show ?thesis by (simp add: memmove_def copy_backward_reads)
  next
    case forth
    have "d + of_nat i \<noteq> s + of_nat j" if "i < j" "j < n" for i j
    proof
      assume "d + of_nat i = s + of_nat j"
      then have "unat d + i = unat s + j" using a(1) [of i] a(2) [of j] that by (metis less_imp_le less_trans)
      moreover from this that have "s < d" by (simp add: word_less_nat_alt)
      ultimately show False using forth(3) that by (simp add: unat_sub less_imp_le)
    qed
    with forth assms show ?thesis by (auto simp: memmove_def copy_forward_reads)
  qed
qed

section \<open>The bounded operations\<close>

lemma memset_s_ok:
  assumes "0 < n" "d \<noteq> 0" "n \<le> capacity" "unat d + n < 2 ^ 32"
  shows "memset_s d capacity v n mm = (MEMORY_OK, mem_write mm d (replicate n v))"
  using assms by (simp add: memset_s_def bytes_fill_eq)

lemma memcpy_s_ok:
  assumes "0 < n" "d \<noteq> 0" "s \<noteq> 0" "n \<le> dc" "n \<le> sc" "unat d + n < 2 ^ 32" "unat s + n < 2 ^ 32"
    and apart: "unat d + n \<le> unat s \<or> unat s + n \<le> unat d"
  shows "memcpy_s d dc s sc n mm = (MEMORY_OK, mem_write mm d (mem_read mm s n))"
proof -
  have "d + of_nat i \<noteq> s + of_nat j" if "i < j" "j < n" for i j
  proof (rule offsets_differ)
    show "unat d + i < 2 ^ 32" "unat s + j < 2 ^ 32" using that assms(6,7) by simp_all
    show "unat d + i \<noteq> unat s + j" using that apart by linarith
  qed
  then have copy: "bytes_copy_forward d s n mm = mem_write mm d (mem_read mm s n)"
    using assms(6) by (intro copy_forward_reads) simp_all
  have apart': "\<not> byte_spans_intersect \<lparr>span_begin = d, span_end = d + of_nat n\<rparr> \<lparr>span_begin = s, span_end = s + of_nat n\<rparr>"
    unfolding spans_intersect_iff [OF assms(1,6) assms(1,7)] using apart by linarith
  show ?thesis
    unfolding memcpy_s_def byte_span_create_Some [OF assms(1,6)] byte_span_create_Some [OF assms(1,7)] copy
    using assms(1-5) apart' by simp
qed

lemma memcpy_s_result:
  assumes "memcpy_s d dc s sc n mm = (st, mm')"
  shows "mm' = (if st = MEMORY_OK then mem_write mm d (mem_read mm s n) else mm)"
proof (cases "n = 0 \<or> st \<noteq> MEMORY_OK")
  case True
  with assms show ?thesis by (auto simp: memcpy_s_def split: if_splits option.splits)
next
  case False
  then have c: "n \<noteq> 0" "d \<noteq> 0" "s \<noteq> 0" "n \<le> dc" "n \<le> sc" "unat d + n < 2 ^ 32" "unat s + n < 2 ^ 32"
    using assms by (auto simp: memcpy_s_def byte_span_create_def split: if_splits)
  moreover have "unat d + n \<le> unat s \<or> unat s + n \<le> unat d"
  proof -
    have n: "0 < n" using c(1) by simp
    have "\<not> byte_spans_intersect \<lparr>span_begin = d, span_end = d + of_nat n\<rparr> \<lparr>span_begin = s, span_end = s + of_nat n\<rparr>"
      using assms False c(1-5) byte_span_create_Some [OF n c(6)] byte_span_create_Some [OF n c(7)]
      by (simp add: memcpy_s_def split: if_splits)
    then show ?thesis unfolding spans_intersect_iff [OF n c(6) n c(7)] by linarith
  qed
  ultimately have "memcpy_s d dc s sc n mm = (MEMORY_OK, mem_write mm d (mem_read mm s n))"
    by (intro memcpy_s_ok) simp_all
  with assms False show ?thesis by simp
qed

lemma strnlen_from_spec:
  shows "len \<le> strnlen_from a len r mm" "strnlen_from a len r mm \<le> len + r"
    and "strnlen_from a len r mm < len + r \<Longrightarrow> mm (a + of_nat (strnlen_from a len r mm)) = 0"
    and "len \<le> i \<Longrightarrow> i < strnlen_from a len r mm \<Longrightarrow> mm (a + of_nat i) \<noteq> 0"
proof (induction r arbitrary: len)
  case (Suc r)
  {
    case 1
    then show ?case using Suc(1) [of "len + 1"] by simp
  next
    case 2
    then show ?case using Suc(2) [of "len + 1"] by simp
  next
    case 3
    then show ?case using Suc(3) [of "len + 1"] by (auto split: if_splits)
  next
    case 4
    then show ?case using Suc(4) [of "len + 1"] by (cases "i = len") (auto split: if_splits)
  }
qed simp_all

lemma strnlen_from_cong:
  "(\<And>i. len \<le> i \<Longrightarrow> i < len + r \<Longrightarrow> mm' (a + of_nat i) = mm (a + of_nat i)) \<Longrightarrow>
   strnlen_from a len r mm' = strnlen_from a len r mm"
  by (induction r arbitrary: len) simp_all

lemma strscpy_loop_eq:
  assumes "\<And>i j. c \<le> i \<Longrightarrow> i < c + r \<Longrightarrow> c \<le> j \<Longrightarrow> j < c + r \<Longrightarrow> d + of_nat i \<noteq> s + of_nat j" "r + 1 < 2 ^ 32"
  shows "strscpy_loop d s c r mm =
    (mem_write mm (d + of_nat c) (mem_read mm (s + of_nat c) (strnlen_from s c r mm - c) @
       (if strnlen_from s c r mm < c + r then [0] else [])),
     strnlen_from s c r mm, strnlen_from s c r mm < c + r)"
  using assms
proof (induction r arbitrary: c mm)
  case (Suc r)
  let ?ch = "mm (s + of_nat c)"
  show ?case
  proof (cases "?ch = 0")
    case True
    then show ?thesis by (auto simp: mem_write_def fun_eq_iff unat_eq_0)
  next
    case False
    obtain M where M: "M = mm(d + of_nat c := ?ch)" by blast
    have step: "strscpy_loop d s c (Suc r) mm = strscpy_loop d s (c + 1) r M"
      using False by (simp only: M strscpy_loop.simps Let_def if_False)
    let ?k = "strnlen_from s (c + 1) r mm"
    have ne: "d + of_nat c \<noteq> s + of_nat j" if "c \<le> j" "j < c + Suc r" for j
      using Suc.prems(1) [of c j] that by simp
    have k: "strnlen_from s (c + 1) r M = ?k" 
    proof (rule strnlen_from_cong)
      fix i assume "c + 1 \<le> i" "i < c + 1 + r"
      then have "d + of_nat c \<noteq> s + of_nat i" by (intro ne) simp_all
      then show "M (s + of_nat i) = mm (s + of_nat i)" by (simp add: M)
    qed
    have kb: "c + 1 \<le> ?k" "?k \<le> c + 1 + r" by (rule strnlen_from_spec)+
    have "mem_read M (s + of_nat (c + 1)) (?k - (c + 1)) = mem_read mm (s + of_nat (c + 1)) (?k - (c + 1))"
    proof (rule mem_read_cong)
      fix i assume i: "i < ?k - (c + 1)"
      then have "d + of_nat c \<noteq> s + of_nat (c + 1 + i)" using kb by (intro ne) simp_all
      then show "M (s + of_nat (c + 1) + of_nat i) = mm (s + of_nat (c + 1) + of_nat i)" by (simp add: M add.assoc)
    qed
    then have "strscpy_loop d s (c + 1) r M =
        (mem_write M (d + of_nat c + 1) (mem_read mm (s + of_nat (c + 1)) (?k - (c + 1)) @ (if ?k < c + 1 + r then [0] else [])),
         ?k, ?k < c + 1 + r)"
      using Suc.IH [of "c + 1" M] Suc.prems k by (simp add: add_ac)
    also have "mem_write M (d + of_nat c + 1) (mem_read mm (s + of_nat (c + 1)) (?k - (c + 1)) @ (if ?k < c + 1 + r then [0] else [])) =
        mem_write mm (d + of_nat c) ((?ch # mem_read mm (s + of_nat (c + 1)) (?k - (c + 1))) @ (if ?k < c + 1 + r then [0] else []))"
      unfolding M append_Cons using kb Suc.prems(2) by (intro mem_write_Cons) auto
    also have "?ch # mem_read mm (s + of_nat (c + 1)) (?k - (c + 1)) = mem_read mm (s + of_nat c) (?k - c)"
    proof -
      have "?k - c = Suc (?k - (c + 1))" using kb by simp
      then show ?thesis by (simp add: mem_read_Suc add_ac)
    qed
    finally show ?thesis unfolding step using False by simp
  qed
qed simp

section \<open>Properties\<close>

text \<open>C15: the bounded moves are exact. A move writes to the destination what the source held before the
  call, however the two intervals overlap, exactly when both pointers are set and both intervals fit
  their capacities and the address space, and changes nothing otherwise; the copy does the same but
  additionally refuses overlapping intervals, and whenever it succeeds it agrees with the move.\<close>

theorem bounded_moves_are_exact:
  "let fits = (n = 0 \<or> d \<noteq> 0 \<and> s \<noteq> 0 \<and> n \<le> dc \<and> n \<le> sc \<and> unat d + n < 2 ^ 32 \<and> unat s + n < 2 ^ 32);
       apart = (n = 0 \<or> unat d + n \<le> unat s \<or> unat s + n \<le> unat d);
       moved = mem_write mm d (mem_read mm s n)
   in (fst (memmove_s d dc s sc n mm) = MEMORY_OK \<longleftrightarrow> fits) \<and>
      snd (memmove_s d dc s sc n mm) = (if fits then moved else mm) \<and>
      (fst (memcpy_s d dc s sc n mm) = MEMORY_OK \<longleftrightarrow> fits \<and> apart) \<and>
      snd (memcpy_s d dc s sc n mm) = (if fits \<and> apart then moved else mm)"
proof -
  let ?fits = "n = 0 \<or> d \<noteq> 0 \<and> s \<noteq> 0 \<and> n \<le> dc \<and> n \<le> sc \<and> unat d + n < 2 ^ 32 \<and> unat s + n < 2 ^ 32"
  let ?apart = "n = 0 \<or> unat d + n \<le> unat s \<or> unat s + n \<le> unat d"
  have move: "fst (memmove_s d dc s sc n mm) = MEMORY_OK \<longleftrightarrow> ?fits"
    "snd (memmove_s d dc s sc n mm) = (if ?fits then mem_write mm d (mem_read mm s n) else mm)"
    by (auto simp: memmove_s_def memmove_moves not_le)
  have copy: "fst (memcpy_s d dc s sc n mm) = MEMORY_OK \<longleftrightarrow> ?fits \<and> ?apart"
  proof (cases "n \<noteq> 0 \<and> ?fits")
    case False
    then show ?thesis by (auto simp: memcpy_s_def byte_span_create_def)
  next
    case True
    then have n: "0 < n" and c: "unat d + n < 2 ^ 32" "unat s + n < 2 ^ 32" by auto
    show ?thesis
    proof (cases ?apart)
      case apart: True
      with True n memcpy_s_ok [of n d s dc sc mm] show ?thesis by simp
    next
      case meet: False
      then have "byte_spans_intersect \<lparr>span_begin = d, span_end = d + of_nat n\<rparr> \<lparr>span_begin = s, span_end = s + of_nat n\<rparr>"
        unfolding spans_intersect_iff [OF n c(1) n c(2)] by linarith
      with meet True show ?thesis
        by (simp add: memcpy_s_def byte_span_create_Some [OF n c(1)] byte_span_create_Some [OF n c(2)])
    qed
  qed
  have "snd (memcpy_s d dc s sc n mm) = (if ?fits \<and> ?apart then mem_write mm d (mem_read mm s n) else mm)"
    using memcpy_s_result [of d dc s sc n mm "fst (memcpy_s d dc s sc n mm)" "snd (memcpy_s d dc s sc n mm)"]
    unfolding copy by simp
  with move copy show ?thesis unfolding Let_def by blast
qed

theorem bounded_moves_are_exact_witness:
  "memmove_s 0x1001 8 0x1000 8 3 (\<lambda>a. ucast a) = (MEMORY_OK, mem_write (\<lambda>a. ucast a) 0x1001 [0, 1, 2]) \<and>
   fst (memcpy_s 0x1001 8 0x1000 8 3 (\<lambda>a. ucast a)) \<noteq> MEMORY_OK"
proof -
  have "mem_read (\<lambda>a. ucast a) 0x1000 3 = [0, 1, 2]" by (simp add: mem_read_def upt_rec)
  with bounded_moves_are_exact [of 3 "0x1001" "0x1000" 8 8 "\<lambda>a. ucast a"] show ?thesis
    by (simp add: prod_eq_iff)
qed



end
