(* ===== verification/GuestRuntime.thy ===== *)
theory GuestRuntime
  imports PhysicalSafety NativeMemory
begin

text \<open>
  The boot-lifetime owner of guest pages, \<open>kernel/x86_vm/memory/runtime.c\<close>: a page manager whose zeroing
  callback clears real memory. The C global \<open>runtime_owner\<close> is a record. The callback reads that global
  while the manager runs; what it reads (the identity, the manager's initialized flag and its bounds)
  does not change during an allocation or a release, so each wrapper passes it in a \<open>runtime_backing\<close>
  together with the physical memory. The theorems say that every page changes hands zeroed.
\<close>

section \<open>Model\<close>

record runtime_backing =
  backing_identity :: u64
  backing_initialized :: u8
  backing_base :: u64
  backing_limit :: u64
  backing_memory :: memory

record x86_guest_memory_runtime_owner =
  runtime_manager :: "runtime_backing x86_guest_memory_manager"
  runtime_identity :: u64
  runtime_initialized :: u8

definition zero_physical_range :: "runtime_backing \<Rightarrow> u64 \<Rightarrow> u32 \<Rightarrow> u32 \<Rightarrow> nat \<times> runtime_backing" where
  "zero_physical_range b ctx address byte_count =
     (if ctx \<noteq> backing_identity b \<or> byte_count = 0 \<or> backing_initialized b \<noteq> 1 \<or>
         ucast address < backing_base b \<or> ucast address \<ge> backing_limit b \<or>
         ucast byte_count > backing_limit b - ucast address then (1, b)
      else (case kernel_address_identity_map (ucast address) (ucast byte_count) of
              Inl _ \<Rightarrow> (1, b)
            | Inr mapping \<Rightarrow>
                if mapping_length mapping \<noteq> unat byte_count then (1, b)
                else (let (status, mm) = memset_s (mapping_pointer mapping) (mapping_length mapping) 0
                                           (unat byte_count) (backing_memory b)
                      in (if status \<noteq> MEMORY_OK then 1 else 0, b\<lparr>backing_memory := mm\<rparr>))))"

definition runtime_ops :: "runtime_backing x86_guest_memory_ops" where
  "runtime_ops = \<lparr>zero = zero_physical_range\<rparr>"

definition runtime_backing_of :: "x86_guest_memory_runtime_owner \<Rightarrow> memory \<Rightarrow> runtime_backing" where
  "runtime_backing_of ro mm =
     \<lparr>backing_identity = runtime_identity ro, backing_initialized = manager_initialized (runtime_manager ro),
      backing_base = managed_base (runtime_manager ro), backing_limit = managed_limit (runtime_manager ro),
      backing_memory = mm\<rparr>"

definition x86_guest_memory_runtime_initialize ::
  "x86_guest_memory_runtime_owner \<Rightarrow> x86_boot_info option \<Rightarrow> u64
     \<Rightarrow> x86_guest_memory_status \<times> x86_guest_memory_runtime_owner" where
  "x86_guest_memory_runtime_initialize ro boot_info identity =
     (if boot_info = None \<or> \<not> valid_identity identity then (X86_GUEST_MEMORY_INVALID_ARGUMENT, ro)
      else if runtime_initialized ro \<noteq> 0 then (X86_GUEST_MEMORY_INVALID_ARGUMENT, ro)
      else (let (status, manager) = x86_guest_memory_initialize (x86_guest_memory_construct (runtime_manager ro))
                                      boot_info (Some runtime_ops) identity
            in if status \<noteq> X86_GUEST_MEMORY_OK
               then (status, ro\<lparr>runtime_identity := KERNEL_OBJECT_HANDLE_INVALID,
                                runtime_manager := x86_guest_memory_construct manager\<rparr>)
               else (X86_GUEST_MEMORY_OK, ro\<lparr>runtime_identity := identity, runtime_manager := manager,
                                            runtime_initialized := 1\<rparr>)))"

definition x86_guest_memory_runtime_allocate ::
  "x86_guest_memory_runtime_owner \<Rightarrow> memory \<Rightarrow> u64 \<Rightarrow> u32
     \<Rightarrow> x86_guest_memory_status \<times> x86_guest_memory_runtime_owner \<times> memory \<times> (x86_guest_memory_lease \<times> u32) option" where
  "x86_guest_memory_runtime_allocate ro mm owner page_count =
     (if runtime_initialized ro \<noteq> 1 then (X86_GUEST_MEMORY_NOT_INITIALIZED, ro, mm, None)
      else (let (status, manager, b, r) =
                  x86_guest_memory_allocate (runtime_manager ro) (runtime_backing_of ro mm) owner page_count
            in (status, ro\<lparr>runtime_manager := manager\<rparr>, backing_memory b, r)))"

definition x86_guest_memory_runtime_release ::
  "x86_guest_memory_runtime_owner \<Rightarrow> memory \<Rightarrow> u64 \<Rightarrow> x86_guest_memory_lease
     \<Rightarrow> x86_guest_memory_status \<times> x86_guest_memory_runtime_owner \<times> memory" where
  "x86_guest_memory_runtime_release ro mm owner lease =
     (if runtime_initialized ro \<noteq> 1 then (X86_GUEST_MEMORY_NOT_INITIALIZED, ro, mm)
      else (let (status, manager, b) =
                  x86_guest_memory_release (runtime_manager ro) (runtime_backing_of ro mm) owner lease
            in (status, ro\<lparr>runtime_manager := manager\<rparr>, backing_memory b)))"

definition x86_guest_memory_runtime_inspect ::
  "x86_guest_memory_runtime_owner \<Rightarrow> x86_guest_memory_lease \<Rightarrow> x86_guest_memory_status + x86_guest_memory_lease_info" where
  "x86_guest_memory_runtime_inspect ro lease =
     (if runtime_initialized ro \<noteq> 1 then Inl X86_GUEST_MEMORY_NOT_INITIALIZED
      else x86_guest_memory_inspect (runtime_manager ro) lease)"

definition x86_guest_memory_runtime_query_free :: "x86_guest_memory_runtime_owner \<Rightarrow> x86_guest_memory_status + u32" where
  "x86_guest_memory_runtime_query_free ro =
     (if runtime_initialized ro \<noteq> 1 then Inl X86_GUEST_MEMORY_NOT_INITIALIZED
      else x86_guest_memory_query_free (runtime_manager ro))"

definition x86_guest_memory_runtime_query_snapshot ::
  "x86_guest_memory_runtime_owner \<Rightarrow> x86_guest_memory_status + x86_guest_memory_snapshot" where
  "x86_guest_memory_runtime_query_snapshot ro =
     (if runtime_initialized ro \<noteq> 1 then Inl X86_GUEST_MEMORY_NOT_INITIALIZED
      else x86_guest_memory_query_snapshot (runtime_manager ro))"

definition x86_guest_memory_runtime_query_capacity ::
  "x86_guest_memory_runtime_owner \<Rightarrow> x86_guest_memory_status + u32 \<times> u32 \<times> u64" where
  "x86_guest_memory_runtime_query_capacity ro =
     (if runtime_initialized ro \<noteq> 1 then Inl X86_GUEST_MEMORY_NOT_INITIALIZED
      else x86_guest_memory_query_capacity (runtime_manager ro))"

section \<open>The callback\<close>

lemma ucast_ucast_u32 [simp]: "(ucast (ucast (w :: u32) :: u64) :: u32) = w"
  by (simp add: unsigned_ucast_eq take_bit_word_eq_self)

lemma zero_physical_range_ok:
  assumes "backing_initialized b = 1" "0x800000 \<le> unat (backing_base b)" "unat (backing_base b) \<le> unat a" "0 < unat n"
    and "unat a + unat n \<le> unat (backing_limit b)" "unat (backing_limit b) \<le> 0x10000000"
  shows "zero_physical_range b (backing_identity b) a n =
    (0, b\<lparr>backing_memory := mem_write (backing_memory b) a (replicate (unat n) 0)\<rparr>)"
proof -
  have le: "(ucast a :: u64) \<le> backing_limit b" using assms(5) by (simp add: word_le_nat_alt)
  have "\<not> (ucast a :: u64) < backing_base b" "\<not> (ucast a :: u64) \<ge> backing_limit b"
    using assms(3,4,5) by (simp_all add: word_le_nat_alt word_less_nat_alt)
  moreover have "\<not> (ucast n :: u64) > backing_limit b - ucast a"
    using assms(5) le by (simp add: word_less_nat_alt unat_sub)
  moreover have n0: "n \<noteq> 0" "a \<noteq> 0" using assms(2,3,4) by (auto simp: unat_gt_0)
  moreover have "kernel_address_identity_map (ucast a) (ucast n) = Inr \<lparr>mapping_pointer = a, mapping_length = unat n\<rparr>"
  proof -
    have n1: "(1 :: u64) \<le> ucast n" using assms(4) by (simp add: word_le_nat_alt)
    then have u: "unat ((ucast n :: u64) - 1) = unat n - 1" by (simp add: unat_sub)
    have s: "unat (ucast a + ((ucast n :: u64) - 1)) = unat a + unat n - 1"
      using assms(4-6) u by (simp add: unat_word_ariths)
    have "\<not> (ucast n :: u64) > 0xffffffff" using unat_u32_less [of n] by (simp add: word_less_nat_alt)
    moreover have "\<not> unat (ucast a :: u64) + unat ((ucast n :: u64) - 1) \<ge> 2 ^ 64" using assms(5,6) u by simp
    moreover have "\<not> ucast a + ((ucast n :: u64) - 1) > 0xffffffff" using assms(5,6) s by (simp add: word_less_nat_alt)
    moreover have "(ucast n :: u64) \<noteq> 0" using n1 by auto
    ultimately show ?thesis by (simp add: kernel_address_identity_map_def)
  qed
  moreover have "memset_s a (unat n) 0 (unat n) (backing_memory b) =
      (MEMORY_OK, mem_write (backing_memory b) a (replicate (unat n) 0))"
    using assms(4-6) n0 by (intro memset_s_ok) simp_all
  ultimately show ?thesis using assms(1) by (simp add: zero_physical_range_def)
qed

section \<open>Histories\<close>

text \<open>The manager never changes its callback.\<close>

lemma allocate_keeps_ops:
  assumes "x86_guest_memory_allocate m z owner n = (st, m', z', r)"
  shows "memory_ops m' = memory_ops m \<and> zero_context m' = zero_context m"
proof -
  have slot: "memory_ops (snd (find_lease_slot m)) = memory_ops m" "zero_context (snd (find_lease_slot m)) = zero_context m"
    by (simp_all add: find_lease_slot_def case_prod_unfold Let_def)
  have "memory_ops (fst (snd (x86_guest_memory_allocate m z owner n))) = memory_ops m"
    "zero_context (fst (snd (x86_guest_memory_allocate m z owner n))) = zero_context m"
    using slot by (simp_all add: x86_guest_memory_allocate_def Let_def case_prod_unfold split: option.split)
  with assms show ?thesis by simp
qed

lemma release_keeps_ops:
  assumes "x86_guest_memory_release m z owner l = (st, m', z')"
  shows "memory_ops m' = memory_ops m \<and> zero_context m' = zero_context m"
proof -
  have "memory_ops (fst (snd (x86_guest_memory_release m z owner l))) = memory_ops m"
    "zero_context (fst (snd (x86_guest_memory_release m z owner l))) = zero_context m"
    by (simp_all add: x86_guest_memory_release_def Let_def case_prod_unfold split: option.split sum.split)
  with assms show ?thesis by simp
qed

inductive runtime_reachable :: "x86_boot_info \<Rightarrow> x86_guest_memory_runtime_owner \<Rightarrow> bool" for bi where
  runtime_booted: "x86_guest_memory_runtime_initialize ro0 (Some bi) identity = (X86_GUEST_MEMORY_OK, ro)
    \<Longrightarrow> runtime_reachable bi ro"
| runtime_allocated: "runtime_reachable bi ro \<Longrightarrow>
    x86_guest_memory_runtime_allocate ro mm owner n = (st, ro', mm', r) \<Longrightarrow> runtime_reachable bi ro'"
| runtime_released: "runtime_reachable bi ro \<Longrightarrow>
    x86_guest_memory_runtime_release ro mm owner l = (st, ro', mm') \<Longrightarrow> runtime_reachable bi ro'"

definition runtime_inv :: "x86_boot_info \<Rightarrow> x86_guest_memory_runtime_owner \<Rightarrow> bool" where
  "runtime_inv bi ro \<longleftrightarrow> runtime_initialized ro = 1 \<and> (\<forall>z. managed bi (runtime_manager ro) z) \<and>
     memory_ops (runtime_manager ro) = Some runtime_ops \<and> zero_context (runtime_manager ro) = runtime_identity ro"

lemma managed_any: "managed bi m z \<Longrightarrow> managed bi m z'"
  by (rule managed.stepped [OF _ lease_step.interfered])

lemma runtime_initialize_inv:
  assumes "x86_guest_memory_runtime_initialize ro0 (Some bi) identity = (X86_GUEST_MEMORY_OK, ro)"
  shows "runtime_inv bi ro"
proof -
  obtain st m where i: "x86_guest_memory_initialize (x86_guest_memory_construct (runtime_manager ro0)) (Some bi)
      (Some runtime_ops) identity = (st, m)" by fastforce
  have ok: "st = X86_GUEST_MEMORY_OK" "ro = ro0\<lparr>runtime_identity := identity, runtime_manager := m, runtime_initialized := 1\<rparr>"
    using assms i by (auto simp: x86_guest_memory_runtime_initialize_def split: if_splits)
  obtain t where "fresh_manager bi t identity m" "Some runtime_ops = Some t" using initialize_ok i ok(1) by metis
  then show ?thesis using ok i managed.booted [of _ bi "Some runtime_ops" identity m]
    by (auto simp: runtime_inv_def fresh_manager_def)
qed

lemma runtime_allocate_eq:
  assumes "runtime_initialized ro = 1" "x86_guest_memory_runtime_allocate ro mm owner n = (st, ro', mm', r)"
  obtains m b where "x86_guest_memory_allocate (runtime_manager ro) (runtime_backing_of ro mm) owner n = (st, m, b, r)"
    "ro' = ro\<lparr>runtime_manager := m\<rparr>" "mm' = backing_memory b"
  using assms by (auto simp: x86_guest_memory_runtime_allocate_def split: prod.splits)

lemma runtime_release_eq:
  assumes "runtime_initialized ro = 1" "x86_guest_memory_runtime_release ro mm owner l = (st, ro', mm')"
  obtains m b where "x86_guest_memory_release (runtime_manager ro) (runtime_backing_of ro mm) owner l = (st, m, b)"
    "ro' = ro\<lparr>runtime_manager := m\<rparr>" "mm' = backing_memory b"
  using assms by (auto simp: x86_guest_memory_runtime_release_def split: prod.splits)

lemma runtime_allocate_inv:
  assumes "runtime_inv bi ro" "x86_guest_memory_runtime_allocate ro mm owner n = (st, ro', mm', r)"
  shows "runtime_inv bi ro'"
proof -
  have i: "runtime_initialized ro = 1" using assms(1) by (simp add: runtime_inv_def)
  obtain m b where a: "x86_guest_memory_allocate (runtime_manager ro) (runtime_backing_of ro mm) owner n = (st, m, b, r)"
    and ro: "ro' = ro\<lparr>runtime_manager := m\<rparr>" by (rule runtime_allocate_eq [OF i assms(2)])
  have "managed bi (runtime_manager ro) (runtime_backing_of ro mm)" using assms(1) by (simp add: runtime_inv_def)
  from managed_any [OF managed.stepped [OF this lease_step.allocated [OF a]]] have "managed bi m z" for z .
  with allocate_keeps_ops [OF a] assms(1) show ?thesis by (simp add: runtime_inv_def ro)
qed

lemma runtime_release_inv:
  assumes "runtime_inv bi ro" "x86_guest_memory_runtime_release ro mm owner l = (st, ro', mm')"
  shows "runtime_inv bi ro'"
proof -
  have i: "runtime_initialized ro = 1" using assms(1) by (simp add: runtime_inv_def)
  obtain m b where a: "x86_guest_memory_release (runtime_manager ro) (runtime_backing_of ro mm) owner l = (st, m, b)"
    and ro: "ro' = ro\<lparr>runtime_manager := m\<rparr>" by (rule runtime_release_eq [OF i assms(2)])
  have "managed bi (runtime_manager ro) (runtime_backing_of ro mm)" using assms(1) by (simp add: runtime_inv_def)
  from managed_any [OF managed.stepped [OF this lease_step.released [OF a]]] have "managed bi m z" for z .
  with release_keeps_ops [OF a] assms(1) show ?thesis by (simp add: runtime_inv_def ro)
qed

lemma runtime_reachable_inv: "runtime_reachable bi ro \<Longrightarrow> runtime_inv bi ro"
  by (induction rule: runtime_reachable.induct)
    (auto intro: runtime_initialize_inv runtime_allocate_inv runtime_release_inv)

lemma runtime_manager_facts:
  assumes "runtime_inv bi ro"
  shows "pages_inv (runtime_manager ro)" "bounds_ok (runtime_manager ro)" "runtime_initialized ro = 1"
    "pages_of (available (runtime_manager ro)) = {p. page_available bi p}"
    "memory_ops (runtime_manager ro) = Some runtime_ops" "zero_context (runtime_manager ro) = runtime_identity ro"
    "manager_initialized (runtime_manager ro) = 1"
proof -
  have "managed bi (runtime_manager ro) z" for z using assms by (simp add: runtime_inv_def)
  from managed_inv [OF this] show p: "pages_inv (runtime_manager ro)" "bounds_ok (runtime_manager ro)"
    "pages_of (available (runtime_manager ro)) = {p. page_available bi p}" by blast+
  show "manager_initialized (runtime_manager ro) = 1" using p(1) unfolding pages_inv_def by blast
qed (use assms in \<open>simp_all add: runtime_inv_def\<close>)

text \<open>Pages of the manager lie between its bounds.\<close>

lemma available_bounds:
  assumes "pages_inv m" "bounds_ok m" "p \<in> pages_of (available m)"
  shows "unat (managed_base m) \<le> page_start p" "page_start p + 4096 \<le> unat (managed_limit m)"
proof -
  have b: "0x800000 \<le> unat (managed_base m)" "unat (managed_base m) < unat (managed_limit m)"
    "unat (managed_limit m) \<le> 0x10000000" "4096 dvd unat (managed_base m)" "4096 dvd unat (managed_limit m)"
    using assms(2) by (simp_all add: bounds_ok_def word_le_nat_alt word_less_nat_alt)
  obtain i j where ij: "unat (managed_base m) = 4096 * i" "unat (managed_limit m) = 4096 * j" using b(4,5) by (auto elim!: dvdE)
  have "0x800000 \<le> managed_base m" "0x800000 \<le> managed_limit m" using b by (simp_all add: word_le_nat_alt)
  then have "unat ((managed_base m - 0x800000) div 0x1000) = i - 2048" "unat ((managed_limit m - 0x800000) div 0x1000) = j - 2048"
    using ij by (simp_all add: unat_div unat_sub)
  then have "unat (managed_first_page m) = i - 2048" "unat (managed_page_limit m) = j - 2048"
    using ij b(2,3) by (simp_all add: managed_first_page_def managed_page_limit_def unsigned_ucast_eq take_bit_nat_eq_self)
  moreover have "p \<in> {unat (managed_first_page m)..<unat (managed_page_limit m)}"
    using assms(1,3) unfolding pages_inv_def by blast
  ultimately have "i - 2048 \<le> p" "p < j - 2048" by simp_all
  then show "unat (managed_base m) \<le> page_start p" "page_start p + 4096 \<le> unat (managed_limit m)" using ij b by simp_all
qed

lemma run_address:
  assumes "f + unat (n :: u32) \<le> 63488"
  shows "unat (0x00800000 + of_nat f * 0x1000 :: u32) = page_start f" "unat (n * 0x1000) = unat n * 4096"
  using assms by (simp_all add: unat_word_ariths unat_of_nat)

lemma runtime_zero_ok:
  assumes "runtime_inv bi ro" "{f..<f + n} \<subseteq> pages_of (available (runtime_manager ro))" "0 < n"
    and "unat a = page_start f" "unat k = n * 4096"
  shows "zero runtime_ops (runtime_backing_of ro mm) (runtime_identity ro) a k =
    (0, (runtime_backing_of ro mm)\<lparr>backing_memory := mem_write mm a (replicate (n * 4096) 0)\<rparr>)"
proof -
  note m = runtime_manager_facts [OF assms(1)]
  have "f \<in> {f..<f + n}" "f + n - 1 \<in> {f..<f + n}" using assms(3) by auto
  then have "f \<in> pages_of (available (runtime_manager ro))" "f + n - 1 \<in> pages_of (available (runtime_manager ro))"
    using assms(2) by blast+
  from available_bounds(1) [OF m(1,2) this(1)] available_bounds(2) [OF m(1,2) this(2)]
  have "unat (managed_base (runtime_manager ro)) \<le> unat a" "unat a + unat k \<le> unat (managed_limit (runtime_manager ro))"
    using assms(3-5) by (simp_all add: diff_mult_distrib)
  moreover have "0x800000 \<le> unat (managed_base (runtime_manager ro))" "unat (managed_limit (runtime_manager ro)) \<le> 0x10000000"
    using m(2) by (simp_all add: bounds_ok_def word_le_nat_alt)
  ultimately show ?thesis
    using zero_physical_range_ok [of "runtime_backing_of ro mm" a k] m(7) assms(3,5)
    by (simp add: runtime_ops_def runtime_backing_of_def)
qed

lemma runtime_allocate_correct:
  assumes inv: "runtime_inv bi ro" and run: "x86_guest_memory_runtime_allocate ro mm owner n = (st, ro', mm', r)"
  shows "st \<noteq> X86_GUEST_MEMORY_ZERO_FAILED \<and> (case r of
      Some (l, a) \<Rightarrow> st = X86_GUEST_MEMORY_OK \<and> 0 < n \<and> (\<exists>f. unat a = page_start f \<and> f + unat n \<le> 63488 \<and>
        allocated_as (runtime_manager ro) owner (unat n) l f (runtime_manager ro')) \<and>
        mm' = mem_write mm a (replicate (unat n * 4096) 0)
    | None \<Rightarrow> st \<noteq> X86_GUEST_MEMORY_OK \<and> unchanged (runtime_manager ro) (runtime_manager ro') \<and> mm' = mm)"
proof -
  let ?m = "runtime_manager ro" and ?b = "runtime_backing_of ro mm"
  note m = runtime_manager_facts [OF inv]
  obtain m' b where a: "x86_guest_memory_allocate ?m ?b owner n = (st, m', b, r)"
    and ro: "ro' = ro\<lparr>runtime_manager := m'\<rparr>" and mm: "mm' = backing_memory b" by (rule runtime_allocate_eq [OF m(3) run])
  have zero: "zero runtime_ops ?b (runtime_identity ro) (0x00800000 + of_nat f * 0x1000) (n * 0x1000) =
      (0, ?b\<lparr>backing_memory := mem_write mm (0x00800000 + of_nat f * 0x1000) (replicate (unat n * 4096) 0)\<rparr>)"
    if "{f..<f + unat n} \<subseteq> free_pages ?m" "f + unat n \<le> 63488" "n \<noteq> 0" for f
    using that run_address [of f n]
    by (intro runtime_zero_ok [OF inv, of f "unat n"]) (auto simp: free_pages_def unat_gt_0)
  have o: "allocation_outcome ?m ?b owner n st m' b r" using allocate_cases [OF m(1) a] by blast
  show ?thesis
  proof (cases r)
    case None
    with o zero have "b = ?b" "st \<noteq> X86_GUEST_MEMORY_ZERO_FAILED" "st \<noteq> X86_GUEST_MEMORY_OK" "unchanged ?m m'"
      by (auto simp: allocation_outcome_def m(5,6))
    then show ?thesis by (simp add: None ro mm runtime_backing_of_def)
  next
    case (Some la)
    obtain l ad where la: "la = (l, ad)" by fastforce
    from o Some la obtain f where f: "st = X86_GUEST_MEMORY_OK" "n \<noteq> 0" "ad = 0x00800000 + of_nat f * 0x1000" "f + unat n \<le> 63488"
        "allocated_as ?m owner (unat n) l f m'" "zero runtime_ops ?b (runtime_identity ro) ad (n * 0x1000) = (0, b)"
      by (auto simp: allocation_outcome_def m(5,6))
    have "{f..<f + unat n} \<subseteq> free_pages ?m" using f(5) by (simp add: allocated_as_def)
    from zero [OF this f(4,2)] f(3,6) have "b = ?b\<lparr>backing_memory := mem_write mm ad (replicate (unat n * 4096) 0)\<rparr>" by simp
    then show ?thesis using f run_address [of f n] by (auto simp: Some la ro mm word_gt_0)
  qed
qed

lemma runtime_release_correct:
  assumes inv: "runtime_inv bi ro" and run: "x86_guest_memory_runtime_release ro mm owner l = (st, ro', mm')"
  shows "st \<noteq> X86_GUEST_MEMORY_ZERO_FAILED \<and> (if st = X86_GUEST_MEMORY_OK
    then \<exists>f n. f + n \<le> 63488 \<and> 0 < n \<and> released_as (runtime_manager ro) owner n l f (runtime_manager ro') \<and>
      mm' = mem_write mm (0x00800000 + of_nat f * 0x1000) (replicate (n * 4096) 0)
    else unchanged (runtime_manager ro) (runtime_manager ro') \<and> mm' = mm)"
proof -
  let ?m = "runtime_manager ro" and ?b = "runtime_backing_of ro mm"
  note m = runtime_manager_facts [OF inv]
  obtain m' b where a: "x86_guest_memory_release ?m ?b owner l = (st, m', b)"
    and ro: "ro' = ro\<lparr>runtime_manager := m'\<rparr>" and mm: "mm' = backing_memory b" by (rule runtime_release_eq [OF m(3) run])
  have zero: "zero runtime_ops ?b (runtime_identity ro) (0x00800000 + of_nat f * 0x1000) (of_nat n * 0x1000) =
      (0, ?b\<lparr>backing_memory := mem_write mm (0x00800000 + of_nat f * 0x1000) (replicate (n * 4096) 0)\<rparr>)"
    if "lease_map ?m l = Some (owner, f, n)" for f n
  proof (rule runtime_zero_ok [OF inv])
    note p = lease_map_pages [OF m(1) that]
    have sub: "pages_of (allocated ?m) \<subseteq> pages_of (available ?m)" using m(1) unfolding pages_inv_def by blast
    then show "{f..<f + n} \<subseteq> pages_of (available ?m)" using p(1) by blast
    show "0 < n" by (rule p(2))
    have "f + n - 1 \<in> {f..<f + n}" using p(2) by simp
    then have "f + n - 1 < 63488" using p(1) unfolding pages_of_def by blast
    then show "unat (0x00800000 + of_nat f * 0x1000 :: u32) = page_start f" "unat (of_nat n * 0x1000 :: u32) = n * 4096"
      using p(2) by (simp_all add: unat_word_ariths unat_of_nat)
  qed
  have o: "release_outcome ?m ?b owner l st m' b" using release_cases [OF m(1) a] by blast
  show ?thesis
  proof (cases "st = X86_GUEST_MEMORY_OK")
    case False
    with o zero have "b = ?b" "st \<noteq> X86_GUEST_MEMORY_ZERO_FAILED" "unchanged ?m m'"
      by (auto simp: release_outcome_def m(5,6))
    with False show ?thesis by (simp add: ro mm runtime_backing_of_def)
  next
    case True
    with o obtain f n where f: "f + n \<le> 63488" "0 < n" "released_as ?m owner n l f m'"
        "zero runtime_ops ?b (runtime_identity ro) (0x00800000 + of_nat f * 0x1000) (of_nat n * 0x1000) = (0, b)"
      by (auto simp: release_outcome_def m(5,6))
    then have "lease_map ?m l = Some (owner, f, n)" by (simp add: released_as_def)
    from zero [OF this] f(4) have "b = ?b\<lparr>backing_memory := mem_write mm (0x00800000 + of_nat f * 0x1000) (replicate (n * 4096) 0)\<rparr>"
      by simp
    then show ?thesis using f True by (auto simp: ro mm)
  qed
qed

section \<open>Properties\<close>

definition sample_runtime :: x86_guest_memory_runtime_owner where
  "sample_runtime = snd (x86_guest_memory_runtime_initialize
     \<lparr>runtime_manager = blank_manager, runtime_identity = 0, runtime_initialized = 0\<rparr> (Some sample_boot_info) 1)"

lemma sample_runtime_reachable: "runtime_reachable sample_boot_info sample_runtime"
proof -
  let ?ro = "\<lparr>runtime_manager = blank_manager, runtime_identity = 0, runtime_initialized = 0\<rparr>"
  let ?m = "x86_guest_memory_construct blank_manager :: runtime_backing x86_guest_memory_manager"
  obtain st m where i: "x86_guest_memory_initialize ?m (Some sample_boot_info) (Some runtime_ops) 1 = (st, m)" by fastforce
  have "{p. page_available sample_boot_info p} \<noteq> {}" using sample_page by blast
  then have "st = X86_GUEST_MEMORY_OK"
    using initialize_cases [OF blank_ready(1) _ _ sample_valid i] by (simp add: x86_guest_memory_construct_def)
  then have "x86_guest_memory_runtime_initialize ?ro (Some sample_boot_info) 1 = (X86_GUEST_MEMORY_OK, sample_runtime)"
    using i blank_ready(1) by (simp add: sample_runtime_def x86_guest_memory_runtime_initialize_def)
  then show ?thesis by (rule runtime_reachable.runtime_booted)
qed

text \<open>C17: guest pages change hands clean. In every history of the boot-lifetime owner an allocation that
  succeeds returns pages that read as zero and changes no other byte of memory, a release that succeeds
  clears exactly the pages of the released lease, any other outcome leaves memory alone, and the clearing
  itself never fails.\<close>

theorem pages_change_hands_zeroed:
  assumes "runtime_reachable bi ro"
  shows "(case x86_guest_memory_runtime_allocate ro mm owner n of (st, ro', mm', r) \<Rightarrow>
       st \<noteq> X86_GUEST_MEMORY_ZERO_FAILED \<and>
       (case r of
          Some (l, a) \<Rightarrow> (\<forall>i < unat n * 4096. mm' (a + of_nat i) = 0) \<and>
            (\<forall>x. in_range a (unat n * 4096) x \<or> mm' x = mm x)
        | None \<Rightarrow> mm' = mm)) \<and>
    (case x86_guest_memory_runtime_release ro mm owner l of (st, ro', mm') \<Rightarrow>
       st \<noteq> X86_GUEST_MEMORY_ZERO_FAILED \<and>
       (if st = X86_GUEST_MEMORY_OK
        then \<exists>f k. lease_map (runtime_manager ro) l = Some (owner, f, k) \<and>
          mm' = mem_write mm (0x00800000 + of_nat f * 0x1000) (replicate (k * 4096) 0)
        else mm' = mm))"
proof -
  note inv = runtime_reachable_inv [OF assms]
  obtain st ro' mm' r where a: "x86_guest_memory_runtime_allocate ro mm owner n = (st, ro', mm', r)" by (metis prod_cases4)
  obtain st2 ro2 mm2 where f: "x86_guest_memory_runtime_release ro mm owner l = (st2, ro2, mm2)" by (metis prod_cases3)
  have "st \<noteq> X86_GUEST_MEMORY_ZERO_FAILED \<and> (case r of
      Some (l, a) \<Rightarrow> (\<forall>i < unat n * 4096. mm' (a + of_nat i) = 0) \<and> (\<forall>x. in_range a (unat n * 4096) x \<or> mm' x = mm x)
    | None \<Rightarrow> mm' = mm)"
  proof (cases r)
    case None
    with runtime_allocate_correct [OF inv a] show ?thesis by simp
  next
    case (Some la)
    obtain k ad where la: "la = (k, ad)" by fastforce
    with runtime_allocate_correct [OF inv a] Some obtain g where g: "g + unat n \<le> 63488" "st = X86_GUEST_MEMORY_OK"
        "mm' = mem_write mm ad (replicate (unat n * 4096) 0)" by auto
    then have "mm' (ad + of_nat i) = 0" if "i < unat n * 4096" for i
      using that mem_write_inside [of i "replicate (unat n * 4096) 0" mm ad] by simp
    moreover have "in_range ad (unat n * 4096) x \<or> mm' x = mm x" for x
      using g(3) mem_write_outside [of ad "replicate (unat n * 4096) 0" x mm] by auto
    ultimately show ?thesis using g(2) by (simp add: Some la)
  qed
  moreover have "st2 \<noteq> X86_GUEST_MEMORY_ZERO_FAILED \<and> (if st2 = X86_GUEST_MEMORY_OK
      then \<exists>f k. lease_map (runtime_manager ro) l = Some (owner, f, k) \<and>
        mm2 = mem_write mm (0x00800000 + of_nat f * 0x1000) (replicate (k * 4096) 0) else mm2 = mm)"
    using runtime_release_correct [OF inv f] by (auto simp: released_as_def split: if_splits)
  ultimately show ?thesis unfolding a f by simp
qed

theorem pages_change_hands_zeroed_witness:
  "runtime_reachable sample_boot_info sample_runtime \<and>
   fst (x86_guest_memory_runtime_allocate sample_runtime (\<lambda>_. 0xff) 7 1) \<noteq> X86_GUEST_MEMORY_ZERO_FAILED \<and>
   fst (x86_guest_memory_runtime_release sample_runtime (\<lambda>_. 0xff) 7 1) \<noteq> X86_GUEST_MEMORY_ZERO_FAILED"
  using pages_change_hands_zeroed [OF sample_runtime_reachable, where mm = "\<lambda>_. 0xff" and owner = 7 and n = 1 and l = 1]
    sample_runtime_reachable by (simp add: case_prod_unfold)

end
