(* ===== verification/FirmwareShadow.thy ===== *)
theory FirmwareShadow
  imports PagingSafety GuestRuntime
begin

text \<open>
  Private copy-on-write pages for firmware writes: \<open>kernel/x86_vm/memory/firmware_shadow.c\<close>. The kernel
  state the file works on is the record \<open>guest_kernel\<close>: the page tables, the owner of guest pages, the
  physical memory and the file's own global \<open>shadow_owner\<close>. A pointer to a client or page slot is its
  index. A binding is passed by value, \<open>None\<close> for NULL. \<open>reserved\<close> padding of the owner's own slots,
  which is never read, is left out; the padding of a binding is checked and kept.
\<close>

declare bit_numeral_word_iff [simp del] bit_neg_numeral_word_iff [simp del]

abbreviation (input) FIRMWARE_CLIENT_CAPACITY :: nat where "FIRMWARE_CLIENT_CAPACITY \<equiv> 8"
abbreviation (input) FIRMWARE_SHADOW_PAGE_CAPACITY :: nat where "FIRMWARE_SHADOW_PAGE_CAPACITY \<equiv> 64"
abbreviation (input) X86_FIRMWARE_GENERATION_MAX :: u64 where "X86_FIRMWARE_GENERATION_MAX \<equiv> - 2"
abbreviation (input) X86_FIRMWARE_WRITE_FAULT :: u32 where "X86_FIRMWARE_WRITE_FAULT \<equiv> 7"

datatype x86_firmware_shadow_status =
    X86_FIRMWARE_SHADOW_OK
  | X86_FIRMWARE_SHADOW_INVALID_ARGUMENT
  | X86_FIRMWARE_SHADOW_INVALID_STATE
  | X86_FIRMWARE_SHADOW_MACHINE_MISMATCH
  | X86_FIRMWARE_SHADOW_STALE_BINDING
  | X86_FIRMWARE_SHADOW_NOT_APPLICABLE
  | X86_FIRMWARE_SHADOW_CAPACITY_EXHAUSTED
  | X86_FIRMWARE_SHADOW_NO_MEMORY
  | X86_FIRMWARE_SHADOW_RETRY
  | X86_FIRMWARE_SHADOW_PAGING_MISMATCH
  | X86_FIRMWARE_SHADOW_POISONED

datatype x86_firmware_page_state =
    X86_FIRMWARE_PAGE_EMPTY
  | X86_FIRMWARE_PAGE_LEASED
  | X86_FIRMWARE_PAGE_ACTIVE
  | X86_FIRMWARE_PAGE_RESTORED

record x86_firmware_client_slot =
  client_slot_generation :: u64
  client_execution_generation :: u64
  client_active :: u8

record x86_firmware_shadow_page =
  page_snapshot :: x86_paging_guest_shadow_snapshot_record
  page_lease :: x86_guest_memory_lease
  page_linear :: u32
  page_physical :: u32
  page_state :: x86_firmware_page_state

record x86_firmware_shadow_owner =
  shadow_paging :: x86_paging_binding
  shadow_clients :: "nat \<Rightarrow> x86_firmware_client_slot"
  shadow_pages :: "nat \<Rightarrow> x86_firmware_shadow_page"
  shadow_address_space :: u64
  shadow_machine :: u64
  shadow_space_generation :: u64
  shadow_execution_generation :: u64
  shadow_client_count :: u32
  shadow_page_count :: u32
  shadow_initialized :: u8
  shadow_poisoned :: u8
  shadow_cleanup_corrupted :: u8

record x86_guest_space_firmware_binding =
  bind_address_space :: u64
  bind_space_generation :: u64
  bind_machine :: u64
  bind_execution_generation :: u64
  bind_client_generation :: u64
  bind_client_slot :: u32
  bind_reserved :: bytes

record guest_kernel =
  kernel_paging :: x86_paging_state
  kernel_runtime :: x86_guest_memory_runtime_owner
  kernel_memory :: memory
  kernel_shadow :: x86_firmware_shadow_owner

definition empty_snapshot :: x86_paging_guest_shadow_snapshot_record where
  "empty_snapshot = \<lparr>snap_paging = \<lparr>paging_generation = 0, paging_page_directory = 0, guest_linear_limit = 0\<rparr>,
     snap_linear_page = 0, original_entry = 0, snap_reserved = replicate 8 0\<rparr>"

definition empty_shadow_page :: x86_firmware_shadow_page where
  "empty_shadow_page = \<lparr>page_snapshot = empty_snapshot, page_lease = 0, page_linear = 0, page_physical = 0,
     page_state = X86_FIRMWARE_PAGE_EMPTY\<rparr>"

definition empty_client :: x86_firmware_client_slot where
  "empty_client = \<lparr>client_slot_generation = 0, client_execution_generation = 0, client_active = 0\<rparr>"

section \<open>Lookup\<close>

definition owner_is_active :: "guest_kernel \<Rightarrow> bool" where
  "owner_is_active k \<longleftrightarrow> shadow_initialized (kernel_shadow k) = 1 \<and> shadow_poisoned (kernel_shadow k) = 0 \<and>
     x86_paging_binding_is_active (kernel_paging k) (Some (shadow_paging (kernel_shadow k)))"

definition map_physical_page :: "u32 \<Rightarrow> native_mapping option" where
  "map_physical_page address =
     (case kernel_address_identity_map (ucast address) 0x1000 of
        Inl _ \<Rightarrow> None
      | Inr mapping \<Rightarrow> if mapping_length mapping = 0x1000 then Some mapping else None)"

definition binding_header_matches :: "x86_firmware_shadow_owner \<Rightarrow> x86_guest_space_firmware_binding \<Rightarrow> bool" where
  "binding_header_matches so binding \<longleftrightarrow>
     bind_address_space binding = shadow_address_space so \<and>
     bind_space_generation binding = shadow_space_generation so \<and>
     bind_machine binding = shadow_machine so \<and>
     bind_execution_generation binding = shadow_execution_generation so \<and>
     unat (bind_client_slot binding) < FIRMWARE_CLIENT_CAPACITY \<and>
     list_all (\<lambda>x. x = 0) (bind_reserved binding)"

definition resolve_client :: "x86_firmware_shadow_owner \<Rightarrow> x86_guest_space_firmware_binding \<Rightarrow> nat option" where
  "resolve_client so binding =
     (if \<not> binding_header_matches so binding then None
      else (let i = unat (bind_client_slot binding); slot = shadow_clients so i
            in if client_slot_generation slot \<noteq> bind_client_generation binding \<or>
                  client_execution_generation slot \<noteq> bind_execution_generation binding then None
               else Some i))"

definition find_page :: "x86_firmware_shadow_owner \<Rightarrow> u32 \<Rightarrow> nat option" where
  "find_page so linear_page =
     find (\<lambda>i. page_state (shadow_pages so i) \<noteq> X86_FIRMWARE_PAGE_EMPTY \<and> page_linear (shadow_pages so i) = linear_page)
       [0..<FIRMWARE_SHADOW_PAGE_CAPACITY]"

definition find_empty_page :: "x86_firmware_shadow_owner \<Rightarrow> nat option" where
  "find_empty_page so =
     find (\<lambda>i. page_state (shadow_pages so i) = X86_FIRMWARE_PAGE_EMPTY) [0..<FIRMWARE_SHADOW_PAGE_CAPACITY]"

definition update_page :: "nat \<Rightarrow> (x86_firmware_shadow_page \<Rightarrow> x86_firmware_shadow_page) \<Rightarrow> guest_kernel \<Rightarrow> guest_kernel" where
  "update_page i f k = k\<lparr>kernel_shadow := (kernel_shadow k)\<lparr>shadow_pages := (shadow_pages (kernel_shadow k))
     (i := f (shadow_pages (kernel_shadow k) i))\<rparr>\<rparr>"

definition poison_shadow :: "guest_kernel \<Rightarrow> guest_kernel" where
  "poison_shadow k = k\<lparr>kernel_shadow := (kernel_shadow k)\<lparr>shadow_poisoned := 1\<rparr>\<rparr>"

definition clear_page :: "nat \<Rightarrow> guest_kernel \<Rightarrow> guest_kernel" where
  "clear_page i k = k\<lparr>kernel_shadow := (kernel_shadow k)\<lparr>
     shadow_pages := (shadow_pages (kernel_shadow k))(i := empty_shadow_page),
     shadow_page_count := (if shadow_page_count (kernel_shadow k) > 0 then shadow_page_count (kernel_shadow k) - 1
                           else shadow_page_count (kernel_shadow k))\<rparr>\<rparr>"

section \<open>Releasing private pages\<close>

text \<open>The result carries the new value of the caller's \<open>mapping_corrupted\<close>.\<close>

definition restore_page :: "nat \<Rightarrow> guest_kernel \<Rightarrow> x86_paging_guest_shadow_status \<times> guest_kernel" where
  "restore_page i k =
     (let page = shadow_pages (kernel_shadow k) i;
          (status, p) = x86_paging_guest_shadow_restore (kernel_paging k) (Some (page_snapshot page)) (page_physical page)
      in (status, k\<lparr>kernel_paging := p\<rparr>))"

definition release_lease_of_page :: "nat \<Rightarrow> guest_kernel \<Rightarrow> x86_firmware_shadow_status \<times> guest_kernel" where
  "release_lease_of_page i k =
     (if page_state (shadow_pages (kernel_shadow k) i) \<noteq> X86_FIRMWARE_PAGE_LEASED \<and>
         page_state (shadow_pages (kernel_shadow k) i) \<noteq> X86_FIRMWARE_PAGE_RESTORED
      then (X86_FIRMWARE_SHADOW_POISONED, k)
      else (let (status, ro, mm) = x86_guest_memory_runtime_release (kernel_runtime k) (kernel_memory k)
                                     (shadow_address_space (kernel_shadow k)) (page_lease (shadow_pages (kernel_shadow k) i));
                k = k\<lparr>kernel_runtime := ro, kernel_memory := mm\<rparr>
            in if status = X86_GUEST_MEMORY_ZERO_FAILED then (X86_FIRMWARE_SHADOW_RETRY, k)
               else if status \<noteq> X86_GUEST_MEMORY_OK then (X86_FIRMWARE_SHADOW_POISONED, k)
               else (X86_FIRMWARE_SHADOW_OK, clear_page i k)))"

definition release_private_page ::
  "nat \<Rightarrow> bool \<Rightarrow> guest_kernel \<Rightarrow> x86_firmware_shadow_status \<times> bool \<times> guest_kernel" where
  "release_private_page i mapping_corrupted k =
     (if page_state (shadow_pages (kernel_shadow k) i) = X86_FIRMWARE_PAGE_ACTIVE then
        (let (status, k) = restore_page i k
         in if status = X86_PAGING_GUEST_SHADOW_OK then
              (let (result, k) = release_lease_of_page i (update_page i (page_state_update (\<lambda>_. X86_FIRMWARE_PAGE_RESTORED)) k)
               in (result, mapping_corrupted, k))
            else if status = X86_PAGING_GUEST_SHADOW_MAPPING_MISMATCH then
              (let k = update_page i (page_state_update (\<lambda>_. X86_FIRMWARE_PAGE_RESTORED)) k;
                   k = k\<lparr>kernel_shadow := (kernel_shadow k)\<lparr>shadow_cleanup_corrupted := 1\<rparr>\<rparr>;
                   (result, k) = release_lease_of_page i k
               in (result, True, k))
            else (X86_FIRMWARE_SHADOW_POISONED, mapping_corrupted, k))
      else (let (result, k) = release_lease_of_page i k in (result, mapping_corrupted, k)))"

definition rollback_private_page ::
  "nat \<Rightarrow> x86_firmware_shadow_status \<Rightarrow> guest_kernel \<Rightarrow> x86_firmware_shadow_status \<times> guest_kernel" where
  "rollback_private_page i original_status k =
     (let (status, mapping_corrupted, k) = release_private_page i False k
      in if status = X86_FIRMWARE_SHADOW_OK \<and> \<not> mapping_corrupted then (original_status, k)
         else (X86_FIRMWARE_SHADOW_POISONED, poison_shadow k))"

section \<open>Lifecycle\<close>

definition x86_firmware_shadow_initialize ::
  "guest_kernel \<Rightarrow> u64 \<Rightarrow> u64 \<Rightarrow> u64 \<Rightarrow> x86_paging_binding option \<Rightarrow> x86_firmware_shadow_status \<times> guest_kernel" where
  "x86_firmware_shadow_initialize k address_space machine gen paging =
     (if \<not> valid_identity address_space \<or> \<not> valid_identity machine \<or> address_space = machine \<or> gen = 0 \<or> paging = None
      then (X86_FIRMWARE_SHADOW_INVALID_ARGUMENT, k)
      else if shadow_initialized (kernel_shadow k) \<noteq> 0 then (X86_FIRMWARE_SHADOW_INVALID_STATE, k)
      else if \<not> x86_paging_binding_is_active (kernel_paging k) paging then (X86_FIRMWARE_SHADOW_PAGING_MISMATCH, k)
      else (X86_FIRMWARE_SHADOW_OK,
            k\<lparr>kernel_shadow := \<lparr>shadow_paging = the paging, shadow_clients = (\<lambda>_. empty_client),
                shadow_pages = (\<lambda>_. empty_shadow_page), shadow_address_space = address_space, shadow_machine = machine,
                shadow_space_generation = gen, shadow_execution_generation = 0, shadow_client_count = 0,
                shadow_page_count = 0, shadow_initialized = 1, shadow_poisoned = 0, shadow_cleanup_corrupted = 0\<rparr>\<rparr>))"

definition x86_firmware_shadow_execution_acquire ::
  "guest_kernel \<Rightarrow> u64 \<Rightarrow> x86_firmware_shadow_status \<times> guest_kernel \<times> x86_guest_space_firmware_binding option" where
  "x86_firmware_shadow_execution_acquire k machine =
     (if \<not> valid_identity machine then (X86_FIRMWARE_SHADOW_INVALID_ARGUMENT, k, None)
      else if \<not> owner_is_active k
      then (if shadow_poisoned (kernel_shadow k) \<noteq> 0 then X86_FIRMWARE_SHADOW_POISONED
            else X86_FIRMWARE_SHADOW_INVALID_STATE, k, None)
      else if machine \<noteq> shadow_machine (kernel_shadow k) then (X86_FIRMWARE_SHADOW_MACHINE_MISMATCH, k, None)
      else if shadow_client_count (kernel_shadow k) = 0 \<and>
              (shadow_page_count (kernel_shadow k) \<noteq> 0 \<or>
               shadow_execution_generation (kernel_shadow k) \<ge> X86_FIRMWARE_GENERATION_MAX)
      then (X86_FIRMWARE_SHADOW_POISONED, poison_shadow k, None)
      else (let so = kernel_shadow k;
                so = (if shadow_client_count so = 0
                      then so\<lparr>shadow_execution_generation :=
                             (if shadow_execution_generation so + 1 < 1 then 1 else shadow_execution_generation so + 1)\<rparr>
                      else so)
            in case find (\<lambda>i. \<not> (client_active (shadow_clients so i) \<noteq> 0 \<or>
                                 client_slot_generation (shadow_clients so i) \<ge> X86_FIRMWARE_GENERATION_MAX))
                      [0..<FIRMWARE_CLIENT_CAPACITY] of
                 None \<Rightarrow> (X86_FIRMWARE_SHADOW_CAPACITY_EXHAUSTED, k\<lparr>kernel_shadow := so\<rparr>, None)
               | Some i \<Rightarrow>
                   (let gen = client_slot_generation (shadow_clients so i) + 1;
                        so = so\<lparr>shadow_clients := (shadow_clients so)(i := \<lparr>client_slot_generation = gen,
                                 client_execution_generation = shadow_execution_generation so, client_active = 1\<rparr>),
                               shadow_client_count := shadow_client_count so + 1\<rparr>
                    in (X86_FIRMWARE_SHADOW_OK, k\<lparr>kernel_shadow := so\<rparr>,
                        Some \<lparr>bind_address_space = shadow_address_space so, bind_space_generation = shadow_space_generation so,
                              bind_machine = shadow_machine so, bind_execution_generation = shadow_execution_generation so,
                              bind_client_generation = gen, bind_client_slot = of_nat i, bind_reserved = replicate 4 0\<rparr>))))"

text \<open>The loop over the page slots, from the last to the first; \<open>Inl\<close> is an early return.\<close>

fun release_loop ::
  "nat list \<Rightarrow> bool \<Rightarrow> guest_kernel \<Rightarrow> (x86_firmware_shadow_status \<times> guest_kernel) + (bool \<times> guest_kernel)" where
  "release_loop [] mapping_corrupted k = Inr (mapping_corrupted, k)"
| "release_loop (i # is) mapping_corrupted k =
     (if page_state (shadow_pages (kernel_shadow k) i) = X86_FIRMWARE_PAGE_EMPTY then release_loop is mapping_corrupted k
      else (let (status, mapping_corrupted, k) = release_private_page i mapping_corrupted k
            in if status = X86_FIRMWARE_SHADOW_RETRY then Inl (status, k)
               else if status \<noteq> X86_FIRMWARE_SHADOW_OK then Inl (X86_FIRMWARE_SHADOW_POISONED, poison_shadow k)
               else release_loop is mapping_corrupted k))"

definition drop_client :: "nat \<Rightarrow> (u32 \<Rightarrow> u32) \<Rightarrow> guest_kernel \<Rightarrow> guest_kernel" where
  "drop_client i f k = k\<lparr>kernel_shadow := (kernel_shadow k)\<lparr>
     shadow_clients := (shadow_clients (kernel_shadow k))(i := (shadow_clients (kernel_shadow k) i)\<lparr>client_active := 0\<rparr>),
     shadow_client_count := f (shadow_client_count (kernel_shadow k))\<rparr>\<rparr>"

definition x86_firmware_shadow_execution_release ::
  "guest_kernel \<Rightarrow> u64 \<Rightarrow> x86_guest_space_firmware_binding option \<Rightarrow> x86_firmware_shadow_status \<times> guest_kernel" where
  "x86_firmware_shadow_execution_release k machine binding =
     (if \<not> valid_identity machine \<or> binding = None then (X86_FIRMWARE_SHADOW_INVALID_ARGUMENT, k)
      else if shadow_initialized (kernel_shadow k) \<noteq> 1 then (X86_FIRMWARE_SHADOW_INVALID_STATE, k)
      else if machine \<noteq> shadow_machine (kernel_shadow k) then (X86_FIRMWARE_SHADOW_MACHINE_MISMATCH, k)
      else (case resolve_client (kernel_shadow k) (the binding) of
              None \<Rightarrow> (X86_FIRMWARE_SHADOW_STALE_BINDING, k)
            | Some c \<Rightarrow>
                if client_active (shadow_clients (kernel_shadow k) c) = 0 then (X86_FIRMWARE_SHADOW_OK, k)
                else if shadow_poisoned (kernel_shadow k) \<noteq> 0 then (X86_FIRMWARE_SHADOW_POISONED, k)
                else if shadow_client_count (kernel_shadow k) = 0 then (X86_FIRMWARE_SHADOW_POISONED, poison_shadow k)
                else if shadow_client_count (kernel_shadow k) > 1
                then (X86_FIRMWARE_SHADOW_OK, drop_client c (\<lambda>n. n - 1) k)
                else (case release_loop (rev [0..<FIRMWARE_SHADOW_PAGE_CAPACITY]) False k of
                        Inl early \<Rightarrow> early
                      | Inr (mapping_corrupted, k) \<Rightarrow>
                          (let k = drop_client c (\<lambda>_. 0) k
                           in if shadow_page_count (kernel_shadow k) \<noteq> 0 \<or> mapping_corrupted \<or>
                                 shadow_cleanup_corrupted (kernel_shadow k) \<noteq> 0
                              then (X86_FIRMWARE_SHADOW_POISONED, poison_shadow k)
                              else (X86_FIRMWARE_SHADOW_OK, k)))))"

definition strip_alias :: "nat \<Rightarrow> guest_kernel \<Rightarrow> guest_kernel" where
  "strip_alias i k =
     (if page_state (shadow_pages (kernel_shadow k) i) \<noteq> X86_FIRMWARE_PAGE_ACTIVE then k
      else (let (status, k) = restore_page i k
            in if status = X86_PAGING_GUEST_SHADOW_OK \<or> status = X86_PAGING_GUEST_SHADOW_MAPPING_MISMATCH
               then update_page i (page_state_update (\<lambda>_. X86_FIRMWARE_PAGE_RESTORED)) k else k))"

definition x86_firmware_shadow_execution_quarantine ::
  "guest_kernel \<Rightarrow> u64 \<Rightarrow> x86_guest_space_firmware_binding option \<Rightarrow> x86_firmware_shadow_status \<times> guest_kernel" where
  "x86_firmware_shadow_execution_quarantine k machine binding =
     (if \<not> valid_identity machine \<or> binding = None then (X86_FIRMWARE_SHADOW_INVALID_ARGUMENT, k)
      else if shadow_initialized (kernel_shadow k) \<noteq> 1 then (X86_FIRMWARE_SHADOW_INVALID_STATE, k)
      else if machine \<noteq> shadow_machine (kernel_shadow k) then (X86_FIRMWARE_SHADOW_MACHINE_MISMATCH, k)
      else if resolve_client (kernel_shadow k) (the binding) = None then (X86_FIRMWARE_SHADOW_STALE_BINDING, k)
      else (X86_FIRMWARE_SHADOW_POISONED, poison_shadow (fold strip_alias [0..<FIRMWARE_SHADOW_PAGE_CAPACITY] k)))"

section \<open>Write faults\<close>

fun memory_allocation_status :: "x86_guest_memory_status \<Rightarrow> x86_firmware_shadow_status" where
  "memory_allocation_status X86_GUEST_MEMORY_NO_MEMORY = X86_FIRMWARE_SHADOW_NO_MEMORY"
| "memory_allocation_status X86_GUEST_MEMORY_NO_LEASE = X86_FIRMWARE_SHADOW_NO_MEMORY"
| "memory_allocation_status X86_GUEST_MEMORY_ZERO_FAILED = X86_FIRMWARE_SHADOW_NO_MEMORY"
| "memory_allocation_status X86_GUEST_MEMORY_POISONED = X86_FIRMWARE_SHADOW_POISONED"
| "memory_allocation_status _ = X86_FIRMWARE_SHADOW_INVALID_STATE"

definition copy_firmware_page :: "u32 \<Rightarrow> u32 \<Rightarrow> memory \<Rightarrow> bool \<times> memory" where
  "copy_firmware_page source_page destination_page mm =
     (case (map_physical_page source_page, map_physical_page destination_page) of
        (Some source, Some destination) \<Rightarrow>
          (let (status, mm) = memcpy_s (mapping_pointer destination) (mapping_length destination)
                                (mapping_pointer source) (mapping_length source) 0x1000 mm
           in (status = MEMORY_OK, mm))
      | _ \<Rightarrow> (False, mm))"

text \<open>The part of a fault on a page that has no slot yet, once a slot and a lease are taken.\<close>

definition publish_private_page :: "nat \<Rightarrow> u32 \<Rightarrow> u32 \<Rightarrow> guest_kernel \<Rightarrow> x86_firmware_shadow_status \<times> guest_kernel" where
  "publish_private_page i linear_page physical_page k =
     (let (status, snapshot) = x86_paging_guest_shadow_snapshot (kernel_paging k)
                                 (Some (shadow_paging (kernel_shadow k))) linear_page;
          k = (case snapshot of Some s \<Rightarrow> update_page i (page_snapshot_update (\<lambda>_. s)) k | None \<Rightarrow> k)
      in if status \<noteq> X86_PAGING_GUEST_SHADOW_OK then rollback_private_page i X86_FIRMWARE_SHADOW_PAGING_MISMATCH k
         else (let (copied, mm) = copy_firmware_page linear_page physical_page (kernel_memory k);
                   k = k\<lparr>kernel_memory := mm\<rparr>
               in if \<not> copied then rollback_private_page i X86_FIRMWARE_SHADOW_INVALID_STATE k
                  else (let (status, p) = x86_paging_guest_shadow_publish (kernel_paging k)
                                            (Some (page_snapshot (shadow_pages (kernel_shadow k) i))) physical_page;
                            k = k\<lparr>kernel_paging := p\<rparr>
                        in if status \<noteq> X86_PAGING_GUEST_SHADOW_OK
                           then rollback_private_page i X86_FIRMWARE_SHADOW_PAGING_MISMATCH k
                           else (X86_FIRMWARE_SHADOW_OK,
                                 update_page i (page_state_update (\<lambda>_. X86_FIRMWARE_PAGE_ACTIVE)) k))))"

definition fault_on_known_page :: "nat \<Rightarrow> u32 \<Rightarrow> guest_kernel \<Rightarrow> x86_firmware_shadow_status \<times> guest_kernel" where
  "fault_on_known_page i fault_address k =
     (let page = shadow_pages (kernel_shadow k) i
      in if page_state page = X86_FIRMWARE_PAGE_ACTIVE \<and>
            x86_paging_guest_shadow_translate (kernel_paging k) (Some (page_snapshot page)) (page_physical page)
              fault_address True \<noteq> None
         then (X86_FIRMWARE_SHADOW_OK, k)
         else (X86_FIRMWARE_SHADOW_POISONED, poison_shadow (strip_alias i k)))"

definition fault_on_new_page :: "u32 \<Rightarrow> guest_kernel \<Rightarrow> x86_firmware_shadow_status \<times> guest_kernel" where
  "fault_on_new_page linear_page k =
     (if shadow_page_count (kernel_shadow k) \<ge> of_nat FIRMWARE_SHADOW_PAGE_CAPACITY
      then (X86_FIRMWARE_SHADOW_CAPACITY_EXHAUSTED, k)
      else (case find_empty_page (kernel_shadow k) of
              None \<Rightarrow> (X86_FIRMWARE_SHADOW_POISONED, poison_shadow k)
            | Some i \<Rightarrow>
                (let (status, ro, mm, leased) = x86_guest_memory_runtime_allocate (kernel_runtime k) (kernel_memory k)
                                                  (shadow_address_space (kernel_shadow k)) 1;
                     k = k\<lparr>kernel_runtime := ro, kernel_memory := mm\<rparr>
                 in case leased of
                      None \<Rightarrow>
                        (let status = memory_allocation_status status
                         in (status, if status = X86_FIRMWARE_SHADOW_POISONED then poison_shadow k else k))
                    | Some (lease, physical_page) \<Rightarrow>
                        (let k = k\<lparr>kernel_shadow := (kernel_shadow k)\<lparr>
                                   shadow_pages := (shadow_pages (kernel_shadow k))(i := \<lparr>page_snapshot = empty_snapshot,
                                     page_lease = lease, page_linear = linear_page, page_physical = physical_page,
                                     page_state = X86_FIRMWARE_PAGE_LEASED\<rparr>),
                                   shadow_page_count := shadow_page_count (kernel_shadow k) + 1\<rparr>\<rparr>
                         in case x86_guest_memory_runtime_inspect (kernel_runtime k) lease of
                              Inl _ \<Rightarrow> rollback_private_page i X86_FIRMWARE_SHADOW_INVALID_STATE k
                            | Inr info \<Rightarrow>
                                if info_owner info \<noteq> shadow_address_space (kernel_shadow k) \<or>
                                   info_physical_address info \<noteq> physical_page \<or> info_page_count info \<noteq> 1
                                then rollback_private_page i X86_FIRMWARE_SHADOW_INVALID_STATE k
                                else publish_private_page i linear_page physical_page k))))"

definition x86_firmware_shadow_write_fault ::
  "guest_kernel \<Rightarrow> u64 \<Rightarrow> x86_guest_space_firmware_binding option \<Rightarrow> u32 \<Rightarrow> u32 \<Rightarrow> x86_firmware_shadow_status \<times> guest_kernel" where
  "x86_firmware_shadow_write_fault k machine binding page_fault_error fault_address =
     (if \<not> valid_identity machine \<or> binding = None then (X86_FIRMWARE_SHADOW_INVALID_ARGUMENT, k)
      else if \<not> owner_is_active k
      then (if shadow_poisoned (kernel_shadow k) \<noteq> 0 then X86_FIRMWARE_SHADOW_POISONED else X86_FIRMWARE_SHADOW_INVALID_STATE, k)
      else if machine \<noteq> shadow_machine (kernel_shadow k) then (X86_FIRMWARE_SHADOW_MACHINE_MISMATCH, k)
      else (case resolve_client (kernel_shadow k) (the binding) of
              None \<Rightarrow> (X86_FIRMWARE_SHADOW_STALE_BINDING, k)
            | Some c \<Rightarrow>
                if client_active (shadow_clients (kernel_shadow k) c) \<noteq> 1 then (X86_FIRMWARE_SHADOW_STALE_BINDING, k)
                else if page_fault_error \<noteq> X86_FIRMWARE_WRITE_FAULT \<or> fault_address < X86_DOS_VIDEO_LIMIT \<or>
                        fault_address \<ge> X86_LEGACY_ROM_LIMIT then (X86_FIRMWARE_SHADOW_NOT_APPLICABLE, k)
                else (let linear_page = fault_address AND X86_PAGE_ADDRESS_MASK
                      in case find_page (kernel_shadow k) linear_page of
                           Some i \<Rightarrow> fault_on_known_page i fault_address k
                         | None \<Rightarrow> fault_on_new_page linear_page k)))"

definition x86_firmware_shadow_translate ::
  "guest_kernel \<Rightarrow> u32 \<Rightarrow> bool \<Rightarrow> x86_paging_guest_translation option" where
  "x86_firmware_shadow_translate k address writable =
     (let so = kernel_shadow k
      in if \<not> owner_is_active k \<or> address \<ge> guest_linear_limit (shadow_paging so) then None
         else (case find_page so (address AND X86_PAGE_ADDRESS_MASK) of
                 None \<Rightarrow> x86_paging_guest_identity_translate (kernel_paging k) (Some (shadow_paging so)) address writable
               | Some i \<Rightarrow>
                   if page_state (shadow_pages so i) \<noteq> X86_FIRMWARE_PAGE_ACTIVE then None
                   else x86_paging_guest_shadow_translate (kernel_paging k) (Some (page_snapshot (shadow_pages so i)))
                          (page_physical (shadow_pages so i)) address writable))"

end
