(* ===== verification/GuestMachine.thy ===== *)
theory GuestMachine
  imports DosPrelude
begin

text \<open>
  The DOS guest-machine boundary: \<open>include/dos_machine.h\<close> and \<open>dos/machine.c\<close>. A machine is a
  table of backend callbacks, the handle of the backend, an address limit and the cached A20
  state. The state of the backend is the type variable \<open>'b\<close>: callbacks that may change it return
  the new one, memory reads only observe it. A callback that the table leaves out is a NULL
  pointer of the source and is \<open>None\<close> here; NULL arguments are \<open>None\<close> too. A callback reports a raw
  C enumeration value, which the boundary normalizes. A native buffer is its byte list, so its
  capacity is its length; a destination is given by its capacity, and a read returns the bytes it
  stores there. \<open>size_t\<close> values are natural numbers.
\<close>

section \<open>Data model\<close>

datatype dos_cpu_mode = DOS_CPU_REAL16 | DOS_CPU_VM86 | DOS_CPU_PROTECTED16 | DOS_CPU_PROTECTED32

record dos_cpu_state =
  eax :: u32
  ebx :: u32
  ecx :: u32
  edx :: u32
  esi :: u32
  edi :: u32
  ebp :: u32
  esp :: u32
  eip :: u32
  eflags :: u32
  cs_sel :: u16
  ss_sel :: u16
  ds_sel :: u16
  es_sel :: u16
  fs_sel :: u16
  gs_sel :: u16
  cpu_mode :: u32

definition dos_register_low16 :: "u32 \<Rightarrow> u16" where
  "dos_register_low16 v = ucast (v AND 0xffff)"

definition dos_register_low8 :: "u32 \<Rightarrow> u8" where
  "dos_register_low8 v = ucast (v AND 0xff)"

definition dos_register_high8 :: "u32 \<Rightarrow> u8" where
  "dos_register_high8 v = ucast (drop_bit 8 v AND 0xff)"

definition dos_register_set_low16 :: "u32 \<Rightarrow> u16 \<Rightarrow> u32" where
  "dos_register_set_low16 v low = ((v AND 0xffff0000) OR ucast low)"

definition dos_register_set_low8 :: "u32 \<Rightarrow> u8 \<Rightarrow> u32" where
  "dos_register_set_low8 v low = ((v AND 0xffffff00) OR ucast low)"

definition dos_register_set_high8 :: "u32 \<Rightarrow> u8 \<Rightarrow> u32" where
  "dos_register_set_high8 v high = ((v AND 0xffff00ff) OR push_bit 8 (ucast high))"

definition DOS_A20_WRAP_ADDRESS :: nat where
  "DOS_A20_WRAP_ADDRESS = 0x100000"

definition DOS_GUEST_32_ADDRESS_LIMIT :: u64 where
  "DOS_GUEST_32_ADDRESS_LIMIT = 0x100000000"

definition dos_far_to_linear :: "u16 \<Rightarrow> u16 \<Rightarrow> bool \<Rightarrow> u32" where
  "dos_far_to_linear segment offset a20_enabled =
     (let linear = push_bit 4 (ucast segment) + ucast offset
      in if a20_enabled then linear else linear AND 0x000fffff)"

datatype dos_machine_status =
    DOS_MACHINE_OK
  | DOS_MACHINE_INVALID_ARGUMENT
  | DOS_MACHINE_ADDRESS_FAULT
  | DOS_MACHINE_IO_DENIED
  | DOS_MACHINE_IO_FAULT
  | DOS_MACHINE_ROLLBACK_FAILED
  | DOS_MACHINE_UNSUPPORTED
  | DOS_MACHINE_STOPPED

text \<open>The numeric values of the enumeration, as a callback returns them.\<close>

fun machine_status_code :: "dos_machine_status \<Rightarrow> nat" where
  "machine_status_code DOS_MACHINE_OK = 0"
| "machine_status_code DOS_MACHINE_INVALID_ARGUMENT = 1"
| "machine_status_code DOS_MACHINE_ADDRESS_FAULT = 2"
| "machine_status_code DOS_MACHINE_IO_DENIED = 3"
| "machine_status_code DOS_MACHINE_IO_FAULT = 4"
| "machine_status_code DOS_MACHINE_ROLLBACK_FAILED = 5"
| "machine_status_code DOS_MACHINE_UNSUPPORTED = 6"
| "machine_status_code DOS_MACHINE_STOPPED = 7"

text \<open>An I/O width is the raw value of the \<open>enum dos_io_width\<close> argument (1, 2 or 4 when valid).\<close>

record 'b dos_machine_ops =
  read_memory :: "('b \<Rightarrow> u64 \<Rightarrow> u32 \<Rightarrow> nat \<Rightarrow> nat \<Rightarrow> nat \<times> bytes) option"
  write_memory :: "('b \<Rightarrow> u64 \<Rightarrow> u32 \<Rightarrow> bytes \<Rightarrow> nat \<Rightarrow> nat \<times> 'b) option"
  read_port :: "('b \<Rightarrow> u64 \<Rightarrow> u16 \<Rightarrow> nat \<Rightarrow> nat \<times> u32 \<times> 'b) option"
  write_port :: "('b \<Rightarrow> u64 \<Rightarrow> u16 \<Rightarrow> nat \<Rightarrow> u32 \<Rightarrow> nat \<times> 'b) option"
  set_a20 :: "('b \<Rightarrow> u64 \<Rightarrow> bool \<Rightarrow> nat \<times> 'b) option"
  query_a20 :: "('b \<Rightarrow> u64 \<Rightarrow> nat \<times> bool) option"

record 'b dos_machine =
  ops :: "'b dos_machine_ops option"
  context_handle :: u64
  address_limit :: u64
  a20_enabled :: bool
  poisoned :: u8

section \<open>Validation helpers\<close>

definition io_width_is_valid :: "nat \<Rightarrow> bool" where
  "io_width_is_valid width \<longleftrightarrow> width = 1 \<or> width = 2 \<or> width = 4"

definition machine_status_is_valid :: "nat \<Rightarrow> bool" where
  "machine_status_is_valid status \<longleftrightarrow> status = 0 \<or> status = 1 \<or> status = 2 \<or> status = 3 \<or>
     status = 4 \<or> status = 5 \<or> status = 6 \<or> status = 7"

definition normalize_callback_status :: "nat \<Rightarrow> dos_machine_status" where
  "normalize_callback_status status =
     (if machine_status_is_valid status then
        (if status = 0 then DOS_MACHINE_OK
         else if status = 1 then DOS_MACHINE_INVALID_ARGUMENT
         else if status = 2 then DOS_MACHINE_ADDRESS_FAULT
         else if status = 3 then DOS_MACHINE_IO_DENIED
         else if status = 4 then DOS_MACHINE_IO_FAULT
         else if status = 5 then DOS_MACHINE_ROLLBACK_FAILED
         else if status = 6 then DOS_MACHINE_UNSUPPORTED
         else DOS_MACHINE_STOPPED)
      else DOS_MACHINE_IO_FAULT)"

lemma normalize_callback_status_OK [simp]:
  "normalize_callback_status status = DOS_MACHINE_OK \<longleftrightarrow> status = 0"
  by (auto simp: normalize_callback_status_def machine_status_is_valid_def)

lemma OK_normalize_callback_status [simp]:
  "DOS_MACHINE_OK = normalize_callback_status status \<longleftrightarrow> status = 0"
  using normalize_callback_status_OK [of status] by (simp only: eq_commute)

lemma normalize_callback_status_code [simp]:
  "normalize_callback_status (machine_status_code s) = s"
  by (cases s) (simp_all add: normalize_callback_status_def machine_status_is_valid_def)

text \<open>\<open>query_a20_backend\<close>; the output pointer is never NULL at its two call sites.\<close>

definition query_a20_backend :: "'b dos_machine_ops \<Rightarrow> u64 \<Rightarrow> 'b \<Rightarrow> dos_machine_status \<times> bool option" where
  "query_a20_backend table ctx b =
     (case query_a20 table of
        None \<Rightarrow> (DOS_MACHINE_UNSUPPORTED, None)
      | Some query \<Rightarrow>
          (let (raw, candidate) = query b ctx; status = normalize_callback_status raw
           in if status \<noteq> DOS_MACHINE_OK then (status, None)
              else (DOS_MACHINE_OK, Some candidate)))"

definition port_value_fits :: "nat \<Rightarrow> u32 \<Rightarrow> bool" where
  "port_value_fits width v =
     (if width = 1 then v \<le> 0xff else if width = 2 then v \<le> 0xffff else width = 4)"

definition machine_ready :: "'b dos_machine option \<Rightarrow> dos_machine_status" where
  "machine_ready machine =
     (case machine of
        None \<Rightarrow> DOS_MACHINE_INVALID_ARGUMENT
      | Some m \<Rightarrow> if poisoned m > 1 then DOS_MACHINE_INVALID_ARGUMENT
                  else if poisoned m = 0 then DOS_MACHINE_OK else DOS_MACHINE_STOPPED)"

definition guest_range_is_valid :: "'b dos_machine \<Rightarrow> u32 \<Rightarrow> nat \<Rightarrow> bool" where
  "guest_range_is_valid m address count \<longleftrightarrow>
     (ucast address :: u64) < address_limit m \<and>
     count \<le> unat (address_limit m - ucast address)"

text \<open>\<open>native_ranges_overlap\<close> on \<open>uintptr_t\<close> values of any pointer width.\<close>

definition native_ranges_overlap :: "'p::len word \<Rightarrow> 'p word \<Rightarrow> 'p word \<Rightarrow> bool" where
  "native_ranges_overlap first second count \<longleftrightarrow>
     (if unat first + unat count \<ge> 2 ^ LENGTH('p) \<or> unat second + unat count \<ge> 2 ^ LENGTH('p)
      then True
      else first < second + count \<and> second < first + count)"

section \<open>Configuration and linear transfers\<close>

definition dos_machine_configure ::
  "'b dos_machine_ops option \<Rightarrow> u64 \<Rightarrow> u64 \<Rightarrow> bool \<Rightarrow> dos_machine_status \<times> 'b dos_machine option" where
  "dos_machine_configure table ctx limit a20 =
     (case table of
        None \<Rightarrow> (DOS_MACHINE_INVALID_ARGUMENT, None)
      | Some t \<Rightarrow>
          if read_memory t = None \<or> write_memory t = None \<or> limit = 0 \<or>
             limit > DOS_GUEST_32_ADDRESS_LIMIT
          then (DOS_MACHINE_INVALID_ARGUMENT, None)
          else (DOS_MACHINE_OK,
                Some \<lparr>ops = Some t, context_handle = ctx, address_limit = limit,
                      a20_enabled = a20, poisoned = 0\<rparr>))"

text \<open>\<open>dos_machine_read machine b address destination count\<close>: \<open>destination\<close> is the capacity of the
  native buffer, \<open>None\<close> for a NULL pointer.\<close>

definition dos_machine_read ::
  "'b dos_machine option \<Rightarrow> 'b \<Rightarrow> u32 \<Rightarrow> nat option \<Rightarrow> nat \<Rightarrow> dos_machine_status \<times> bytes" where
  "dos_machine_read machine b address destination count =
     (case machine of
        None \<Rightarrow> (DOS_MACHINE_INVALID_ARGUMENT, [])
      | Some m \<Rightarrow>
     (case ops m of
        None \<Rightarrow> (DOS_MACHINE_INVALID_ARGUMENT, [])
      | Some t \<Rightarrow>
     (case read_memory t of
        None \<Rightarrow> (DOS_MACHINE_INVALID_ARGUMENT, [])
      | Some rd \<Rightarrow>
          if machine_ready machine \<noteq> DOS_MACHINE_OK then (machine_ready machine, [])
          else if count = 0 then (DOS_MACHINE_OK, [])
          else (case destination of
                  None \<Rightarrow> (DOS_MACHINE_INVALID_ARGUMENT, [])
                | Some capacity \<Rightarrow>
                    if count > capacity then (DOS_MACHINE_INVALID_ARGUMENT, [])
                    else if \<not> guest_range_is_valid m address count
                    then (DOS_MACHINE_ADDRESS_FAULT, [])
                    else (let (raw, data) = rd b (context_handle m) address capacity count
                          in (normalize_callback_status raw, data))))))"

definition dos_machine_write ::
  "'b dos_machine option \<Rightarrow> 'b \<Rightarrow> u32 \<Rightarrow> bytes option \<Rightarrow> nat \<Rightarrow> dos_machine_status \<times> 'b" where
  "dos_machine_write machine b address source count =
     (case machine of
        None \<Rightarrow> (DOS_MACHINE_INVALID_ARGUMENT, b)
      | Some m \<Rightarrow>
     (case ops m of
        None \<Rightarrow> (DOS_MACHINE_INVALID_ARGUMENT, b)
      | Some t \<Rightarrow>
     (case write_memory t of
        None \<Rightarrow> (DOS_MACHINE_INVALID_ARGUMENT, b)
      | Some wr \<Rightarrow>
          if machine_ready machine \<noteq> DOS_MACHINE_OK then (machine_ready machine, b)
          else if count = 0 then (DOS_MACHINE_OK, b)
          else (case source of
                  None \<Rightarrow> (DOS_MACHINE_INVALID_ARGUMENT, b)
                | Some src \<Rightarrow>
                    if count > length src then (DOS_MACHINE_INVALID_ARGUMENT, b)
                    else if \<not> guest_range_is_valid m address count
                    then (DOS_MACHINE_ADDRESS_FAULT, b)
                    else (let (raw, b') = wr b (context_handle m) address src count
                          in (normalize_callback_status raw, b'))))))"

text \<open>The native buffers of \<open>dos_machine_replace\<close> are passed by value; \<open>overlap\<close> is what
  \<open>native_ranges_overlap\<close> reports about the two pointers. \<open>rollback\<close> is the capacity of the
  caller's rollback space.\<close>

definition dos_machine_replace ::
  "'b dos_machine option \<Rightarrow> 'b \<Rightarrow> u32 \<Rightarrow> bytes option \<Rightarrow> nat option \<Rightarrow> bool \<Rightarrow> nat
     \<Rightarrow> dos_machine_status \<times> 'b" where
  "dos_machine_replace machine b address source rollback overlap count =
     (if count = 0 then (DOS_MACHINE_OK, b)
      else (case (source, rollback) of
        (Some src, Some capacity) \<Rightarrow>
          if count > length src \<or> count > capacity \<or> overlap
          then (DOS_MACHINE_INVALID_ARGUMENT, b)
          else (let (status, saved) = dos_machine_read machine b address (Some capacity) count
                in if status \<noteq> DOS_MACHINE_OK then (status, b)
                   else (let (status, b1) = dos_machine_write machine b address (Some src) count
                         in if status = DOS_MACHINE_OK then (DOS_MACHINE_OK, b1)
                            else (let (undo, b2) = dos_machine_write machine b1 address (Some saved) count
                                  in if undo \<noteq> DOS_MACHINE_OK
                                     then (DOS_MACHINE_ROLLBACK_FAILED, b2)
                                     else (status, b2))))
      | _ \<Rightarrow> (DOS_MACHINE_INVALID_ARGUMENT, b)))"

section \<open>Segmented transfers\<close>

definition far_transfer_chunk :: "bool \<Rightarrow> u16 \<Rightarrow> u16 \<Rightarrow> nat \<Rightarrow> nat \<times> u32" where
  "far_transfer_chunk a20 segment offset remaining =
     (let until_offset_wrap = 0x10000 - unat offset;
          chunk = (if remaining < until_offset_wrap then remaining else until_offset_wrap);
          linear = dos_far_to_linear segment offset a20
      in if a20 then (chunk, linear)
         else (let until_a20_wrap = DOS_A20_WRAP_ADDRESS - unat linear
               in (if until_a20_wrap < chunk then until_a20_wrap else chunk, linear)))"

lemma unat_low20_less: "unat ((v :: u32) AND 0x000fffff) < 0x100000"
proof -
  have "(v AND 0x000fffff) \<le> (0x000fffff :: u32)" by (rule word_and_le1)
  then have "unat (v AND 0x000fffff) \<le> unat (0x000fffff :: u32)"
    by (simp add: word_le_nat_alt)
  then show ?thesis by simp
qed

lemma far_transfer_chunk_pos:
  assumes "0 < remaining"
  shows "0 < fst (far_transfer_chunk a20 segment offset remaining)"
  using assms unat_u16_less [of offset]
    unat_low20_less [of "push_bit 4 (ucast segment) + ucast offset"]
  by (auto simp: far_transfer_chunk_def Let_def dos_far_to_linear_def DOS_A20_WRAP_ADDRESS_def)

lemma far_transfer_chunk_le: "fst (far_transfer_chunk a20 segment offset remaining) \<le> remaining"
  by (simp add: far_transfer_chunk_def Let_def)

text \<open>The three loops run over what is left of the transfer, \<open>count - completed\<close>.\<close>

function validate_far_loop :: "'b dos_machine \<Rightarrow> u16 \<Rightarrow> u16 \<Rightarrow> nat \<Rightarrow> dos_machine_status" where
  "validate_far_loop m segment offset remaining =
     (if remaining = 0 then DOS_MACHINE_OK
      else (let (chunk, linear) = far_transfer_chunk (a20_enabled m) segment offset remaining
            in if chunk = 0 \<or> \<not> guest_range_is_valid m linear chunk
               then DOS_MACHINE_ADDRESS_FAULT
               else validate_far_loop m segment (offset + of_nat chunk) (remaining - chunk)))"
  by pat_completeness auto
termination
  by (relation "measure (\<lambda>(m, segment, offset, remaining). remaining)") auto

definition dos_machine_validate_far ::
  "'b dos_machine option \<Rightarrow> u16 \<Rightarrow> u16 \<Rightarrow> nat \<Rightarrow> dos_machine_status" where
  "dos_machine_validate_far machine segment offset count =
     (case machine of
        None \<Rightarrow> DOS_MACHINE_INVALID_ARGUMENT
      | Some m \<Rightarrow>
          if address_limit m = 0 \<or> address_limit m > DOS_GUEST_32_ADDRESS_LIMIT
          then DOS_MACHINE_INVALID_ARGUMENT
          else if machine_ready machine \<noteq> DOS_MACHINE_OK then machine_ready machine
          else validate_far_loop m segment offset count)"

function read_far_loop ::
  "'b dos_machine \<Rightarrow> 'b \<Rightarrow> u16 \<Rightarrow> u16 \<Rightarrow> nat \<Rightarrow> nat \<Rightarrow> bytes \<Rightarrow> dos_machine_status \<times> bytes" where
  "read_far_loop m b segment offset capacity remaining acc =
     (if remaining = 0 then (DOS_MACHINE_OK, acc)
      else (let (chunk, linear) = far_transfer_chunk (a20_enabled m) segment offset remaining;
                (status, data) = dos_machine_read (Some m) b linear (Some capacity) chunk
            in if status \<noteq> DOS_MACHINE_OK then (status, acc)
               else read_far_loop m b segment (offset + of_nat chunk) (capacity - chunk)
                      (remaining - chunk) (acc @ data)))"
  by pat_completeness auto
termination
proof (relation "measure (\<lambda>(m, b, segment, offset, capacity, remaining, acc). remaining)", goal_cases)
  case (2 m b segment offset capacity remaining acc x chunk linear y status data)
  then show ?case using far_transfer_chunk_pos [of remaining "a20_enabled m" segment offset]
    by (cases "far_transfer_chunk (a20_enabled m) segment offset remaining") auto
qed simp

definition dos_machine_read_far ::
  "'b dos_machine option \<Rightarrow> 'b \<Rightarrow> u16 \<Rightarrow> u16 \<Rightarrow> nat option \<Rightarrow> nat \<Rightarrow> dos_machine_status \<times> bytes" where
  "dos_machine_read_far machine b segment offset destination count =
     (case machine of
        None \<Rightarrow> (DOS_MACHINE_INVALID_ARGUMENT, [])
      | Some m \<Rightarrow>
     (case ops m of
        None \<Rightarrow> (DOS_MACHINE_INVALID_ARGUMENT, [])
      | Some t \<Rightarrow>
          if read_memory t = None then (DOS_MACHINE_INVALID_ARGUMENT, [])
          else if count \<noteq> 0 \<and> (destination = None \<or> count > the destination)
          then (DOS_MACHINE_INVALID_ARGUMENT, [])
          else (let status = dos_machine_validate_far machine segment offset count
                in if status \<noteq> DOS_MACHINE_OK then (status, [])
                   else read_far_loop m b segment offset
                          (case destination of None \<Rightarrow> 0 | Some c \<Rightarrow> c) count [])))"

function write_far_loop ::
  "'b dos_machine \<Rightarrow> 'b \<Rightarrow> u16 \<Rightarrow> u16 \<Rightarrow> bytes \<Rightarrow> nat \<Rightarrow> dos_machine_status \<times> 'b" where
  "write_far_loop m b segment offset input remaining =
     (if remaining = 0 then (DOS_MACHINE_OK, b)
      else (let (chunk, linear) = far_transfer_chunk (a20_enabled m) segment offset remaining;
                (status, b') = dos_machine_write (Some m) b linear (Some input) chunk
            in if status \<noteq> DOS_MACHINE_OK then (status, b')
               else write_far_loop m b' segment (offset + of_nat chunk) (drop chunk input)
                      (remaining - chunk)))"
  by pat_completeness auto
termination
proof (relation "measure (\<lambda>(m, b, segment, offset, input, remaining). remaining)", goal_cases)
  case (2 m b segment offset input remaining x chunk linear y status b')
  then show ?case using far_transfer_chunk_pos [of remaining "a20_enabled m" segment offset]
    by (cases "far_transfer_chunk (a20_enabled m) segment offset remaining") auto
qed simp

definition dos_machine_write_far ::
  "'b dos_machine option \<Rightarrow> 'b \<Rightarrow> u16 \<Rightarrow> u16 \<Rightarrow> bytes option \<Rightarrow> nat \<Rightarrow> dos_machine_status \<times> 'b" where
  "dos_machine_write_far machine b segment offset source count =
     (case machine of
        None \<Rightarrow> (DOS_MACHINE_INVALID_ARGUMENT, b)
      | Some m \<Rightarrow>
     (case ops m of
        None \<Rightarrow> (DOS_MACHINE_INVALID_ARGUMENT, b)
      | Some t \<Rightarrow>
          if write_memory t = None then (DOS_MACHINE_INVALID_ARGUMENT, b)
          else if count \<noteq> 0 \<and> (source = None \<or> count > length (the source))
          then (DOS_MACHINE_INVALID_ARGUMENT, b)
          else (let status = dos_machine_validate_far machine segment offset count
                in if status \<noteq> DOS_MACHINE_OK then (status, b)
                   else write_far_loop m b segment offset
                          (case source of None \<Rightarrow> [] | Some src \<Rightarrow> src) count)))"

definition dos_machine_replace_far ::
  "'b dos_machine option \<Rightarrow> 'b \<Rightarrow> u16 \<Rightarrow> u16 \<Rightarrow> bytes option \<Rightarrow> nat option \<Rightarrow> bool \<Rightarrow> nat
     \<Rightarrow> dos_machine_status \<times> 'b" where
  "dos_machine_replace_far machine b segment offset source rollback overlap count =
     (if count = 0 then (DOS_MACHINE_OK, b)
      else (case (source, rollback) of
        (Some src, Some capacity) \<Rightarrow>
          if count > length src \<or> count > capacity \<or> overlap
          then (DOS_MACHINE_INVALID_ARGUMENT, b)
          else (let (status, saved) = dos_machine_read_far machine b segment offset (Some capacity) count
                in if status \<noteq> DOS_MACHINE_OK then (status, b)
                   else (let (status, b1) = dos_machine_write_far machine b segment offset (Some src) count
                         in if status = DOS_MACHINE_OK then (DOS_MACHINE_OK, b1)
                            else (let (undo, b2) =
                                    dos_machine_write_far machine b1 segment offset (Some saved) count
                                  in if undo \<noteq> DOS_MACHINE_OK
                                     then (DOS_MACHINE_ROLLBACK_FAILED, b2)
                                     else (status, b2))))
      | _ \<Rightarrow> (DOS_MACHINE_INVALID_ARGUMENT, b)))"

declare validate_far_loop.simps [simp del] read_far_loop.simps [simp del] write_far_loop.simps [simp del]

section \<open>Port and A20 mediation\<close>

text \<open>The value pointer of \<open>dos_machine_read_port\<close> is never NULL here; the value is returned.\<close>

definition dos_machine_read_port ::
  "'b dos_machine option \<Rightarrow> 'b \<Rightarrow> u16 \<Rightarrow> nat \<Rightarrow> dos_machine_status \<times> u32 option \<times> 'b" where
  "dos_machine_read_port machine b port width =
     (case machine of
        None \<Rightarrow> (DOS_MACHINE_INVALID_ARGUMENT, None, b)
      | Some m \<Rightarrow>
     (case ops m of
        None \<Rightarrow> (DOS_MACHINE_INVALID_ARGUMENT, None, b)
      | Some t \<Rightarrow>
     (case read_port t of
        None \<Rightarrow> (DOS_MACHINE_INVALID_ARGUMENT, None, b)
      | Some rd \<Rightarrow>
          if \<not> io_width_is_valid width then (DOS_MACHINE_INVALID_ARGUMENT, None, b)
          else if machine_ready machine \<noteq> DOS_MACHINE_OK then (machine_ready machine, None, b)
          else (let (raw, candidate, b') = rd b (context_handle m) port width;
                    status = normalize_callback_status raw
                in if status \<noteq> DOS_MACHINE_OK then (status, None, b')
                   else if \<not> port_value_fits width candidate then (DOS_MACHINE_IO_FAULT, None, b')
                   else (DOS_MACHINE_OK, Some candidate, b')))))"

definition dos_machine_write_port ::
  "'b dos_machine option \<Rightarrow> 'b \<Rightarrow> u16 \<Rightarrow> nat \<Rightarrow> u32 \<Rightarrow> dos_machine_status \<times> 'b" where
  "dos_machine_write_port machine b port width v =
     (case machine of
        None \<Rightarrow> (DOS_MACHINE_INVALID_ARGUMENT, b)
      | Some m \<Rightarrow>
     (case ops m of
        None \<Rightarrow> (DOS_MACHINE_INVALID_ARGUMENT, b)
      | Some t \<Rightarrow>
     (case write_port t of
        None \<Rightarrow> (DOS_MACHINE_INVALID_ARGUMENT, b)
      | Some wr \<Rightarrow>
          if \<not> io_width_is_valid width then (DOS_MACHINE_INVALID_ARGUMENT, b)
          else if machine_ready machine \<noteq> DOS_MACHINE_OK then (machine_ready machine, b)
          else if width = 1 \<and> v > 0xff then (DOS_MACHINE_INVALID_ARGUMENT, b)
          else if width = 2 \<and> v > 0xffff then (DOS_MACHINE_INVALID_ARGUMENT, b)
          else (let (raw, b') = wr b (context_handle m) port width v
                in (normalize_callback_status raw, b')))))"

definition dos_machine_set_a20 ::
  "'b dos_machine \<Rightarrow> 'b \<Rightarrow> bool \<Rightarrow> dos_machine_status \<times> 'b dos_machine \<times> 'b" where
  "dos_machine_set_a20 m b enabled =
     (case ops m of
        None \<Rightarrow> (DOS_MACHINE_INVALID_ARGUMENT, m, b)
      | Some t \<Rightarrow>
     (case (set_a20 t, query_a20 t) of
        (Some setter, Some _) \<Rightarrow>
          if machine_ready (Some m) \<noteq> DOS_MACHINE_OK then (machine_ready (Some m), m, b)
          else (let stopped = m\<lparr>poisoned := 1\<rparr>;
                    (raw, b') = setter b (context_handle m) enabled;
                    set_status = normalize_callback_status raw;
                    (query_status, observed) = query_a20_backend t (context_handle m) b'
                in (case observed of
                      None \<Rightarrow> (if set_status \<noteq> DOS_MACHINE_OK then set_status else query_status,
                               stopped, b')
                    | Some actual \<Rightarrow>
                        (if actual = enabled then DOS_MACHINE_OK else DOS_MACHINE_IO_FAULT,
                         m\<lparr>a20_enabled := actual, poisoned := 0\<rparr>, b')))
      | _ \<Rightarrow> (DOS_MACHINE_INVALID_ARGUMENT, m, b)))"

definition dos_machine_query_a20 ::
  "'b dos_machine \<Rightarrow> 'b \<Rightarrow> dos_machine_status \<times> bool option \<times> 'b dos_machine" where
  "dos_machine_query_a20 m b =
     (case ops m of
        None \<Rightarrow> (DOS_MACHINE_INVALID_ARGUMENT, None, m)
      | Some t \<Rightarrow>
          if machine_ready (Some m) \<noteq> DOS_MACHINE_OK then (machine_ready (Some m), None, m)
          else (case query_a20_backend t (context_handle m) b of
                  (status, None) \<Rightarrow> (status, None, m\<lparr>poisoned := 1\<rparr>)
                | (status, Some observed) \<Rightarrow>
                    (DOS_MACHINE_OK, Some observed, m\<lparr>a20_enabled := observed\<rparr>)))"

end
