(* ===== verification/McbArena.thy ===== *)
theory McbArena
  imports GuestMachine
begin

text \<open>
  The memory control block (MCB) arena: \<open>include/dos_memory.h\<close> and \<open>dos/memory.c\<close>. An MCB is a
  16-byte record at the start of a paragraph of guest memory: a signature byte, the owner, the size
  of the block behind it in paragraphs, three unused bytes and an 8-byte owner name. The arena object
  is the kernel's own bookkeeping. Every operation takes the arena, the machine and the backend state
  and returns its status with the new arena and backend state; a value that the source stores through
  an output pointer is part of the result. The arena, machine and output pointers that callers pass
  are addresses of objects, so the NULL tests on them have no counterpart here. The walks are
  bounded by \<open>MCB_MAXIMUM_WALK\<close> in the source, and by the same number here.
\<close>

section \<open>Data model\<close>

datatype dos_memory_status =
    DOS_MEMORY_OK
  | DOS_MEMORY_INVALID_ARGUMENT
  | DOS_MEMORY_INVALID_BLOCK
  | DOS_MEMORY_NOT_ENOUGH_MEMORY
  | DOS_MEMORY_ARENA_DAMAGED
  | DOS_MEMORY_MACHINE_FAULT
  | DOS_MEMORY_MACHINE_POISONED
  | DOS_MEMORY_OWNER_MISMATCH
  | DOS_MEMORY_IDENTITY_MISMATCH
  | DOS_MEMORY_GENERATION_EXHAUSTED

type_synonym mcb_record = bytes

record dos_memory_arena =
  generation :: u64
  identity :: u64
  head_segment :: u16
  strategy :: u8
  initialized :: u8
  machine_poisoned :: u8
  constructed :: u8
  arena_reserved :: bytes

record allocation_candidates =
  cand_found :: bool
  cand_first :: u16
  cand_best :: u16
  cand_best_size :: u16
  cand_last :: u16
  cand_maximum :: u16

record dos_memory_owner_identity =
  psp_segment :: u16
  owner_name :: bytes

record dos_memory_owner_name_patch =
  patch_bytes :: bytes
  patch_count :: u8
  patch_reserved :: bytes

record dos_memory_owner_rebind_value =
  rebind_header :: u16
  rebind_expected :: u16
  rebind_new :: u16
  rebind_reserved :: bytes
  rebind_bytes :: bytes

definition MCB_SIGNATURE_NORMAL :: u8 where "MCB_SIGNATURE_NORMAL = 0x4d"
definition MCB_SIGNATURE_END :: u8 where "MCB_SIGNATURE_END = 0x5a"
definition MCB_OWNER_FREE :: u16 where "MCB_OWNER_FREE = 0"
definition MCB_MAXIMUM_WALK :: nat where "MCB_MAXIMUM_WALK = 65536"
definition MCB_BYTES :: nat where "MCB_BYTES = 16"
definition DOS_MEMORY_GENERATION_MAX :: u64 where "DOS_MEMORY_GENERATION_MAX = - 1"

section \<open>Record accessors\<close>

definition mcb_signature :: "mcb_record \<Rightarrow> u8" where
  "mcb_signature r = r ! 0"

definition mcb_owner :: "mcb_record \<Rightarrow> u16" where
  "mcb_owner r = read_le16 (drop 1 r)"

definition mcb_size :: "mcb_record \<Rightarrow> u16" where
  "mcb_size r = read_le16 (drop 3 r)"

definition mcb_set_signature :: "mcb_record \<Rightarrow> u8 \<Rightarrow> mcb_record" where
  "mcb_set_signature r signature = r[0 := signature]"

definition mcb_set_owner :: "mcb_record \<Rightarrow> u16 \<Rightarrow> mcb_record" where
  "mcb_set_owner r owner = write_le16 r 1 owner"

definition mcb_set_size :: "mcb_record \<Rightarrow> u16 \<Rightarrow> mcb_record" where
  "mcb_set_size r paragraphs = write_le16 r 3 paragraphs"

definition mcb_patch_owner_name :: "mcb_record \<Rightarrow> bytes \<Rightarrow> nat \<Rightarrow> mcb_record" where
  "mcb_patch_owner_name r name count = fold (\<lambda>index acc. acc[8 + index := name ! index]) [0..<count] r"

definition mcb_set_owner_name :: "mcb_record \<Rightarrow> bytes \<Rightarrow> mcb_record" where
  "mcb_set_owner_name r name = mcb_patch_owner_name r name 8"

definition owner_name_patch_is_valid :: "dos_memory_owner_name_patch \<Rightarrow> bool" where
  "owner_name_patch_is_valid p \<longleftrightarrow>
     \<not> (patch_count p = 0 \<or> patch_count p > 8) \<and> (\<forall>x \<in> set (patch_reserved p). x = 0)"

definition mcb_signature_is_valid :: "mcb_record \<Rightarrow> bool" where
  "mcb_signature_is_valid r \<longleftrightarrow>
     mcb_signature r = MCB_SIGNATURE_NORMAL \<or> mcb_signature r = MCB_SIGNATURE_END"

definition mcb_extent_is_valid :: "u16 \<Rightarrow> mcb_record \<Rightarrow> bool" where
  "mcb_extent_is_valid segment r \<longleftrightarrow> unat (mcb_size r) \<le> 0xffff - unat segment"

section \<open>Arena validity\<close>

definition arena_identity_is_valid :: "u64 \<Rightarrow> bool" where
  "arena_identity_is_valid h \<longleftrightarrow> h \<noteq> 0 \<and> h \<noteq> KERNEL_OBJECT_HANDLE_INVALID"

definition arena_flags_have_valid_encoding :: "dos_memory_arena \<Rightarrow> bool" where
  "arena_flags_have_valid_encoding arena \<longleftrightarrow>
     initialized arena \<le> 1 \<and> machine_poisoned arena \<le> 1 \<and> constructed arena = 1 \<and>
     arena_reserved arena ! 0 = 0 \<and> arena_reserved arena ! 1 = 0"

definition arena_is_ready :: "dos_memory_arena \<Rightarrow> dos_memory_status" where
  "arena_is_ready arena =
     (if \<not> arena_flags_have_valid_encoding arena then DOS_MEMORY_INVALID_ARGUMENT
      else if \<not> arena_identity_is_valid (identity arena) \<or> generation arena = 0
      then DOS_MEMORY_INVALID_ARGUMENT
      else if machine_poisoned arena = 1 then DOS_MEMORY_MACHINE_POISONED
      else if initialized arena \<noteq> 1 then DOS_MEMORY_INVALID_ARGUMENT
      else DOS_MEMORY_OK)"

definition DOS_MEMORY_ARENA_INITIALIZER :: "u64 \<Rightarrow> dos_memory_arena" where
  "DOS_MEMORY_ARENA_INITIALIZER h =
     \<lparr>generation = 0, identity = h, head_segment = 0, strategy = 0, initialized = 0,
      machine_poisoned = 0, constructed = 1, arena_reserved = [0, 0]\<rparr>"

definition dos_memory_arena_construct ::
  "dos_memory_arena \<Rightarrow> u64 \<Rightarrow> dos_memory_status \<times> dos_memory_arena" where
  "dos_memory_arena_construct arena h =
     (if \<not> arena_identity_is_valid h then (DOS_MEMORY_INVALID_ARGUMENT, arena)
      else (DOS_MEMORY_OK, DOS_MEMORY_ARENA_INITIALIZER h))"

section \<open>Reading and replacing one record\<close>

text \<open>A step that either fails with a status or yields a value is a sum, \<open>Inl\<close> the status.\<close>

definition read_record_bytes :: "'b dos_machine \<Rightarrow> 'b \<Rightarrow> u16 \<Rightarrow> dos_memory_status + mcb_record" where
  "read_record_bytes m b segment =
     (let (status, r) = dos_machine_read_far (Some m) b segment 0 (Some MCB_BYTES) MCB_BYTES
      in if status = DOS_MACHINE_OK then Inr r else Inl DOS_MEMORY_MACHINE_FAULT)"

definition read_mcb :: "'b dos_machine \<Rightarrow> 'b \<Rightarrow> u16 \<Rightarrow> dos_memory_status + mcb_record" where
  "read_mcb m b segment =
     (case read_record_bytes m b segment of
        Inl status \<Rightarrow> Inl status
      | Inr r \<Rightarrow> if mcb_signature_is_valid r \<and> mcb_extent_is_valid segment r then Inr r
                 else Inl DOS_MEMORY_ARENA_DAMAGED)"

text \<open>The record and the rollback space are two distinct local objects, so they do not overlap.\<close>

definition replace_record_bytes ::
  "dos_memory_arena \<Rightarrow> 'b dos_machine \<Rightarrow> 'b \<Rightarrow> u16 \<Rightarrow> mcb_record
     \<Rightarrow> dos_memory_status \<times> dos_memory_arena \<times> 'b" where
  "replace_record_bytes arena m b segment r =
     (let (status, b') = dos_machine_replace (Some m) b
            (dos_far_to_linear segment 0 (a20_enabled m)) (Some r) (Some MCB_BYTES) False MCB_BYTES
      in if status = DOS_MACHINE_OK then (DOS_MEMORY_OK, arena, b')
         else if status = DOS_MACHINE_ROLLBACK_FAILED
         then (DOS_MEMORY_MACHINE_POISONED, arena\<lparr>machine_poisoned := 1\<rparr>, b')
         else (DOS_MEMORY_MACHINE_FAULT, arena, b'))"

definition next_mcb_segment :: "u16 \<Rightarrow> mcb_record \<Rightarrow> dos_memory_status + u16" where
  "next_mcb_segment segment r =
     (let v = unat segment + unat (mcb_size r) + 1
      in if v > 0xffff \<or> v \<le> unat segment then Inl DOS_MEMORY_ARENA_DAMAGED
         else Inr (of_nat v))"

definition commit_split ::
  "dos_memory_arena \<Rightarrow> 'b dos_machine \<Rightarrow> 'b \<Rightarrow> u16 \<Rightarrow> mcb_record \<Rightarrow> u16 \<Rightarrow> mcb_record \<Rightarrow> mcb_record
     \<Rightarrow> dos_memory_status \<times> dos_memory_arena \<times> 'b" where
  "commit_split arena m b current_segment current_after split_segment split_before split_after =
     (let (publish, arena1, b1) = replace_record_bytes arena m b split_segment split_after
      in if publish \<noteq> DOS_MEMORY_OK then (publish, arena1, b1)
         else (let (publish, arena2, b2) =
                     replace_record_bytes arena1 m b1 current_segment current_after
               in if publish = DOS_MEMORY_OK then (DOS_MEMORY_OK, arena2, b2)
                  else (let (unwind, arena3, b3) =
                              replace_record_bytes arena2 m b2 split_segment split_before
                        in if publish = DOS_MEMORY_MACHINE_POISONED \<or> unwind \<noteq> DOS_MEMORY_OK
                           then (DOS_MEMORY_MACHINE_POISONED, arena3\<lparr>machine_poisoned := 1\<rparr>, b3)
                           else (publish, arena3, b3))))"

section \<open>Forward coalescing\<close>

fun coalesce_loop ::
  "nat \<Rightarrow> dos_memory_arena \<Rightarrow> 'b dos_machine \<Rightarrow> 'b \<Rightarrow> u16 \<Rightarrow> mcb_record
     \<Rightarrow> dos_memory_status \<times> dos_memory_arena \<times> 'b \<times> mcb_record" where
  "coalesce_loop steps arena m b segment r =
     (if mcb_signature r = MCB_SIGNATURE_END then (DOS_MEMORY_OK, arena, b, r)
      else (case steps of
              0 \<Rightarrow> (DOS_MEMORY_ARENA_DAMAGED, arena, b, r)
            | Suc steps' \<Rightarrow>
     (case next_mcb_segment segment r of
        Inl status \<Rightarrow> (status, arena, b, r)
      | Inr following_segment \<Rightarrow>
     (case read_mcb m b following_segment of
        Inl status \<Rightarrow> (status, arena, b, r)
      | Inr following \<Rightarrow>
          if mcb_owner following \<noteq> MCB_OWNER_FREE then (DOS_MEMORY_OK, arena, b, r)
          else (let combined = unat (mcb_size r) + unat (mcb_size following) + 1
                in if combined > 0xffff then (DOS_MEMORY_ARENA_DAMAGED, arena, b, r)
                   else (let r' = mcb_set_signature (mcb_set_size r (of_nat combined))
                                    (mcb_signature following);
                             (status, arena', b') = replace_record_bytes arena m b segment r'
                         in if status \<noteq> DOS_MEMORY_OK then (status, arena', b', r')
                            else coalesce_loop steps' arena' m b' segment r'))))))"

declare coalesce_loop.simps [simp del]

definition coalesce_forward ::
  "dos_memory_arena \<Rightarrow> 'b dos_machine \<Rightarrow> 'b \<Rightarrow> u16 \<Rightarrow> mcb_record
     \<Rightarrow> dos_memory_status \<times> dos_memory_arena \<times> 'b \<times> mcb_record" where
  "coalesce_forward = coalesce_loop MCB_MAXIMUM_WALK"

section \<open>Initialisation, validation and poisoning\<close>

definition dos_memory_arena_initialize_checked ::
  "dos_memory_arena \<Rightarrow> 'b dos_machine \<Rightarrow> 'b \<Rightarrow> u16 \<Rightarrow> u16
     \<Rightarrow> dos_memory_status \<times> dos_memory_arena \<times> 'b" where
  "dos_memory_arena_initialize_checked arena m b head end_segment =
     (if \<not> arena_flags_have_valid_encoding arena \<or> \<not> arena_identity_is_valid (identity arena) \<or>
         end_segment \<le> head
      then (DOS_MEMORY_INVALID_ARGUMENT, arena, b)
      else if machine_poisoned arena = 1 then (DOS_MEMORY_MACHINE_POISONED, arena, b)
      else if generation arena = DOS_MEMORY_GENERATION_MAX
      then (DOS_MEMORY_GENERATION_EXHAUSTED, arena, b)
      else (let paragraphs = unat end_segment - unat head - 1
            in if paragraphs > 0xffff then (DOS_MEMORY_INVALID_ARGUMENT, arena, b)
               else (let r = mcb_set_size (mcb_set_owner (mcb_set_signature (replicate MCB_BYTES 0)
                               MCB_SIGNATURE_END) MCB_OWNER_FREE) (of_nat paragraphs);
                         (status, arena', b') = replace_record_bytes arena m b head r
                     in if status \<noteq> DOS_MEMORY_OK then (status, arena', b')
                        else (DOS_MEMORY_OK,
                              arena'\<lparr>generation := generation arena' + 1, head_segment := head,
                                     strategy := 0, initialized := 1, machine_poisoned := 0,
                                     constructed := 1\<rparr>, b'))))"

fun validate_loop :: "nat \<Rightarrow> 'b dos_machine \<Rightarrow> 'b \<Rightarrow> u16 \<Rightarrow> dos_memory_status" where
  "validate_loop 0 m b segment = DOS_MEMORY_ARENA_DAMAGED"
| "validate_loop (Suc steps) m b segment =
     (case read_mcb m b segment of
        Inl status \<Rightarrow> status
      | Inr r \<Rightarrow>
          if mcb_signature r = MCB_SIGNATURE_END then DOS_MEMORY_OK
          else (case next_mcb_segment segment r of
                  Inl status \<Rightarrow> status
                | Inr following \<Rightarrow> validate_loop steps m b following))"

definition dos_memory_arena_validate_checked ::
  "dos_memory_arena \<Rightarrow> 'b dos_machine \<Rightarrow> 'b \<Rightarrow> dos_memory_status" where
  "dos_memory_arena_validate_checked arena m b =
     (if arena_is_ready arena \<noteq> DOS_MEMORY_OK then arena_is_ready arena
      else validate_loop MCB_MAXIMUM_WALK m b (head_segment arena))"

definition dos_memory_arena_poison :: "dos_memory_arena \<Rightarrow> dos_memory_status \<times> dos_memory_arena" where
  "dos_memory_arena_poison arena =
     (if \<not> arena_flags_have_valid_encoding arena \<or> initialized arena \<noteq> 1 \<or>
         \<not> arena_identity_is_valid (identity arena) \<or> generation arena = 0
      then (DOS_MEMORY_INVALID_ARGUMENT, arena)
      else (DOS_MEMORY_OK, arena\<lparr>machine_poisoned := 1\<rparr>))"

section \<open>Allocation\<close>

definition no_candidates :: allocation_candidates where
  "no_candidates = \<lparr>cand_found = False, cand_first = 0, cand_best = 0, cand_best_size = 0,
     cand_last = 0, cand_maximum = 0\<rparr>"

text \<open>The bookkeeping \<open>find_candidates\<close> does for one free block of the given size.\<close>

definition consider_block :: "u16 \<Rightarrow> u16 \<Rightarrow> u16 \<Rightarrow> allocation_candidates \<Rightarrow> allocation_candidates" where
  "consider_block requested segment block_size c =
     (let c = (if block_size > cand_maximum c then c\<lparr>cand_maximum := block_size\<rparr> else c)
      in if block_size \<ge> requested then
           (let c = (if \<not> cand_found c
                     then c\<lparr>cand_first := segment, cand_best := segment, cand_best_size := block_size,
                            cand_found := True\<rparr>
                     else if block_size < cand_best_size c
                     then c\<lparr>cand_best := segment, cand_best_size := block_size\<rparr> else c)
            in c\<lparr>cand_last := segment\<rparr>)
         else c)"

fun find_loop ::
  "nat \<Rightarrow> dos_memory_arena \<Rightarrow> 'b dos_machine \<Rightarrow> 'b \<Rightarrow> u16 \<Rightarrow> u16 \<Rightarrow> allocation_candidates
     \<Rightarrow> dos_memory_status \<times> dos_memory_arena \<times> 'b \<times> allocation_candidates" where
  "find_loop 0 arena m b requested segment c = (DOS_MEMORY_ARENA_DAMAGED, arena, b, c)"
| "find_loop (Suc steps) arena m b requested segment c =
     (case read_mcb m b segment of
        Inl status \<Rightarrow> (status, arena, b, c)
      | Inr r \<Rightarrow>
          (let (status, arena', b', r', c') =
             (if mcb_owner r = MCB_OWNER_FREE then
                (let (status, arena', b', r') = coalesce_forward arena m b segment r
                 in (status, arena', b', r',
                     if status = DOS_MEMORY_OK then consider_block requested segment (mcb_size r') c
                     else c))
              else (DOS_MEMORY_OK, arena, b, r, c))
           in if status \<noteq> DOS_MEMORY_OK then (status, arena', b', c')
              else if mcb_signature r' = MCB_SIGNATURE_END then (DOS_MEMORY_OK, arena', b', c')
              else (case next_mcb_segment segment r' of
                      Inl status \<Rightarrow> (status, arena', b', c')
                    | Inr following \<Rightarrow> find_loop steps arena' m b' requested following c')))"

definition find_candidates ::
  "dos_memory_arena \<Rightarrow> 'b dos_machine \<Rightarrow> 'b \<Rightarrow> u16
     \<Rightarrow> dos_memory_status \<times> dos_memory_arena \<times> 'b \<times> allocation_candidates" where
  "find_candidates arena m b requested =
     find_loop MCB_MAXIMUM_WALK arena m b requested (head_segment arena) no_candidates"

definition dos_memory_query_maximum_checked ::
  "dos_memory_arena \<Rightarrow> 'b dos_machine \<Rightarrow> 'b \<Rightarrow> dos_memory_status \<times> dos_memory_arena \<times> 'b \<times> u16 option" where
  "dos_memory_query_maximum_checked arena m b =
     (if arena_is_ready arena \<noteq> DOS_MEMORY_OK then (arena_is_ready arena, arena, b, None)
      else (let (status, arena', b', c) = find_candidates arena m b 0xffff
            in if status \<noteq> DOS_MEMORY_OK then (status, arena', b', None)
               else (DOS_MEMORY_OK, arena', b', Some (cand_maximum c))))"

definition allocate_low ::
  "dos_memory_arena \<Rightarrow> 'b dos_machine \<Rightarrow> 'b \<Rightarrow> u16 \<Rightarrow> u16 \<Rightarrow> u16 \<Rightarrow> bytes option
     \<Rightarrow> dos_memory_status \<times> dos_memory_arena \<times> 'b \<times> u16 option" where
  "allocate_low arena m b segment requested owner name =
     (case read_mcb m b segment of
        Inl status \<Rightarrow> (status, arena, b, None)
      | Inr before \<Rightarrow>
          (let original = mcb_size before
           in if requested > original then (DOS_MEMORY_ARENA_DAMAGED, arena, b, None)
              else (let after = (case name of None \<Rightarrow> mcb_set_owner before owner
                                 | Some nm \<Rightarrow> mcb_set_owner_name (mcb_set_owner before owner) nm)
                    in if requested < original then
                         (let remainder = unat segment + unat requested + 1
                          in if remainder > 0xffff then (DOS_MEMORY_ARENA_DAMAGED, arena, b, None)
                             else (case read_record_bytes m b (of_nat remainder) of
                                     Inl status \<Rightarrow> (status, arena, b, None)
                                   | Inr remainder_before \<Rightarrow>
                                       (let remainder_after =
                                              mcb_set_size (mcb_set_owner (mcb_set_signature
                                                remainder_before (mcb_signature before))
                                                MCB_OWNER_FREE) (original - requested - 1);
                                            after = mcb_set_size (mcb_set_signature after
                                                MCB_SIGNATURE_NORMAL) requested;
                                            (status, arena', b') = commit_split arena m b segment after
                                                (of_nat remainder) remainder_before remainder_after
                                        in (status, arena', b',
                                            if status = DOS_MEMORY_OK then Some (segment + 1) else None))))
                       else (let (status, arena', b') = replace_record_bytes arena m b segment after
                             in (status, arena', b',
                                 if status = DOS_MEMORY_OK then Some (segment + 1) else None)))))"

definition allocate_high ::
  "dos_memory_arena \<Rightarrow> 'b dos_machine \<Rightarrow> 'b \<Rightarrow> u16 \<Rightarrow> u16 \<Rightarrow> u16 \<Rightarrow> bytes option
     \<Rightarrow> dos_memory_status \<times> dos_memory_arena \<times> 'b \<times> u16 option" where
  "allocate_high arena m b segment requested owner name =
     (case read_mcb m b segment of
        Inl status \<Rightarrow> (status, arena, b, None)
      | Inr lower_before \<Rightarrow>
          (let original = mcb_size lower_before
           in if requested > original then (DOS_MEMORY_ARENA_DAMAGED, arena, b, None)
              else if requested = original
              then allocate_low arena m b segment requested owner name
              else (let difference = original - requested;
                        upper = unat segment + unat difference
                    in if upper > 0xffff then (DOS_MEMORY_ARENA_DAMAGED, arena, b, None)
                       else (case read_record_bytes m b (of_nat upper) of
                               Inl status \<Rightarrow> (status, arena, b, None)
                             | Inr upper_before \<Rightarrow>
                                 (let upper_after = mcb_set_owner (mcb_set_size (mcb_set_signature
                                          upper_before (mcb_signature lower_before)) requested) owner;
                                      upper_after = (case name of None \<Rightarrow> upper_after
                                          | Some nm \<Rightarrow> mcb_set_owner_name upper_after nm);
                                      lower_after = mcb_set_owner (mcb_set_size (mcb_set_signature
                                          lower_before MCB_SIGNATURE_NORMAL) (difference - 1))
                                          MCB_OWNER_FREE;
                                      (status, arena', b') = commit_split arena m b segment lower_after
                                          (of_nat upper) upper_before upper_after
                                  in (status, arena', b',
                                      if status = DOS_MEMORY_OK then Some (of_nat upper + 1)
                                      else None))))))"

text \<open>The result of an allocation: the status, the block segment (zero unless the status is OK)
  and the largest free block.\<close>

definition allocate_checked_common ::
  "dos_memory_arena \<Rightarrow> 'b dos_machine \<Rightarrow> 'b \<Rightarrow> u16 \<Rightarrow> bytes option \<Rightarrow> u16
     \<Rightarrow> dos_memory_status \<times> dos_memory_arena \<times> 'b \<times> u16 \<times> u16" where
  "allocate_checked_common arena m b owner name paragraphs =
     (if arena_is_ready arena \<noteq> DOS_MEMORY_OK then (arena_is_ready arena, arena, b, 0, 0)
      else (let (status, arena1, b1, c) = find_candidates arena m b paragraphs
            in if status \<noteq> DOS_MEMORY_OK then (status, arena1, b1, 0, 0)
               else if \<not> cand_found c
               then (DOS_MEMORY_NOT_ENOUGH_MEMORY, arena1, b1, 0, cand_maximum c)
               else (let selected = (if strategy arena1 = 0 then cand_first c
                                     else if strategy arena1 = 1 then cand_best c
                                     else cand_last c);
                         (status, arena2, b2, block) =
                           (if strategy arena1 > 1
                            then allocate_high arena1 m b1 selected paragraphs owner name
                            else allocate_low arena1 m b1 selected paragraphs owner name)
                     in (status, arena2, b2,
                         case block of None \<Rightarrow> 0 | Some s \<Rightarrow> s, cand_maximum c))))"

definition dos_memory_allocate_checked ::
  "dos_memory_arena \<Rightarrow> 'b dos_machine \<Rightarrow> 'b \<Rightarrow> u16 \<Rightarrow> u16
     \<Rightarrow> dos_memory_status \<times> dos_memory_arena \<times> 'b \<times> u16 \<times> u16" where
  "dos_memory_allocate_checked arena m b owner_psp paragraphs =
     allocate_checked_common arena m b owner_psp None paragraphs"

definition dos_memory_allocate_named_checked ::
  "dos_memory_arena \<Rightarrow> 'b dos_machine \<Rightarrow> 'b \<Rightarrow> dos_memory_owner_identity \<Rightarrow> u16
     \<Rightarrow> dos_memory_status \<times> dos_memory_arena \<times> 'b \<times> u16 \<times> u16" where
  "dos_memory_allocate_named_checked arena m b owner paragraphs =
     (if psp_segment owner = MCB_OWNER_FREE then (DOS_MEMORY_INVALID_ARGUMENT, arena, b, 0, 0)
      else allocate_checked_common arena m b (psp_segment owner) (Some (owner_name owner)) paragraphs)"

section \<open>Freeing\<close>

fun locate_loop :: "nat \<Rightarrow> 'b dos_machine \<Rightarrow> 'b \<Rightarrow> u16 \<Rightarrow> u16 \<Rightarrow> dos_memory_status + mcb_record" where
  "locate_loop 0 m b wanted segment = Inl DOS_MEMORY_ARENA_DAMAGED"
| "locate_loop (Suc steps) m b wanted segment =
     (case read_mcb m b segment of
        Inl status \<Rightarrow> Inl status
      | Inr r \<Rightarrow>
          if segment = wanted then Inr r
          else if wanted < segment \<or> mcb_signature r = MCB_SIGNATURE_END
          then Inl DOS_MEMORY_INVALID_BLOCK
          else (case next_mcb_segment segment r of
                  Inl status \<Rightarrow> Inl status
                | Inr following \<Rightarrow> locate_loop steps m b wanted following))"

definition locate_mcb ::
  "dos_memory_arena \<Rightarrow> 'b dos_machine \<Rightarrow> 'b \<Rightarrow> u16 \<Rightarrow> dos_memory_status + mcb_record" where
  "locate_mcb arena m b wanted = locate_loop MCB_MAXIMUM_WALK m b wanted (head_segment arena)"

definition free_checked_common ::
  "dos_memory_arena \<Rightarrow> 'b dos_machine \<Rightarrow> 'b \<Rightarrow> u16 \<Rightarrow> bool \<Rightarrow> u16
     \<Rightarrow> dos_memory_status \<times> dos_memory_arena \<times> 'b" where
  "free_checked_common arena m b block_segment verify_owner expected_owner =
     (if arena_is_ready arena \<noteq> DOS_MEMORY_OK then (arena_is_ready arena, arena, b)
      else if verify_owner \<and> expected_owner = MCB_OWNER_FREE
      then (DOS_MEMORY_INVALID_ARGUMENT, arena, b)
      else (let header = block_segment - 1;
                found = (if verify_owner then locate_mcb arena m b header
                         else (case read_record_bytes m b header of
                                 Inl status \<Rightarrow> Inl status
                               | Inr r \<Rightarrow> if \<not> mcb_signature_is_valid r
                                          then Inl DOS_MEMORY_INVALID_BLOCK else Inr r))
            in (case found of
                  Inl status \<Rightarrow> (status, arena, b)
                | Inr r \<Rightarrow>
                    if verify_owner \<and> mcb_owner r \<noteq> expected_owner
                    then (DOS_MEMORY_OWNER_MISMATCH, arena, b)
                    else replace_record_bytes arena m b header (mcb_set_owner r MCB_OWNER_FREE))))"

definition dos_memory_free_checked ::
  "dos_memory_arena \<Rightarrow> 'b dos_machine \<Rightarrow> 'b \<Rightarrow> u16 \<Rightarrow> dos_memory_status \<times> dos_memory_arena \<times> 'b" where
  "dos_memory_free_checked arena m b block_segment =
     free_checked_common arena m b block_segment False 0"

definition dos_memory_free_owned_checked ::
  "dos_memory_arena \<Rightarrow> 'b dos_machine \<Rightarrow> 'b \<Rightarrow> u16 \<Rightarrow> u16 \<Rightarrow> dos_memory_status \<times> dos_memory_arena \<times> 'b" where
  "dos_memory_free_owned_checked arena m b block_segment expected_owner =
     free_checked_common arena m b block_segment True expected_owner"

section \<open>Ownership transfer\<close>

definition dos_memory_owner_rebind_value_has_valid_encoding ::
  "dos_memory_owner_rebind_value \<Rightarrow> bool" where
  "dos_memory_owner_rebind_value_has_valid_encoding v \<longleftrightarrow>
     \<not> (rebind_expected v = MCB_OWNER_FREE \<or> rebind_new v = MCB_OWNER_FREE) \<and>
     (\<forall>x \<in> set (rebind_reserved v). x = 0) \<and>
     mcb_signature_is_valid (rebind_bytes v) \<and>
     mcb_extent_is_valid (rebind_header v) (rebind_bytes v) \<and>
     mcb_owner (rebind_bytes v) = rebind_new v"

definition prepare_owner_rebind_checked_common ::
  "dos_memory_arena \<Rightarrow> 'b dos_machine \<Rightarrow> 'b \<Rightarrow> u16 \<Rightarrow> u16 \<Rightarrow> u16 \<Rightarrow> bytes option \<Rightarrow> u8
     \<Rightarrow> dos_memory_status + dos_memory_owner_rebind_value" where
  "prepare_owner_rebind_checked_common arena m b block_segment expected_owner new_owner new_name count =
     (if expected_owner = MCB_OWNER_FREE \<or> new_owner = MCB_OWNER_FREE \<or>
         (new_name = None \<and> count \<noteq> 0) \<or> (new_name \<noteq> None \<and> (count = 0 \<or> count > 8))
      then Inl DOS_MEMORY_INVALID_ARGUMENT
      else if arena_is_ready arena \<noteq> DOS_MEMORY_OK then Inl (arena_is_ready arena)
      else (let header = block_segment - 1
            in (case locate_mcb arena m b header of
                  Inl status \<Rightarrow> Inl status
                | Inr r \<Rightarrow>
                    if mcb_owner r \<noteq> expected_owner then Inl DOS_MEMORY_OWNER_MISMATCH
                    else (let r = mcb_set_owner r new_owner;
                              r = (case new_name of None \<Rightarrow> r
                                   | Some nm \<Rightarrow> mcb_patch_owner_name r nm (unat count));
                              prepared = \<lparr>rebind_header = header, rebind_expected = expected_owner,
                                 rebind_new = new_owner, rebind_reserved = [0, 0], rebind_bytes = r\<rparr>
                          in if \<not> dos_memory_owner_rebind_value_has_valid_encoding prepared
                             then Inl DOS_MEMORY_ARENA_DAMAGED else Inr prepared))))"

definition dos_memory_prepare_owner_rebind_checked ::
  "dos_memory_arena \<Rightarrow> 'b dos_machine \<Rightarrow> 'b \<Rightarrow> u16 \<Rightarrow> u16 \<Rightarrow> u16
     \<Rightarrow> dos_memory_status + dos_memory_owner_rebind_value" where
  "dos_memory_prepare_owner_rebind_checked arena m b block_segment expected_owner new_owner =
     prepare_owner_rebind_checked_common arena m b block_segment expected_owner new_owner None 0"

definition dos_memory_prepare_owner_name_patch_rebind_checked ::
  "dos_memory_arena \<Rightarrow> 'b dos_machine \<Rightarrow> 'b \<Rightarrow> u16 \<Rightarrow> u16 \<Rightarrow> u16 \<Rightarrow> dos_memory_owner_name_patch
     \<Rightarrow> dos_memory_status + dos_memory_owner_rebind_value" where
  "dos_memory_prepare_owner_name_patch_rebind_checked arena m b block_segment expected_owner new_owner p =
     (if \<not> owner_name_patch_is_valid p then Inl DOS_MEMORY_INVALID_ARGUMENT
      else prepare_owner_rebind_checked_common arena m b block_segment expected_owner new_owner
             (Some (patch_bytes p)) (patch_count p))"

definition transfer_owner_checked_common ::
  "dos_memory_arena \<Rightarrow> 'b dos_machine \<Rightarrow> 'b \<Rightarrow> u16 \<Rightarrow> u16 \<Rightarrow> u16 \<Rightarrow> bytes option \<Rightarrow> u8
     \<Rightarrow> dos_memory_status \<times> dos_memory_arena \<times> 'b" where
  "transfer_owner_checked_common arena m b block_segment expected_owner new_owner new_name count =
     (case prepare_owner_rebind_checked_common arena m b block_segment expected_owner new_owner
             new_name count of
        Inl status \<Rightarrow> (status, arena, b)
      | Inr v \<Rightarrow> replace_record_bytes arena m b (rebind_header v) (rebind_bytes v))"

definition dos_memory_transfer_owner_checked ::
  "dos_memory_arena \<Rightarrow> 'b dos_machine \<Rightarrow> 'b \<Rightarrow> u16 \<Rightarrow> u16 \<Rightarrow> u16
     \<Rightarrow> dos_memory_status \<times> dos_memory_arena \<times> 'b" where
  "dos_memory_transfer_owner_checked arena m b block_segment expected_owner new_owner =
     transfer_owner_checked_common arena m b block_segment expected_owner new_owner None 0"

definition dos_memory_transfer_named_owner_checked ::
  "dos_memory_arena \<Rightarrow> 'b dos_machine \<Rightarrow> 'b \<Rightarrow> u16 \<Rightarrow> u16 \<Rightarrow> dos_memory_owner_identity
     \<Rightarrow> dos_memory_status \<times> dos_memory_arena \<times> 'b" where
  "dos_memory_transfer_named_owner_checked arena m b block_segment expected_owner new_owner =
     (if psp_segment new_owner = MCB_OWNER_FREE \<or> expected_owner = MCB_OWNER_FREE
      then (DOS_MEMORY_INVALID_ARGUMENT, arena, b)
      else transfer_owner_checked_common arena m b block_segment expected_owner
             (psp_segment new_owner) (Some (owner_name new_owner)) 8)"

definition dos_memory_transfer_owner_name_patch_checked ::
  "dos_memory_arena \<Rightarrow> 'b dos_machine \<Rightarrow> 'b \<Rightarrow> u16 \<Rightarrow> u16 \<Rightarrow> u16 \<Rightarrow> dos_memory_owner_name_patch
     \<Rightarrow> dos_memory_status \<times> dos_memory_arena \<times> 'b" where
  "dos_memory_transfer_owner_name_patch_checked arena m b block_segment expected_owner new_owner p =
     (if expected_owner = MCB_OWNER_FREE \<or> new_owner = MCB_OWNER_FREE \<or>
         \<not> owner_name_patch_is_valid p
      then (DOS_MEMORY_INVALID_ARGUMENT, arena, b)
      else transfer_owner_checked_common arena m b block_segment expected_owner new_owner
             (Some (patch_bytes p)) (patch_count p))"

section \<open>Resizing and process teardown\<close>

definition dos_memory_resize_checked ::
  "dos_memory_arena \<Rightarrow> 'b dos_machine \<Rightarrow> 'b \<Rightarrow> u16 \<Rightarrow> u16 \<Rightarrow> u16
     \<Rightarrow> dos_memory_status \<times> dos_memory_arena \<times> 'b \<times> u16" where
  "dos_memory_resize_checked arena m b block_segment current_psp paragraphs =
     (if arena_is_ready arena \<noteq> DOS_MEMORY_OK then (arena_is_ready arena, arena, b, 0)
      else (let header = block_segment - 1
            in (case read_mcb m b header of
                  Inl status \<Rightarrow> (status, arena, b, 0)
                | Inr r \<Rightarrow>
                    (let (status, arena1, b1, r1) = coalesce_forward arena m b header r
                     in if status \<noteq> DOS_MEMORY_OK then (status, arena1, b1, 0)
                        else if paragraphs > mcb_size r1
                        then (DOS_MEMORY_NOT_ENOUGH_MEMORY, arena1, b1, mcb_size r1)
                        else (let (status, arena2, b2, _) =
                                    allocate_low arena1 m b1 header paragraphs current_psp None
                              in (status, arena2, b2, mcb_size r1))))))"

fun free_process_loop ::
  "nat \<Rightarrow> dos_memory_arena \<Rightarrow> 'b dos_machine \<Rightarrow> 'b \<Rightarrow> u16 \<Rightarrow> u16 \<Rightarrow> bool
     \<Rightarrow> dos_memory_status \<times> dos_memory_arena \<times> 'b" where
  "free_process_loop 0 arena m b owner_psp segment changed = (DOS_MEMORY_ARENA_DAMAGED, arena, b)"
| "free_process_loop (Suc steps) arena m b owner_psp segment changed =
     (case read_mcb m b segment of
        Inl status \<Rightarrow>
          if changed then (DOS_MEMORY_MACHINE_POISONED, arena\<lparr>machine_poisoned := 1\<rparr>, b)
          else (status, arena, b)
      | Inr r \<Rightarrow>
          (let (status, arena', b', r', changed') =
             (if mcb_owner r = owner_psp then
                (let r' = mcb_set_owner r MCB_OWNER_FREE;
                     (status, arena', b') = replace_record_bytes arena m b segment r'
                 in if status \<noteq> DOS_MEMORY_OK
                    then (if changed \<and> status \<noteq> DOS_MEMORY_MACHINE_POISONED
                          then (DOS_MEMORY_MACHINE_POISONED, arena'\<lparr>machine_poisoned := 1\<rparr>, b', r', changed)
                          else (status, arena', b', r', changed))
                    else (DOS_MEMORY_OK, arena', b', r', True))
              else (DOS_MEMORY_OK, arena, b, r, changed))
           in if status \<noteq> DOS_MEMORY_OK then (status, arena', b')
              else if mcb_signature r' = MCB_SIGNATURE_END then (DOS_MEMORY_OK, arena', b')
              else (case next_mcb_segment segment r' of
                      Inl status \<Rightarrow>
                        if changed' then (DOS_MEMORY_MACHINE_POISONED, arena'\<lparr>machine_poisoned := 1\<rparr>, b')
                        else (status, arena', b')
                    | Inr following \<Rightarrow>
                        free_process_loop steps arena' m b' owner_psp following changed')))"

definition dos_memory_free_process_checked ::
  "dos_memory_arena \<Rightarrow> 'b dos_machine \<Rightarrow> 'b \<Rightarrow> u16 \<Rightarrow> dos_memory_status \<times> dos_memory_arena \<times> 'b" where
  "dos_memory_free_process_checked arena m b owner_psp =
     (if arena_is_ready arena \<noteq> DOS_MEMORY_OK then (arena_is_ready arena, arena, b)
      else free_process_loop MCB_MAXIMUM_WALK arena m b owner_psp (head_segment arena) False)"

section \<open>Strategy and the DOS-visible entry points\<close>

definition dos_memory_get_strategy_checked :: "dos_memory_arena \<Rightarrow> dos_memory_status + u8" where
  "dos_memory_get_strategy_checked arena =
     (if \<not> arena_flags_have_valid_encoding arena then Inl DOS_MEMORY_INVALID_ARGUMENT
      else if machine_poisoned arena = 1 then Inl DOS_MEMORY_MACHINE_POISONED
      else if initialized arena \<noteq> 1 \<or> \<not> arena_identity_is_valid (identity arena) \<or>
              generation arena = 0
      then Inl DOS_MEMORY_INVALID_ARGUMENT
      else Inr (strategy arena))"

definition dos_memory_set_strategy_checked ::
  "dos_memory_arena \<Rightarrow> u8 \<Rightarrow> dos_memory_status \<times> dos_memory_arena" where
  "dos_memory_set_strategy_checked arena s =
     (if \<not> arena_flags_have_valid_encoding arena then (DOS_MEMORY_INVALID_ARGUMENT, arena)
      else if machine_poisoned arena = 1 then (DOS_MEMORY_MACHINE_POISONED, arena)
      else if initialized arena \<noteq> 1 \<or> \<not> arena_identity_is_valid (identity arena) \<or>
              generation arena = 0
      then (DOS_MEMORY_INVALID_ARGUMENT, arena)
      else (DOS_MEMORY_OK, arena\<lparr>strategy := s\<rparr>))"

text \<open>DOS error codes of \<open>include/dos_error.h\<close> that the memory calls report.\<close>

type_synonym dos_error = nat

definition DOS_SUCCESS :: dos_error where "DOS_SUCCESS = 0"
definition DOS_ERROR_ACCESS_DENIED :: dos_error where "DOS_ERROR_ACCESS_DENIED = 5"
definition DOS_ERROR_ARENA_TRASHED :: dos_error where "DOS_ERROR_ARENA_TRASHED = 7"
definition DOS_ERROR_NOT_ENOUGH_MEMORY :: dos_error where "DOS_ERROR_NOT_ENOUGH_MEMORY = 8"
definition DOS_ERROR_INVALID_BLOCK :: dos_error where "DOS_ERROR_INVALID_BLOCK = 9"
definition DOS_ERROR_INVALID_PARAMETER :: dos_error where "DOS_ERROR_INVALID_PARAMETER = 87"

fun status_to_dos_error :: "dos_memory_status \<Rightarrow> dos_error \<Rightarrow> dos_error" where
  "status_to_dos_error DOS_MEMORY_OK invalid_error = DOS_SUCCESS"
| "status_to_dos_error DOS_MEMORY_INVALID_ARGUMENT invalid_error = invalid_error"
| "status_to_dos_error DOS_MEMORY_INVALID_BLOCK invalid_error = DOS_ERROR_INVALID_BLOCK"
| "status_to_dos_error DOS_MEMORY_NOT_ENOUGH_MEMORY invalid_error = DOS_ERROR_NOT_ENOUGH_MEMORY"
| "status_to_dos_error DOS_MEMORY_OWNER_MISMATCH invalid_error = DOS_ERROR_ACCESS_DENIED"
| "status_to_dos_error _ invalid_error = DOS_ERROR_ARENA_TRASHED"

definition dos_memory_arena_initialize ::
  "dos_memory_arena \<Rightarrow> 'b dos_machine \<Rightarrow> 'b \<Rightarrow> u16 \<Rightarrow> u16 \<Rightarrow> dos_error \<times> dos_memory_arena \<times> 'b" where
  "dos_memory_arena_initialize arena m b head end_segment =
     (let (status, arena', b') = dos_memory_arena_initialize_checked arena m b head end_segment
      in (status_to_dos_error status DOS_ERROR_INVALID_PARAMETER, arena', b'))"

definition dos_memory_arena_validate :: "dos_memory_arena \<Rightarrow> 'b dos_machine \<Rightarrow> 'b \<Rightarrow> dos_error" where
  "dos_memory_arena_validate arena m b =
     status_to_dos_error (dos_memory_arena_validate_checked arena m b) DOS_ERROR_INVALID_PARAMETER"

definition dos_memory_allocate ::
  "dos_memory_arena \<Rightarrow> 'b dos_machine \<Rightarrow> 'b \<Rightarrow> u16 \<Rightarrow> u16
     \<Rightarrow> dos_error \<times> dos_memory_arena \<times> 'b \<times> u16 \<times> u16" where
  "dos_memory_allocate arena m b owner_psp paragraphs =
     (let (status, arena', b', block, maximum) =
            dos_memory_allocate_checked arena m b owner_psp paragraphs
      in (status_to_dos_error status DOS_ERROR_INVALID_PARAMETER, arena', b', block, maximum))"

definition dos_memory_free ::
  "dos_memory_arena \<Rightarrow> 'b dos_machine \<Rightarrow> 'b \<Rightarrow> u16 \<Rightarrow> dos_error \<times> dos_memory_arena \<times> 'b" where
  "dos_memory_free arena m b block_segment =
     (let (status, arena', b') = dos_memory_free_checked arena m b block_segment
      in (status_to_dos_error status DOS_ERROR_INVALID_BLOCK, arena', b'))"

definition dos_memory_resize ::
  "dos_memory_arena \<Rightarrow> 'b dos_machine \<Rightarrow> 'b \<Rightarrow> u16 \<Rightarrow> u16 \<Rightarrow> u16
     \<Rightarrow> dos_error \<times> dos_memory_arena \<times> 'b \<times> u16" where
  "dos_memory_resize arena m b block_segment current_psp paragraphs =
     (let (status, arena', b', maximum) =
            dos_memory_resize_checked arena m b block_segment current_psp paragraphs
      in (status_to_dos_error status DOS_ERROR_INVALID_BLOCK, arena', b', maximum))"

definition dos_memory_free_process ::
  "dos_memory_arena \<Rightarrow> 'b dos_machine \<Rightarrow> 'b \<Rightarrow> u16 \<Rightarrow> dos_error \<times> dos_memory_arena \<times> 'b" where
  "dos_memory_free_process arena m b owner_psp =
     (let (status, arena', b') = dos_memory_free_process_checked arena m b owner_psp
      in (status_to_dos_error status DOS_ERROR_INVALID_PARAMETER, arena', b'))"

definition dos_memory_get_strategy :: "dos_memory_arena \<Rightarrow> dos_error \<times> u8 option" where
  "dos_memory_get_strategy arena =
     (case dos_memory_get_strategy_checked arena of
        Inl status \<Rightarrow> (status_to_dos_error status DOS_ERROR_INVALID_PARAMETER, None)
      | Inr s \<Rightarrow> (status_to_dos_error DOS_MEMORY_OK DOS_ERROR_INVALID_PARAMETER, Some s))"

definition dos_memory_set_strategy :: "dos_memory_arena \<Rightarrow> u8 \<Rightarrow> dos_error \<times> dos_memory_arena" where
  "dos_memory_set_strategy arena s =
     (let (status, arena') = dos_memory_set_strategy_checked arena s
      in (status_to_dos_error status DOS_ERROR_INVALID_PARAMETER, arena'))"

end
