(* ===== verification/McbSpec.thy ===== *)
theory McbSpec
  imports McbArena
begin

text \<open>
  What the MCB arena promises, without records and machines: an arena is a list of blocks, each an
  owner and a size in paragraphs, laid out one behind the other from the head segment. \<open>chain\<close> says
  that the 16-byte records found in memory describe such a list. The abstract operations are the
  merging of free neighbours, the three fits and the two ways of splitting a block; the theory
  \<open>McbProof\<close> shows that \<open>dos/memory.c\<close> refines them.
\<close>

section \<open>Paragraphs\<close>

text \<open>\<open>par mm s\<close> is the paragraph at segment \<open>s\<close>; there are \<open>0x10000\<close> of them.\<close>

definition par_addr :: "nat \<Rightarrow> u32" where
  "par_addr s = of_nat (16 * s)"

definition par :: "memory \<Rightarrow> nat \<Rightarrow> bytes" where
  "par mm s = (if s < 0x10000 then mem_read mm (par_addr s) 16 else [])"

definition par_of :: "u32 \<Rightarrow> nat" where
  "par_of x = unat x div 16"

lemma length_par: "s < 0x10000 \<Longrightarrow> length (par mm s) = 16"
  by (simp add: par_def)

lemma in_range_par_addr:
  assumes "s < 0x10000"
  shows "in_range (par_addr s) 16 x \<longleftrightarrow> par_of x = s"
proof -
  have a: "unat (par_addr s) = 16 * s" using assms unfolding par_addr_def
    by (simp add: unat_of_nat del: of_nat_mult)
  show ?thesis
  proof (cases "par_addr s \<le> x")
    case True
    then have "unat (x - par_addr s) = unat x - 16 * s" "16 * s \<le> unat x"
      using a by (simp_all add: unat_sub word_le_nat_alt)
    then show ?thesis unfolding in_range_def par_of_def by auto
  next
    case False
    then have less: "unat x < 16 * s" using a by (simp add: word_le_nat_alt)
    have "unat (x - par_addr s) = (2 ^ 32 + unat x - 16 * s) mod 2 ^ 32"
      using a less assms by (simp add: unat_sub_if' word_le_nat_alt)
    also have "\<dots> = 2 ^ 32 + unat x - 16 * s"
      using less assms by (intro mod_less) simp
    finally have "\<not> unat (x - par_addr s) < 16" using assms by simp
    moreover have "par_of x \<noteq> s" using less by (auto simp: par_of_def)
    ultimately show ?thesis by (simp add: in_range_def)
  qed
qed

lemma par_write:
  assumes "s < 0x10000" "length r = 16"
  shows "par (mem_write mm (par_addr s) r) = (par mm)(s := r)"
proof
  fix t
  show "par (mem_write mm (par_addr s) r) t = ((par mm)(s := r)) t"
  proof (cases "t < 0x10000")
    case t: True
    show ?thesis
    proof (cases "t = s")
      case True
      with assms mem_read_write_same [of r mm "par_addr s"] show ?thesis by (simp add: par_def)
    next
      case False
      have "mem_write mm (par_addr s) r (par_addr t + of_nat i) = mm (par_addr t + of_nat i)"
        if "i < 16" for i
      proof (rule mem_write_outside)
        have "in_range (par_addr t) 16 (par_addr t + of_nat i)"
          using that by (simp add: in_range_def unat_of_nat)
        then have "par_of (par_addr t + of_nat i) = t" using t in_range_par_addr by blast
        then show "\<not> in_range (par_addr s) (length r) (par_addr t + of_nat i)"
          using False assms in_range_par_addr by simp
      qed
      with False t show ?thesis
        by (auto simp: par_def intro: mem_read_cong)
    qed
  qed (use assms in \<open>simp add: par_def\<close>)
qed

lemma write_other_par:
  assumes "s < 0x10000" "length r = 16" "par_of x \<noteq> s"
  shows "mem_write mm (par_addr s) r x = mm x"
  using assms by (simp add: mem_write_outside in_range_par_addr)

lemma par_eqI:
  assumes "\<And>x. par_of x = s \<Longrightarrow> mm x = mm' x"
  shows "par mm s = par mm' s"
proof -
  have "mm (par_addr s + of_nat i) = mm' (par_addr s + of_nat i)" if "s < 0x10000" "i < 16" for i
  proof (rule assms)
    have "in_range (par_addr s) 16 (par_addr s + of_nat i)"
      using that by (simp add: in_range_def unat_of_nat)
    then show "par_of (par_addr s + of_nat i) = s" using that in_range_par_addr by blast
  qed
  then show ?thesis by (auto simp: par_def intro: mem_read_cong)
qed

section \<open>Fields of a record\<close>

named_theorems mcb_simps \<open>fields of an updated 16-byte record\<close>

lemmas mcb_field_defs =
  mcb_signature_def mcb_owner_def mcb_size_def mcb_set_signature_def mcb_set_owner_def mcb_set_size_def

lemma length_mcb_set [mcb_simps]:
  "length (mcb_set_signature r v) = length r"
  "length (mcb_set_owner r w) = length r"
  "length (mcb_set_size r w) = length r"
  by (simp_all add: mcb_field_defs)

lemma mcb_patch_nth:
  "mcb_patch_owner_name r name k ! i = (if 8 \<le> i \<and> i < 8 + k \<and> i < length r then name ! (i - 8) else r ! i)"
  and length_mcb_patch [mcb_simps]: "length (mcb_patch_owner_name r name k) = length r"
proof -
  have "length (mcb_patch_owner_name r name k) = length r \<and>
    (\<forall>i. mcb_patch_owner_name r name k ! i =
       (if 8 \<le> i \<and> i < 8 + k \<and> i < length r then name ! (i - 8) else r ! i))"
  proof (induction k)
    case (Suc k)
    have step: "mcb_patch_owner_name r name (Suc k) = (mcb_patch_owner_name r name k)[8 + k := name ! k]"
      by (simp add: mcb_patch_owner_name_def)
    show ?case
    proof (intro conjI allI)
      fix i
      show "mcb_patch_owner_name r name (Suc k) ! i =
          (if 8 \<le> i \<and> i < 8 + Suc k \<and> i < length r then name ! (i - 8) else r ! i)"
        using Suc unfolding step
        by (cases "i = 8 + k"; cases "8 + k < length r") (auto simp: nth_list_update list_update_beyond)
    qed (use Suc in \<open>simp add: step\<close>)
  qed (auto simp: mcb_patch_owner_name_def)
  then show "mcb_patch_owner_name r name k ! i =
      (if 8 \<le> i \<and> i < 8 + k \<and> i < length r then name ! (i - 8) else r ! i)"
    and "length (mcb_patch_owner_name r name k) = length r" by simp_all
qed

lemma mcb_fields_patch [mcb_simps]:
  assumes "length r = 16"
  shows "mcb_signature (mcb_patch_owner_name r name k) = mcb_signature r"
    "mcb_owner (mcb_patch_owner_name r name k) = mcb_owner r"
    "mcb_size (mcb_patch_owner_name r name k) = mcb_size r"
  using assms by (auto simp: mcb_signature_def mcb_owner_def mcb_size_def mcb_patch_nth length_mcb_patch
      intro!: read_le16_cong)

lemma mcb_fields_set [mcb_simps]:
  assumes "length r = 16"
  shows "mcb_signature (mcb_set_signature r v) = v"
    "mcb_owner (mcb_set_signature r v) = mcb_owner r"
    "mcb_size (mcb_set_signature r v) = mcb_size r"
    "mcb_signature (mcb_set_owner r w) = mcb_signature r"
    "mcb_owner (mcb_set_owner r w) = w"
    "mcb_size (mcb_set_owner r w) = mcb_size r"
    "mcb_signature (mcb_set_size r w) = mcb_signature r"
    "mcb_owner (mcb_set_size r w) = mcb_owner r"
    "mcb_size (mcb_set_size r w) = w"
  using assms by (auto simp: mcb_field_defs intro!: read_le16_cong)

lemma mcb_fields_name [mcb_simps]:
  assumes "length r = 16"
  shows "mcb_signature (mcb_set_owner_name r name) = mcb_signature r"
    "mcb_owner (mcb_set_owner_name r name) = mcb_owner r"
    "mcb_size (mcb_set_owner_name r name) = mcb_size r"
    "length (mcb_set_owner_name r name) = length r"
  using assms by (simp_all add: mcb_set_owner_name_def mcb_simps)

lemma signature_distinct [simp]:
  "MCB_SIGNATURE_NORMAL \<noteq> MCB_SIGNATURE_END" "MCB_SIGNATURE_END \<noteq> MCB_SIGNATURE_NORMAL"
  by (simp_all add: MCB_SIGNATURE_NORMAL_def MCB_SIGNATURE_END_def)

section \<open>Chains of blocks\<close>

type_synonym block = "u16 \<times> nat"

definition is_free :: "block \<Rightarrow> bool" where
  "is_free blk \<longleftrightarrow> fst blk = MCB_OWNER_FREE"

definition span :: "block list \<Rightarrow> nat" where
  "span bs = sum_list (map (\<lambda>blk. snd blk + 1) bs)"

lemma span_simps [simp]:
  "span [] = 0" "span (blk # bs) = snd blk + 1 + span bs" "span (xs @ ys) = span xs + span ys"
  by (simp_all add: span_def)

definition block_at :: "(nat \<Rightarrow> bytes) \<Rightarrow> nat \<Rightarrow> u8 \<Rightarrow> block \<Rightarrow> bool" where
  "block_at P s sig blk \<longleftrightarrow> s + snd blk \<le> 0xffff \<and> mcb_signature (P s) = sig \<and>
     mcb_owner (P s) = fst blk \<and> unat (mcb_size (P s)) = snd blk"

text \<open>\<open>links\<close>: the blocks start at \<open>s\<close> and none of them is the last one; \<open>chain\<close>: the last one
  carries the end signature, all others the normal one.\<close>

fun links :: "(nat \<Rightarrow> bytes) \<Rightarrow> nat \<Rightarrow> block list \<Rightarrow> bool" where
  "links P s [] = True"
| "links P s (blk # bs) =
     (block_at P s MCB_SIGNATURE_NORMAL blk \<and> links P (s + snd blk + 1) bs)"

fun chain :: "(nat \<Rightarrow> bytes) \<Rightarrow> nat \<Rightarrow> block list \<Rightarrow> bool" where
  "chain P s [] = False"
| "chain P s (blk # bs) =
     (block_at P s (if bs = [] then MCB_SIGNATURE_END else MCB_SIGNATURE_NORMAL) blk \<and>
      (bs \<noteq> [] \<longrightarrow> chain P (s + snd blk + 1) bs))"

lemma chain_append:
  "bs \<noteq> [] \<Longrightarrow> chain P s (pre @ bs) \<longleftrightarrow> links P s pre \<and> chain P (s + span pre) bs"
  by (induction pre arbitrary: s) (auto simp: add.assoc)

lemma chain_bound: "chain P s bs \<Longrightarrow> s + span bs \<le> 0x10000 \<and> s < 0x10000"
proof (induction bs arbitrary: s)
  case (Cons blk bs)
  then show ?case by (cases "bs = []") (fastforce simp: block_at_def)+
qed simp

lemma length_le_span: "length bs \<le> span bs"
  by (induction bs) auto

lemma chain_length: "chain P s bs \<Longrightarrow> length bs \<le> 0x10000"
  using chain_bound [of P s bs] length_le_span [of bs] by linarith

text \<open>The segments that carry the headers of a list of blocks.\<close>

fun headers :: "nat \<Rightarrow> block list \<Rightarrow> nat set" where
  "headers s [] = {}"
| "headers s (blk # bs) = insert s (headers (s + snd blk + 1) bs)"

lemma headers_append: "headers s (xs @ ys) = headers s xs \<union> headers (s + span xs) ys"
  by (induction xs arbitrary: s) (auto simp: add.assoc)

lemma headers_range: "t \<in> headers s bs \<Longrightarrow> s \<le> t \<and> t < s + span bs"
  by (induction bs arbitrary: s) fastforce+

lemma chain_cong:
  "(\<And>t. t \<in> headers s bs \<Longrightarrow> P t = Q t) \<Longrightarrow> chain P s bs = chain Q s bs"
  by (induction bs arbitrary: s) (auto simp: block_at_def)

lemma links_cong:
  "(\<And>t. t \<in> headers s bs \<Longrightarrow> P t = Q t) \<Longrightarrow> links P s bs = links Q s bs"
  by (induction bs arbitrary: s) (auto simp: block_at_def)

lemma chain_update:
  assumes "t \<notin> headers s bs" shows "chain (P(t := r)) s bs = chain P s bs"
  using assms by (intro chain_cong) auto

lemma links_update:
  assumes "t \<notin> headers s bs" shows "links (P(t := r)) s bs = links P s bs"
  using assms by (intro links_cong) auto

text \<open>A chain determines its blocks.\<close>

lemma chain_unique: "chain P s bs \<Longrightarrow> chain P s cs \<Longrightarrow> bs = cs"
proof (induction bs arbitrary: s cs)
  case (Cons blk bs)
  then obtain c cs' where cs: "cs = c # cs'" by (cases cs) auto
  with Cons.prems have eq: "blk = c" "(bs = []) = (cs' = [])"
    by (auto simp: block_at_def prod_eq_iff split: if_splits)
  with Cons.IH [of "s + snd blk + 1" cs'] Cons.prems cs show ?case by (cases "bs = []") auto
qed simp

section \<open>Abstract operations\<close>

text \<open>A free block swallows the free blocks behind it; so does a block being resized.\<close>

fun merge_free :: "block \<Rightarrow> block list \<Rightarrow> block \<times> block list" where
  "merge_free blk [] = (blk, [])"
| "merge_free blk (c # bs) =
     (if is_free c then merge_free (fst blk, snd blk + snd c + 1) bs else (blk, c # bs))"

lemma merge_free_length: "length (snd (merge_free blk bs)) \<le> length bs"
  by (induction blk bs rule: merge_free.induct) auto

lemma merge_free_span:
  "merge_free blk bs = (blk', bs') \<Longrightarrow> snd blk' + span bs' = snd blk + span bs"
  by (induction blk bs arbitrary: blk' bs' rule: merge_free.induct) (auto split: if_splits)

lemma merge_free_owner: "merge_free blk bs = (blk', bs') \<Longrightarrow> fst blk' = fst blk \<and> snd blk \<le> snd blk'"
  by (induction blk bs arbitrary: blk' bs' rule: merge_free.induct) (fastforce split: if_splits)+

text \<open>The walk of an allocation merges every run of free blocks.\<close>

function defrag :: "block list \<Rightarrow> block list" where
  "defrag [] = []"
| "defrag (blk # bs) =
     (if is_free blk then (case merge_free blk bs of (blk', bs') \<Rightarrow> blk' # defrag bs')
      else blk # defrag bs)"
  by pat_completeness auto
termination
proof (relation "measure length", goal_cases)
  case (2 blk bs x y)
  then show ?case using merge_free_length [of blk bs] by (metis in_measure le_imp_less_Suc length_Cons snd_conv)
qed simp_all

fun defragmented :: "block list \<Rightarrow> bool" where
  "defragmented (a # b # bs) = (\<not> (is_free a \<and> is_free b) \<and> defragmented (b # bs))"
| "defragmented _ = True"

text \<open>One merge of two free neighbours anywhere, and any number of them.\<close>

inductive merges :: "block list \<Rightarrow> block list \<Rightarrow> bool" where
  merges_refl: "merges bs bs"
| merges_step: "merges bs (pre @ a # c # post) \<Longrightarrow> is_free a \<Longrightarrow> is_free c \<Longrightarrow>
    merges bs (pre @ (fst a, snd a + snd c + 1) # post)"

text \<open>The owned blocks of an arena with their segments, in address order.\<close>

fun owned :: "nat \<Rightarrow> block list \<Rightarrow> (nat \<times> block) list" where
  "owned s [] = []"
| "owned s (blk # bs) = (if is_free blk then [] else [(s, blk)]) @ owned (s + snd blk + 1) bs"

fun free_blocks :: "nat \<Rightarrow> block list \<Rightarrow> (nat \<times> nat) list" where
  "free_blocks s [] = []"
| "free_blocks s (blk # bs) =
     (if is_free blk then [(s, snd blk)] else []) @ free_blocks (s + snd blk + 1) bs"

lemma owned_append: "owned s (xs @ ys) = owned s xs @ owned (s + span xs) ys"
  by (induction xs arbitrary: s) (simp_all add: add.assoc)

lemma free_blocks_append: "free_blocks s (xs @ ys) = free_blocks s xs @ free_blocks (s + span xs) ys"
  by (induction xs arbitrary: s) (simp_all add: add.assoc)

text \<open>The paragraphs of free blocks, headers included: the only ones an allocation may write.\<close>

fun free_paras :: "nat \<Rightarrow> block list \<Rightarrow> nat set" where
  "free_paras s [] = {}"
| "free_paras s (blk # bs) =
     (if is_free blk then {s..s + snd blk} else {}) \<union> free_paras (s + snd blk + 1) bs"

lemma free_paras_append: "free_paras s (xs @ ys) = free_paras s xs \<union> free_paras (s + span xs) ys"
  by (induction xs arbitrary: s) (auto simp: add.assoc)

lemma free_paras_range: "t \<in> free_paras s bs \<Longrightarrow> s \<le> t \<and> t < s + span bs"
  by (induction bs arbitrary: s) (fastforce split: if_splits)+

lemma merges_keeps:
  assumes "merges bs cs"
  shows "span cs = span bs \<and> owned s cs = owned s bs \<and> free_paras s cs = free_paras s bs"
  using assms
proof (induction rule: merges.induct)
  case (merges_step bs pre a c post)
  let ?t = "s + span pre"
  have "{?t..?t + (snd a + snd c + 1)} = {?t..?t + snd a} \<union> {?t + snd a + 1..?t + snd a + 1 + snd c}"
    by auto
  with merges_step show ?case
    by (simp add: owned_append free_paras_append is_free_def add_ac)
       (simp add: Un_assoc)
qed simp

lemma merges_trans: "merges bs cs \<Longrightarrow> merges as bs \<Longrightarrow> merges as cs"
proof (induction rule: merges.induct)
  case (merges_step bs pre a c post)
  then show ?case by (intro merges.merges_step)
qed

lemma merges_mono: "merges bs cs \<Longrightarrow> merges (pre @ bs) (pre @ cs)"
proof (induction rule: merges.induct)
  case (merges_step bs pre' a c post)
  then show ?case using merges.merges_step [of "pre @ bs" "pre @ pre'" a c post] by simp
qed (rule merges_refl)

lemma merges_merge_free:
  assumes "is_free blk" "merge_free blk bs = (blk', bs')"
  shows "merges (blk # bs) (blk' # bs')"
  using assms
proof (induction blk bs arbitrary: blk' bs' rule: merge_free.induct)
  case (2 blk c bs)
  show ?case
  proof (cases "is_free c")
    case True
    with 2 have "merges ((fst blk, snd blk + snd c + 1) # bs) (blk' # bs')" by (simp add: is_free_def)
    moreover have "merges (blk # c # bs) ([] @ (fst blk, snd blk + snd c + 1) # bs)"
      using True 2 by (intro merges.merges_step) (auto intro: merges_refl)
    ultimately show ?thesis using merges_trans by fastforce
  qed (use 2 in \<open>auto intro: merges_refl\<close>)
qed (auto intro: merges_refl)

lemma merges_defrag: "merges bs (defrag bs)"
proof (induction bs rule: defrag.induct)
  case (2 blk bs)
  show ?case
  proof (cases "is_free blk")
    case True
    obtain blk' bs' where mf: "merge_free blk bs = (blk', bs')" by fastforce
    with 2 True have "merges bs' (defrag bs')" by simp
    then have "merges (blk' # bs') (blk' # defrag bs')" using merges_mono [of bs' _ "[blk']"] by simp
    with merges_merge_free [OF True mf] True mf show ?thesis using merges_trans by auto
  next
    case False
    with 2 merges_mono [of bs "defrag bs" "[blk]"] show ?thesis by simp
  qed
qed (simp add: merges_refl)

lemma merge_free_stops: "merge_free blk bs = (blk', bs') \<Longrightarrow> bs' = [] \<or> \<not> is_free (hd bs')"
  by (induction blk bs arbitrary: blk' bs' rule: merge_free.induct) (auto split: if_splits)

lemma defrag_hd: "bs \<noteq> [] \<Longrightarrow> defrag bs \<noteq> [] \<and> is_free (hd (defrag bs)) = is_free (hd bs)"
  by (cases bs) (auto simp: is_free_def split: prod.splits dest: merge_free_owner)

lemma defragmented_Cons:
  "defragmented (a # bs) \<longleftrightarrow> (bs = [] \<or> \<not> (is_free a \<and> is_free (hd bs))) \<and> defragmented bs"
  by (cases bs) auto

lemma defragmented_defrag: "defragmented (defrag bs)"
proof (induction bs rule: defrag.induct)
  case (2 blk bs)
  show ?case
  proof (cases "is_free blk")
    case True
    obtain blk' bs' where mf: "merge_free blk bs = (blk', bs')" by fastforce
    with 2 True have "defragmented (defrag bs')" by simp
    moreover have "defrag bs' = [] \<or> \<not> is_free (hd (defrag bs'))"
      using merge_free_stops [OF mf] defrag_hd [of bs'] by (cases "bs' = []") auto
    ultimately show ?thesis using True mf by (auto simp: defragmented_Cons)
  next
    case False
    with 2 show ?thesis by (simp add: defragmented_Cons)
  qed
qed simp

text \<open>The three fits, on the free blocks with their segments: the first block that is large enough,
  the first of the smallest such blocks, and the last one.\<close>

definition fits :: "nat \<Rightarrow> (nat \<times> nat) list \<Rightarrow> (nat \<times> nat) list" where
  "fits requested fbs = filter (\<lambda>(s, n). requested \<le> n) fbs"

fun best_of :: "(nat \<times> nat) list \<Rightarrow> nat \<times> nat" where
  "best_of [] = (0, 0)"
| "best_of [x] = x"
| "best_of (x # y # xs) = best_of ((if snd y < snd x then y else x) # xs)"

definition choose_fit :: "u8 \<Rightarrow> (nat \<times> nat) list \<Rightarrow> nat \<times> nat" where
  "choose_fit strat fbs =
     (if strat = 0 then hd fbs else if strat = 1 then best_of fbs else last fbs)"

definition split_low :: "u16 \<Rightarrow> nat \<Rightarrow> nat \<Rightarrow> block list" where
  "split_low owner requested n =
     (if requested < n then [(owner, requested), (MCB_OWNER_FREE, n - requested - 1)]
      else [(owner, requested)])"

definition split_high :: "u16 \<Rightarrow> nat \<Rightarrow> nat \<Rightarrow> block list" where
  "split_high owner requested n =
     (if requested < n then [(MCB_OWNER_FREE, n - requested - 1), (owner, requested)]
      else [(owner, requested)])"

definition allocation :: "u8 \<Rightarrow> u16 \<Rightarrow> nat \<Rightarrow> nat \<Rightarrow> block list" where
  "allocation strat owner requested n =
     (if strat > 1 then split_high owner requested n else split_low owner requested n)"

text \<open>Where the header of the new block lies inside the split block.\<close>

definition header_offset :: "u8 \<Rightarrow> nat \<Rightarrow> nat \<Rightarrow> nat" where
  "header_offset strat requested n = (if strat > 1 \<and> requested < n then n - requested else 0)"

lemma span_split:
  assumes "requested \<le> n"
  shows "span (split_low owner requested n) = n + 1" "span (split_high owner requested n) = n + 1"
    "span (allocation strat owner requested n) = n + 1"
  using assms by (auto simp: split_low_def split_high_def allocation_def)

lemma best_of_in: "xs \<noteq> [] \<Longrightarrow> best_of xs \<in> set xs"
proof (induction xs rule: best_of.induct)
  case (3 x y xs)
  then show ?case by (cases "snd y < snd x") auto
qed simp_all

lemma best_of_least: "x \<in> set xs \<Longrightarrow> snd (best_of xs) \<le> snd x"
proof (induction xs arbitrary: x rule: best_of.induct)
  case (3 y z xs)
  let ?w = "if snd z < snd y then z else y"
  have w: "snd (best_of (?w # xs)) \<le> snd ?w" using "3.IH" [of ?w] by simp
  from 3 show ?case using w by (fastforce split: if_splits)
qed simp_all

lemma choose_fit_in: "fbs \<noteq> [] \<Longrightarrow> choose_fit strat fbs \<in> set fbs"
  by (simp add: choose_fit_def best_of_in)

text \<open>A free block found at a segment splits the list there.\<close>

lemma free_blocks_split:
  assumes "(t, n) \<in> set (free_blocks s bs)"
  shows "\<exists>pre post. bs = pre @ (MCB_OWNER_FREE, n) # post \<and> t = s + span pre"
  using assms
proof (induction bs arbitrary: s)
  case (Cons blk bs)
  show ?case
  proof (cases "is_free blk \<and> t = s \<and> n = snd blk")
    case True
    then show ?thesis by (intro exI [of _ "[]"] exI [of _ bs]) (auto simp: is_free_def prod_eq_iff)
  next
    case False
    with Cons.prems have "(t, n) \<in> set (free_blocks (s + snd blk + 1) bs)" by (auto split: if_splits)
    with Cons.IH obtain pre post where "bs = pre @ (MCB_OWNER_FREE, n) # post"
      "t = s + snd blk + 1 + span pre" by blast
    then show ?thesis by (intro exI [of _ "blk # pre"] exI [of _ post]) simp
  qed
qed simp

end
