(* ===== verification/GuestBackend.thy ===== *)
theory GuestBackend
  imports GuestMachine
begin

text \<open>
  The contract between the machine boundary and the backend that provides guest memory, as the
  locale \<open>guest_backend\<close>, and the client lemmas of the boundary proved once inside it: what linear
  reads, writes and transactional replacements do to the guest's memory, and that the chunked
  segment:offset transfers address memory byte by byte the way a real-mode CPU would, with the
  16-bit offset wrap and the A20 wrap. The locale is interpreted by the paged guest space.
\<close>

section \<open>Arithmetic of ranges and chunks\<close>

lemma range_valid_bound:
  assumes "guest_range_is_valid m a n" and "address_limit m \<le> DOS_GUEST_32_ADDRESS_LIMIT"
  shows "unat a + n \<le> 2 ^ 32" and "unat a + n \<le> unat (address_limit m)"
proof -
  have lim: "unat (address_limit m) \<le> 2 ^ 32"
    using assms(2) by (simp add: DOS_GUEST_32_ADDRESS_LIMIT_def word_le_nat_alt)
  have less: "unat a < unat (address_limit m)"
    using assms(1) by (simp add: guest_range_is_valid_def word_less_nat_alt)
  have "n \<le> unat (address_limit m) - unat a"
    using assms(1) less by (simp add: guest_range_is_valid_def unat_sub word_le_nat_alt)
  with less lim show "unat a + n \<le> 2 ^ 32" and "unat a + n \<le> unat (address_limit m)"
    by linarith+
qed

lemma range_validI:
  assumes "unat a + n \<le> unat (address_limit m)" and "0 < n"
  shows "guest_range_is_valid m a n"
  using assms by (simp add: guest_range_is_valid_def word_less_nat_alt unat_sub word_le_nat_alt)

text \<open>Inside one chunk the linear address advances with the offset.\<close>

lemma far_chunk_linear:
  assumes chunk: "far_transfer_chunk a20 segment offset remaining = (chunk, linear)"
    and i: "i < chunk"
  shows "dos_far_to_linear segment (offset + of_nat i) a20 = linear + of_nat i"
proof -
  let ?L = "push_bit 4 (ucast segment) + ucast offset :: u32"
  have off: "unat offset + i < 2 ^ 16" and lin: "linear = dos_far_to_linear segment offset a20"
    using chunk i by (auto simp: far_transfer_chunk_def Let_def split: if_splits)
  have step: "push_bit 4 (ucast segment) + ucast (offset + of_nat i) = ?L + of_nat i"
    using off by (simp add: ucast_add_of_nat_u16 add.assoc)
  show ?thesis
  proof (cases a20)
    case True
    then show ?thesis using lin step by (simp add: dos_far_to_linear_def)
  next
    case False
    then have lin20: "linear = ?L AND 0x000fffff" using lin by (simp add: dos_far_to_linear_def)
    have wrap: "unat linear + i < 0x100000"
      using chunk i False lin
      by (auto simp: far_transfer_chunk_def Let_def DOS_A20_WRAP_ADDRESS_def split: if_splits)
    have i32: "i < 2 ^ 32" using off by simp
    have "unat ((?L + of_nat i) AND 0x000fffff) = (unat ?L + i) mod 0x100000"
      using i32 by (simp add: unat_low20 unat_word_ariths unat_of_nat mod_mod_cancel)
    also have "\<dots> = (unat linear + i) mod 0x100000"
      by (simp add: lin20 unat_low20 mod_simps)
    also have "\<dots> = unat (linear + of_nat i)"
      using wrap i32 by (simp add: unat_word_ariths unat_of_nat)
    finally have "(?L + of_nat i) AND 0x000fffff = linear + of_nat i"
      by (simp add: word_unat_eq_iff)
    with False step show ?thesis by (simp add: dos_far_to_linear_def add.assoc)
  qed
qed

section \<open>Byte-wise reference semantics of segmented transfers\<close>

text \<open>A real-mode CPU reads and writes one byte at \<open>segment:offset\<close> and increments the offset.\<close>

definition far_bytes :: "memory \<Rightarrow> bool \<Rightarrow> u16 \<Rightarrow> u16 \<Rightarrow> nat \<Rightarrow> bytes" where
  "far_bytes mm a20 segment offset n =
     map (\<lambda>i. mm (dos_far_to_linear segment (offset + of_nat i) a20)) [0..<n]"

fun far_store :: "memory \<Rightarrow> bool \<Rightarrow> u16 \<Rightarrow> u16 \<Rightarrow> bytes \<Rightarrow> memory" where
  "far_store mm a20 segment offset [] = mm"
| "far_store mm a20 segment offset (x # xs) =
     far_store (mm(dos_far_to_linear segment offset a20 := x)) a20 segment (offset + 1) xs"

lemma length_far_bytes [simp]: "length (far_bytes mm a20 segment offset n) = n"
  by (simp add: far_bytes_def)

lemma far_bytes_append:
  "far_bytes mm a20 segment offset (k + l) =
     far_bytes mm a20 segment offset k @ far_bytes mm a20 segment (offset + of_nat k) l"
proof (rule nth_equalityI)
  fix i assume i: "i < length (far_bytes mm a20 segment offset (k + l))"
  show "far_bytes mm a20 segment offset (k + l) ! i =
      (far_bytes mm a20 segment offset k @ far_bytes mm a20 segment (offset + of_nat k) l) ! i"
  proof (cases "i < k")
    case False
    then have "(of_nat i :: u16) = of_nat k + of_nat (i - k)"
      by (metis le_add_diff_inverse not_less of_nat_add)
    with False i show ?thesis by (simp add: far_bytes_def nth_append add.assoc)
  qed (use i in \<open>simp add: far_bytes_def nth_append\<close>)
qed simp

lemma far_bytes_chunk:
  assumes "far_transfer_chunk a20 segment offset remaining = (chunk, linear)"
  shows "far_bytes mm a20 segment offset chunk = mem_read mm linear chunk"
  using far_chunk_linear [OF assms] by (simp add: far_bytes_def mem_read_def)

lemma far_store_append:
  "far_store mm a20 segment offset (xs @ ys) =
     far_store (far_store mm a20 segment offset xs) a20 segment (offset + of_nat (length xs)) ys"
  by (induction xs arbitrary: mm offset) (simp_all add: add_ac)

lemma far_store_chunk:
  assumes chunk: "far_transfer_chunk a20 segment offset remaining = (chunk, linear)"
    and len: "length xs \<le> chunk"
  shows "far_store mm a20 segment offset xs = mem_write mm linear xs"
  using len
proof (induction xs arbitrary: mm rule: rev_induct)
  case (snoc x xs)
  have "chunk \<le> 0x10000"
    using chunk by (auto simp: far_transfer_chunk_def Let_def split: if_splits)
  with snoc show ?case
    by (simp add: far_store_append mem_write_snoc far_chunk_linear [OF chunk])
qed simp

section \<open>The backend contract\<close>

text \<open>\<open>mem b\<close> is the guest memory a backend state stands for, \<open>reach b\<close> the addresses a guest may
  read and write, \<open>ready\<close> the invariant of the backend. Reads that report success return the
  memory; writes that report success overwrite exactly the range; whatever a write reports, it
  changes nothing outside its range; and a reachable range never fails.\<close>

locale guest_backend =
  fixes m :: "'b dos_machine"
    and rd :: "'b \<Rightarrow> u64 \<Rightarrow> u32 \<Rightarrow> nat \<Rightarrow> nat \<Rightarrow> nat \<times> bytes"
    and wr :: "'b \<Rightarrow> u64 \<Rightarrow> u32 \<Rightarrow> bytes \<Rightarrow> nat \<Rightarrow> nat \<times> 'b"
    and mem :: "'b \<Rightarrow> memory"
    and reach :: "'b \<Rightarrow> u32 \<Rightarrow> bool"
    and ready :: "'b \<Rightarrow> bool"
  assumes bound_ops: "\<exists>t. ops m = Some t \<and> read_memory t = Some rd \<and> write_memory t = Some wr"
    and running: "poisoned m = 0"
    and limit: "0 < address_limit m" "address_limit m \<le> DOS_GUEST_32_ADDRESS_LIMIT"
    and rd_total: "ready b \<Longrightarrow> 0 < n \<Longrightarrow> guest_range_is_valid m a n \<Longrightarrow> n \<le> capacity \<Longrightarrow>
      (\<And>i. i < n \<Longrightarrow> reach b (a + of_nat i)) \<Longrightarrow> fst (rd b (context_handle m) a capacity n) = 0"
    and rd_sound: "ready b \<Longrightarrow> 0 < n \<Longrightarrow> guest_range_is_valid m a n \<Longrightarrow> n \<le> capacity \<Longrightarrow>
      rd b (context_handle m) a capacity n = (0, data) \<Longrightarrow> data = mem_read (mem b) a n"
    and wr_total: "ready b \<Longrightarrow> 0 < n \<Longrightarrow> guest_range_is_valid m a n \<Longrightarrow> n \<le> length src \<Longrightarrow>
      (\<And>i. i < n \<Longrightarrow> reach b (a + of_nat i)) \<Longrightarrow> fst (wr b (context_handle m) a src n) = 0"
    and wr_sound: "ready b \<Longrightarrow> 0 < n \<Longrightarrow> guest_range_is_valid m a n \<Longrightarrow> n \<le> length src \<Longrightarrow>
      wr b (context_handle m) a src n = (0, b') \<Longrightarrow> mem b' = mem_write (mem b) a (take n src)"
    and wr_frame: "ready b \<Longrightarrow> 0 < n \<Longrightarrow> guest_range_is_valid m a n \<Longrightarrow> n \<le> length src \<Longrightarrow>
      wr b (context_handle m) a src n = (raw, b') \<Longrightarrow> \<not> in_range a n x \<Longrightarrow> mem b' x = mem b x"
    and wr_keeps: "ready b \<Longrightarrow> 0 < n \<Longrightarrow> guest_range_is_valid m a n \<Longrightarrow> n \<le> length src \<Longrightarrow>
      wr b (context_handle m) a src n = (raw, b') \<Longrightarrow> ready b' \<and> reach b' = reach b"
begin

lemma machine_is_ready [simp]: "machine_ready (Some m) = DOS_MACHINE_OK"
  by (simp add: machine_ready_def running)

lemma machine_read_eq:
  assumes "0 < n" "n \<le> capacity" "guest_range_is_valid m a n"
  shows "dos_machine_read (Some m) b a (Some capacity) n =
    (normalize_callback_status (fst (rd b (context_handle m) a capacity n)),
     snd (rd b (context_handle m) a capacity n))"
  using assms bound_ops by (auto simp: dos_machine_read_def case_prod_beta)

lemma machine_write_eq:
  assumes "0 < n" "n \<le> length src" "guest_range_is_valid m a n"
  shows "dos_machine_write (Some m) b a (Some src) n =
    (normalize_callback_status (fst (wr b (context_handle m) a src n)),
     snd (wr b (context_handle m) a src n))"
  using assms bound_ops by (auto simp: dos_machine_write_def case_prod_beta)

lemma machine_read_invalid:
  assumes "0 < n" "n \<le> capacity" "\<not> guest_range_is_valid m a n"
  shows "dos_machine_read (Some m) b a (Some capacity) n = (DOS_MACHINE_ADDRESS_FAULT, [])"
  using assms bound_ops by (auto simp: dos_machine_read_def)

lemma machine_write_invalid:
  assumes "0 < n" "n \<le> length src" "\<not> guest_range_is_valid m a n"
  shows "dos_machine_write (Some m) b a (Some src) n = (DOS_MACHINE_ADDRESS_FAULT, b)"
  using assms bound_ops by (auto simp: dos_machine_write_def)

lemma machine_read_sound:
  assumes "ready b" "n \<le> capacity" "dos_machine_read (Some m) b a (Some capacity) n = (DOS_MACHINE_OK, data)"
  shows "data = mem_read (mem b) a n" and "0 < n \<Longrightarrow> guest_range_is_valid m a n"
proof -
  have "data = mem_read (mem b) a n \<and> (0 < n \<longrightarrow> guest_range_is_valid m a n)"
  proof (cases "n = 0")
    case True
    with assms(3) bound_ops show ?thesis by (auto simp: dos_machine_read_def)
  next
    case False
    then have n: "0 < n" by simp
    show ?thesis
    proof (cases "guest_range_is_valid m a n")
      case True
      obtain raw d where r: "rd b (context_handle m) a capacity n = (raw, d)" by fastforce
      with machine_read_eq [OF n assms(2) True, of b] assms(3) have "raw = 0" "d = data" by auto
      with rd_sound [OF assms(1) n True assms(2)] r True show ?thesis by simp
    next
      case inv: False
      with machine_read_invalid [OF n assms(2) inv, of b] assms(3) show ?thesis by simp
    qed
  qed
  then show "data = mem_read (mem b) a n" and "0 < n \<Longrightarrow> guest_range_is_valid m a n" by auto
qed

lemma machine_write_cases:
  assumes "ready b" "n \<le> length src" "dos_machine_write (Some m) b a (Some src) n = (status, b')"
  shows "ready b' \<and> reach b' = reach b \<and> (\<forall>x. \<not> in_range a n x \<longrightarrow> mem b' x = mem b x) \<and>
    (status = DOS_MACHINE_OK \<longrightarrow> mem b' = mem_write (mem b) a (take n src))"
proof (cases "n = 0")
  case True
  with assms bound_ops show ?thesis by (auto simp: dos_machine_write_def)
next
  case False
  then have n: "0 < n" by simp
  show ?thesis
  proof (cases "guest_range_is_valid m a n")
    case True
    obtain raw c where w: "wr b (context_handle m) a src n = (raw, c)" by fastforce
    with machine_write_eq [OF n assms(2) True, of b] assms(3)
    have "status = normalize_callback_status raw" "c = b'" by auto
    with w wr_sound [OF assms(1) n True assms(2)] wr_frame [OF assms(1) n True assms(2) w]
      wr_keeps [OF assms(1) n True assms(2) w]
    show ?thesis by auto
  next
    case inv: False
    with machine_write_invalid [OF n assms(2) inv, of b] assms(1,3) show ?thesis by simp
  qed
qed

lemma machine_read_total:
  assumes "ready b" "n \<le> capacity" "guest_range_is_valid m a n"
    "\<And>i. i < n \<Longrightarrow> reach b (a + of_nat i)"
  shows "dos_machine_read (Some m) b a (Some capacity) n = (DOS_MACHINE_OK, mem_read (mem b) a n)"
proof (cases "n = 0")
  case True
  then show ?thesis using bound_ops by (auto simp: dos_machine_read_def)
next
  case False
  then have n: "0 < n" by simp
  obtain raw d where r: "rd b (context_handle m) a capacity n = (raw, d)" by fastforce
  with rd_total [OF assms(1) n assms(3,2,4)] have "raw = 0" by simp
  with machine_read_eq [OF n assms(2,3), of b] rd_sound [OF assms(1) n assms(3,2)] r
  show ?thesis by simp
qed

lemma machine_write_total:
  assumes "ready b" "n \<le> length src" "guest_range_is_valid m a n"
    "\<And>i. i < n \<Longrightarrow> reach b (a + of_nat i)"
  shows "\<exists>b'. dos_machine_write (Some m) b a (Some src) n = (DOS_MACHINE_OK, b') \<and> ready b' \<and>
    reach b' = reach b \<and> mem b' = mem_write (mem b) a (take n src)"
proof -
  obtain status b' where w: "dos_machine_write (Some m) b a (Some src) n = (status, b')" by fastforce
  have "status = DOS_MACHINE_OK"
  proof (cases "n = 0")
    case True
    with w show ?thesis using bound_ops by (auto simp: dos_machine_write_def)
  next
    case False
    then have n: "0 < n" by simp
    from machine_write_eq [OF n assms(2,3), of b] wr_total [OF assms(1) n assms(3,2,4)] w
    show ?thesis by simp
  qed
  with machine_write_cases [OF assms(1,2) w] w show ?thesis by auto
qed

text \<open>The transaction contract of \<open>dos_machine_replace\<close>.\<close>

lemma machine_replace_cases:
  assumes ready: "ready b" and n: "n \<le> length src" "n \<le> capacity"
    and run: "dos_machine_replace (Some m) b a (Some src) (Some capacity) False n = (status, b')"
  shows "ready b' \<and> reach b' = reach b \<and> (\<forall>x. \<not> in_range a n x \<longrightarrow> mem b' x = mem b x) \<and>
    (status = DOS_MACHINE_OK \<longrightarrow> mem b' = mem_write (mem b) a (take n src)) \<and>
    (status \<noteq> DOS_MACHINE_OK \<and> status \<noteq> DOS_MACHINE_ROLLBACK_FAILED \<longrightarrow> mem b' = mem b)"
proof (cases "n = 0")
  case True
  with assms show ?thesis by (auto simp: dos_machine_replace_def)
next
  case False
  obtain s0 saved where r: "dos_machine_read (Some m) b a (Some capacity) n = (s0, saved)" by fastforce
  show ?thesis
  proof (cases "s0 = DOS_MACHINE_OK")
    case bad: False
    with False n run r ready show ?thesis by (auto simp: dos_machine_replace_def)
  next
    case True
    with r machine_read_sound [OF ready n(2)] have saved: "saved = mem_read (mem b) a n" by simp
    obtain s1 b1 where w: "dos_machine_write (Some m) b a (Some src) n = (s1, b1)" by fastforce
    note W = machine_write_cases [OF ready n(1) w]
    show ?thesis
    proof (cases "s1 = DOS_MACHINE_OK")
      case ok: True
      with False n run r w True W show ?thesis by (auto simp: dos_machine_replace_def)
    next
      case bad: False
      obtain s2 b2 where u: "dos_machine_write (Some m) b1 a (Some saved) n = (s2, b2)" by fastforce
      have ready1: "ready b1" and len: "n \<le> length saved" using W saved by simp_all
      note U = machine_write_cases [OF ready1 len u]
      have res: "b' = b2" "status = (if s2 = DOS_MACHINE_OK then s1 else DOS_MACHINE_ROLLBACK_FAILED)"
        using False n run r w u True bad by (auto simp: dos_machine_replace_def split: if_splits)
      have undone: "s2 = DOS_MACHINE_OK \<Longrightarrow> mem b2 = mem b"
        using U W saved mem_write_restores [of a n "mem b1" "mem b"] by simp
      show ?thesis
        using U W res undone bad by (auto split: if_splits)
    qed
  qed
qed

lemma machine_replace_total:
  assumes "ready b" "n \<le> length src" "n \<le> capacity" "guest_range_is_valid m a n"
    "\<And>i. i < n \<Longrightarrow> reach b (a + of_nat i)"
  shows "\<exists>b'. dos_machine_replace (Some m) b a (Some src) (Some capacity) False n = (DOS_MACHINE_OK, b') \<and>
    ready b' \<and> reach b' = reach b \<and> mem b' = mem_write (mem b) a (take n src)"
proof -
  obtain b1 where "dos_machine_write (Some m) b a (Some src) n = (DOS_MACHINE_OK, b1)" "ready b1"
    "reach b1 = reach b" "mem b1 = mem_write (mem b) a (take n src)"
    using machine_write_total [OF assms(1,2,4,5)] by blast
  with machine_read_total [OF assms(1,3,4,5)] assms(1-3) show ?thesis
    by (cases "n = 0") (auto simp: dos_machine_replace_def)
qed

subsection \<open>Segmented transfers\<close>

lemma read_far_loop_sound:
  assumes "ready b" "remaining \<le> capacity"
    "read_far_loop m b segment offset capacity remaining acc = (DOS_MACHINE_OK, data)"
  shows "data = acc @ far_bytes (mem b) (a20_enabled m) segment offset remaining"
  using assms(2,3)
proof (induction remaining arbitrary: offset capacity acc rule: less_induct)
  case (less remaining)
  show ?case
  proof (cases "remaining = 0")
    case True
    with less.prems show ?thesis by (simp add: read_far_loop.simps [where remaining = 0] far_bytes_def)
  next
    case False
    obtain chunk linear where c: "far_transfer_chunk (a20_enabled m) segment offset remaining = (chunk, linear)"
      by fastforce
    have pos: "0 < chunk" and le: "chunk \<le> remaining"
      using False far_transfer_chunk_pos [of remaining "a20_enabled m" segment offset]
        far_transfer_chunk_le [of "a20_enabled m" segment offset remaining] c by simp_all
    obtain status d where r: "dos_machine_read (Some m) b linear (Some capacity) chunk = (status, d)"
      by fastforce
    have ok: "status = DOS_MACHINE_OK"
      and rest: "read_far_loop m b segment (offset + of_nat chunk) (capacity - chunk)
        (remaining - chunk) (acc @ d) = (DOS_MACHINE_OK, data)"
      using less.prems(2) False c r
      by (auto simp: read_far_loop.simps [where remaining = remaining] split: if_splits)
    have "d = far_bytes (mem b) (a20_enabled m) segment offset chunk"
      using machine_read_sound(1) [OF assms(1) _ r [unfolded ok]] less.prems(1) le
        far_bytes_chunk [OF c] by simp
    with less.IH [OF _ _ rest] pos le less.prems(1)
    show ?thesis
      using far_bytes_append [of "mem b" "a20_enabled m" segment offset chunk "remaining - chunk"] by simp
  qed
qed

theorem machine_read_far_sound:
  assumes "ready b" "dos_machine_read_far (Some m) b segment offset (Some capacity) n = (DOS_MACHINE_OK, data)"
  shows "data = far_bytes (mem b) (a20_enabled m) segment offset n"
proof -
  have "n \<le> capacity" "read_far_loop m b segment offset capacity n [] = (DOS_MACHINE_OK, data)"
    using assms(2) bound_ops by (auto simp: dos_machine_read_far_def Let_def split: if_splits)
  with read_far_loop_sound [OF assms(1), of n capacity segment offset "[]" data] show ?thesis by simp
qed

lemma write_far_loop_sound:
  assumes "ready b" "remaining \<le> length input"
    "write_far_loop m b segment offset input remaining = (DOS_MACHINE_OK, b')"
  shows "mem b' = far_store (mem b) (a20_enabled m) segment offset (take remaining input)
    \<and> ready b' \<and> reach b' = reach b"
  using assms
proof (induction remaining arbitrary: offset input b rule: less_induct)
  case (less remaining)
  show ?case
  proof (cases "remaining = 0")
    case True
    with less.prems show ?thesis by (simp add: write_far_loop.simps [where remaining = 0])
  next
    case False
    obtain chunk linear where c: "far_transfer_chunk (a20_enabled m) segment offset remaining = (chunk, linear)"
      by fastforce
    have pos: "0 < chunk" and le: "chunk \<le> remaining"
      using False far_transfer_chunk_pos [of remaining "a20_enabled m" segment offset]
        far_transfer_chunk_le [of "a20_enabled m" segment offset remaining] c by simp_all
    obtain status b1 where w: "dos_machine_write (Some m) b linear (Some input) chunk = (status, b1)"
      by fastforce
    have ok: "status = DOS_MACHINE_OK"
      and rest: "write_far_loop m b1 segment (offset + of_nat chunk) (drop chunk input)
        (remaining - chunk) = (DOS_MACHINE_OK, b')"
      using less.prems(3) False c w
      by (auto simp: write_far_loop.simps [where remaining = remaining] split: if_splits)
    have len: "chunk \<le> length input" using less.prems(2) le by simp
    note W = machine_write_cases [OF less.prems(1) len w]
    have b1: "mem b1 = far_store (mem b) (a20_enabled m) segment offset (take chunk input)"
      using W ok far_store_chunk [OF c, of "take chunk input"] by simp
    have split: "take remaining input = take chunk input @ take (remaining - chunk) (drop chunk input)"
      using le by (metis le_add_diff_inverse take_add)
    have "mem b' = far_store (mem b1) (a20_enabled m) segment (offset + of_nat chunk)
        (take (remaining - chunk) (drop chunk input)) \<and> ready b' \<and> reach b' = reach b1"
      using less.IH [OF _ _ _ rest] W pos le less.prems(2) by simp
    then show ?thesis
      using W b1 len by (simp add: split far_store_append)
  qed
qed

theorem machine_write_far_sound:
  assumes "ready b" "dos_machine_write_far (Some m) b segment offset (Some src) n = (DOS_MACHINE_OK, b')"
  shows "mem b' = far_store (mem b) (a20_enabled m) segment offset (take n src)"
    and "ready b'" and "reach b' = reach b"
proof -
  have "n \<le> length src" "write_far_loop m b segment offset src n = (DOS_MACHINE_OK, b')"
    using assms(2) bound_ops by (auto simp: dos_machine_write_far_def Let_def split: if_splits)
  with write_far_loop_sound [OF assms(1), of n src segment offset b']
  show "mem b' = far_store (mem b) (a20_enabled m) segment offset (take n src)"
    and "ready b'" and "reach b' = reach b" by simp_all
qed

end

end
