(* ===== verification/McbProof.thy ===== *)
theory McbProof
  imports McbSpec GuestBackend
begin

text \<open>
  The operations of \<open>dos/memory.c\<close> refine the abstract arena of \<open>McbSpec\<close>, for every backend that
  keeps the contract \<open>guest_backend\<close>. Each lemma covers a backend that fails at any access: the
  operation then either leaves a well-formed arena with the same owned blocks or poisons the arena
  object. Where the paragraphs of the arena are reachable the operation does not fail.
\<close>

section \<open>Vocabulary of the simulation\<close>

definition same_outside :: "memory \<Rightarrow> memory \<Rightarrow> nat set \<Rightarrow> bool" where
  "same_outside mm mm' S \<longleftrightarrow> (\<forall>x. par_of x \<notin> S \<longrightarrow> mm' x = mm x)"

lemma same_outside_refl [simp]: "same_outside mm mm S"
  by (simp add: same_outside_def)

lemma same_outside_trans: "same_outside m1 m2 S \<Longrightarrow> same_outside m2 m3 S \<Longrightarrow> same_outside m1 m3 S"
  by (simp add: same_outside_def)

lemma same_outside_mono: "same_outside m1 m2 S \<Longrightarrow> S \<subseteq> T \<Longrightarrow> same_outside m1 m2 T"
  by (auto simp: same_outside_def)

lemma same_outside_par: "same_outside mm mm' S \<Longrightarrow> s \<notin> S \<Longrightarrow> par mm' s = par mm s"
  by (auto simp: same_outside_def intro: par_eqI)

lemma same_outside_chain:
  "same_outside mm mm' S \<Longrightarrow> headers s bs \<inter> S = {} \<Longrightarrow> chain (par mm') s bs = chain (par mm) s bs"
  by (rule chain_cong) (auto dest: same_outside_par)

lemma same_outside_links:
  "same_outside mm mm' S \<Longrightarrow> headers s bs \<inter> S = {} \<Longrightarrow> links (par mm') s bs = links (par mm) s bs"
  by (rule links_cong) (auto dest: same_outside_par)

text \<open>The paragraphs from \<open>lo\<close> below \<open>hi\<close> lie under the address limit and never fault.\<close>

definition paras_reachable :: "'b dos_machine \<Rightarrow> (u32 \<Rightarrow> bool) \<Rightarrow> nat \<Rightarrow> nat \<Rightarrow> bool" where
  "paras_reachable m reachable lo hi \<longleftrightarrow> (\<forall>s. lo \<le> s \<and> s < hi \<longrightarrow>
     guest_range_is_valid m (par_addr s) 16 \<and> (\<forall>i < 16. reachable (par_addr s + of_nat i)))"

lemma paras_reachable_mono:
  "paras_reachable m f lo hi \<Longrightarrow> lo \<le> lo' \<Longrightarrow> hi' \<le> hi \<Longrightarrow> paras_reachable m f lo' hi'"
  by (simp add: paras_reachable_def)

definition poisoned_arena :: "dos_memory_arena \<Rightarrow> dos_memory_arena" where
  "poisoned_arena arena = arena\<lparr>machine_poisoned := 1\<rparr>"

lemma poisoned_arena_idem [simp]: "poisoned_arena (poisoned_arena arena) = poisoned_arena arena"
  by (simp add: poisoned_arena_def)

definition seg :: "nat \<Rightarrow> u16" where
  "seg s = of_nat s"

lemma unat_segment [simp]: "s < 0x10000 \<Longrightarrow> unat (seg s) = s"
  by (simp add: seg_def unat_of_nat)

lemma seg_Suc: "seg (Suc (i + j)) = 1 + (of_nat i + of_nat j)"
  by (simp add: seg_def)

lemma seg_unat [simp]: "seg (unat w) = w"
  by (simp add: seg_def)

lemma far_paragraph:
  assumes "s < 0x10000"
  shows "dos_far_to_linear (seg s) 0 a20 = par_addr s"
proof -
  have "(push_bit 4 (ucast (seg s)) :: u32) = par_addr s"
    using assms by (simp add: par_addr_def seg_def push_bit_eq_mult word_unat_eq_iff unat_word_ariths unat_of_nat)
  moreover have "unat (par_addr s) < 0x100000"
    using assms unfolding par_addr_def by (simp add: unat_of_nat del: of_nat_mult)
  then have "par_addr s AND 0x000fffff = par_addr s"
    by (simp add: word_unat_eq_iff unat_low20)
  ultimately show ?thesis by (simp add: dos_far_to_linear_def Let_def)
qed

lemma paragraph_chunk:
  assumes "s < 0x10000"
  shows "far_transfer_chunk a20 (seg s) 0 16 = (16, par_addr s)"
proof -
  have "unat (par_addr s) = 16 * s"
    using assms unfolding par_addr_def by (simp add: unat_of_nat del: of_nat_mult)
  then show ?thesis
    using assms by (auto simp: far_transfer_chunk_def far_paragraph Let_def DOS_A20_WRAP_ADDRESS_def)
qed

lemma next_mcb_segment_ok:
  assumes "s + unat (mcb_size r) + 1 < 0x10000"
  shows "next_mcb_segment (seg s) r = Inr (seg (s + unat (mcb_size r) + 1))"
  using assms by (simp add: next_mcb_segment_def Let_def) (simp add: seg_def)

text \<open>The record of a block after it swallowed the block behind it.\<close>

definition merged_record :: "(nat \<Rightarrow> bytes) \<Rightarrow> nat \<Rightarrow> block \<Rightarrow> block \<Rightarrow> bytes" where
  "merged_record P s blk c = mcb_set_signature
     (mcb_set_size (P s) (seg (snd blk + snd c + 1))) (mcb_signature (P (s + snd blk + 1)))"

lemma chain_merge:
  assumes "chain P s (blk # c # bs)" "length (P s) = 16"
  shows "chain (P(s := merged_record P s blk c)) s ((fst blk, snd blk + snd c + 1) # bs)"
proof -
  let ?t = "s + snd blk + 1" and ?Q = "P(s := merged_record P s blk c)"
  have tail: "chain P ?t (c # bs)" and here: "block_at P s MCB_SIGNATURE_NORMAL blk"
    using assms(1) by auto
  have bound: "?t + span (c # bs) \<le> 0x10000" using chain_bound [OF tail] by simp
  have "s \<notin> headers (?t + snd c + 1) bs" using headers_range by fastforce
  then have "chain ?Q (?t + snd c + 1) bs" if "bs \<noteq> []"
    using tail that chain_update by simp
  moreover have "unat (seg (snd blk + snd c + 1)) = snd blk + snd c + 1"
    using bound by (intro unat_segment) simp
  ultimately show ?thesis
    using here tail bound assms(2)
    by (auto simp: block_at_def merged_record_def mcb_simps add_ac)
qed

text \<open>What coalescing may have done to the arena when it returns, and what it returns.\<close>

definition coalesced ::
  "memory \<Rightarrow> nat \<Rightarrow> block \<Rightarrow> block list \<Rightarrow> dos_memory_arena
     \<Rightarrow> dos_memory_status \<Rightarrow> dos_memory_arena \<Rightarrow> memory \<Rightarrow> bytes \<Rightarrow> bool" where
  "coalesced mm s blk bs arena status arena' mm' r' \<longleftrightarrow>
     same_outside mm mm' {s} \<and>
     (status = DOS_MEMORY_OK \<and> arena' = arena \<and> r' = par mm' s \<and>
        chain (par mm') s (fst (merge_free blk bs) # snd (merge_free blk bs)) \<or>
      status = DOS_MEMORY_MACHINE_FAULT \<and> arena' = arena \<and>
        (\<exists>pre post. bs = pre @ post \<and> (\<forall>c \<in> set pre. is_free c) \<and>
           chain (par mm') s ((fst blk, snd blk + span pre) # post)) \<or>
      status = DOS_MEMORY_MACHINE_POISONED \<and> arena' = poisoned_arena arena)"

lemma coalesced_fault:
  assumes "chain (par mm) s (blk # bs)"
  shows "coalesced mm s blk bs arena DOS_MEMORY_MACHINE_FAULT arena mm r"
  using assms unfolding coalesced_def
  by (intro conjI disjI2 disjI1 exI [of _ "[]"] exI [of _ bs]) simp_all

lemma coalesced_poison:
  "same_outside mm mm' {s} \<Longrightarrow>
     coalesced mm s blk bs arena DOS_MEMORY_MACHINE_POISONED (poisoned_arena arena) mm' r"
  by (simp add: coalesced_def)

lemma coalesced_step:
  assumes "coalesced mm1 s (fst blk, snd blk + snd c + 1) bs arena status arena' mm' r'"
    and "same_outside mm mm1 {s}" and "is_free c"
  shows "coalesced mm s blk (c # bs) arena status arena' mm' r'"
proof -
  have "\<exists>pre' post'. c # bs = pre' @ post' \<and> (\<forall>c \<in> set pre'. is_free c) \<and>
      chain (par mm') s ((fst blk, snd blk + span pre') # post')"
    if "bs = pre @ post" "\<forall>c \<in> set pre. is_free c"
      "chain (par mm') s ((fst blk, snd blk + snd c + 1 + span pre) # post)" for pre post
    using that assms(3) by (intro exI [of _ "c # pre"] exI [of _ post]) (simp add: add_ac)
  then have "\<exists>pre post. bs = pre @ post \<and> (\<forall>c \<in> set pre. is_free c) \<and>
        chain (par mm') s ((fst blk, snd blk + snd c + 1 + span pre) # post) \<Longrightarrow>
      \<exists>pre post. c # bs = pre @ post \<and> (\<forall>c \<in> set pre. is_free c) \<and>
        chain (par mm') s ((fst blk, snd blk + span pre) # post)" by blast
  moreover have "same_outside mm mm' {s}"
    using assms(1) same_outside_trans [OF assms(2)] by (simp add: coalesced_def)
  ultimately show ?thesis
    using assms(1) unfolding coalesced_def fst_conv snd_conv merge_free.simps if_P [OF assms(3)]
    by (elim conjE disjE) blast+
qed

section \<open>One record\<close>

context guest_backend
begin

lemma read_record_cases:
  assumes "ready b" "s < 0x10000"
  shows "read_record_bytes m b (seg s) = Inr (par (mem b) s) \<or>
    read_record_bytes m b (seg s) = Inl DOS_MEMORY_MACHINE_FAULT"
proof -
  obtain status data where
    r: "dos_machine_read_far (Some m) b (seg s) 0 (Some 16) 16 = (status, data)" by fastforce
  show ?thesis
  proof (cases "status = DOS_MACHINE_OK")
    case True
    with machine_read_far_sound [OF assms(1), of "seg s" 0 16 16 data] r
    have "data = mem_read (mem b) (par_addr s) 16"
      using far_bytes_chunk [OF paragraph_chunk [OF assms(2)]] by simp
    with True r assms(2) show ?thesis
      by (simp add: read_record_bytes_def MCB_BYTES_def par_def)
  qed (use r in \<open>simp add: read_record_bytes_def MCB_BYTES_def\<close>)
qed

lemma read_record_total:
  assumes "ready b" "s < 0x10000" "paras_reachable m (reach b) s (Suc s)"
  shows "read_record_bytes m b (seg s) = Inr (par (mem b) s)"
proof -
  have valid: "guest_range_is_valid m (par_addr s) 16"
    and r: "\<And>i. i < 16 \<Longrightarrow> reach b (par_addr s + of_nat i)"
    using assms(3) by (auto simp: paras_reachable_def)
  have read: "dos_machine_read (Some m) b (par_addr s) (Some 16) 16
      = (DOS_MACHINE_OK, mem_read (mem b) (par_addr s) 16)"
    using machine_read_total [OF assms(1) _ valid r] by simp
  have "validate_far_loop m (seg s) 0 16 = DOS_MACHINE_OK"
    using valid by (simp add: validate_far_loop.simps [where remaining = 16]
        validate_far_loop.simps [where remaining = 0] paragraph_chunk [OF assms(2)])
  moreover have "read_far_loop m b (seg s) 0 16 16 [] = (DOS_MACHINE_OK, mem_read (mem b) (par_addr s) 16)"
    using read by (simp add: read_far_loop.simps [where remaining = 16]
        read_far_loop.simps [where remaining = 0] paragraph_chunk [OF assms(2)])
  ultimately show ?thesis
    using bound_ops limit assms(2)
    by (auto simp: read_record_bytes_def MCB_BYTES_def dos_machine_read_far_def
        dos_machine_validate_far_def par_def)
qed

lemma read_mcb_cases:
  assumes "ready b" "block_at (par (mem b)) s sig blk"
    "sig = MCB_SIGNATURE_NORMAL \<or> sig = MCB_SIGNATURE_END"
  shows "read_mcb m b (seg s) = Inr (par (mem b) s) \<or>
      read_mcb m b (seg s) = Inl DOS_MEMORY_MACHINE_FAULT"
    and "paras_reachable m (reach b) s (Suc s) \<Longrightarrow> read_mcb m b (seg s) = Inr (par (mem b) s)"
proof -
  have s: "s < 0x10000" using assms(2) by (simp add: block_at_def)
  have ok: "mcb_signature_is_valid (par (mem b) s)" "mcb_extent_is_valid (seg s) (par (mem b) s)"
    using assms(2,3) s by (auto simp: block_at_def mcb_signature_is_valid_def mcb_extent_is_valid_def)
  show "read_mcb m b (seg s) = Inr (par (mem b) s) \<or>
      read_mcb m b (seg s) = Inl DOS_MEMORY_MACHINE_FAULT"
    using read_record_cases [OF assms(1) s] ok by (auto simp: read_mcb_def)
  show "read_mcb m b (seg s) = Inr (par (mem b) s)" if "paras_reachable m (reach b) s (Suc s)"
    using read_record_total [OF assms(1) s that] ok by (simp add: read_mcb_def)
qed

lemma chain_read_mcb:
  assumes "ready b" "chain (par (mem b)) s (blk # bs)"
  shows "read_mcb m b (seg s) = Inr (par (mem b) s) \<or>
      read_mcb m b (seg s) = Inl DOS_MEMORY_MACHINE_FAULT"
    and "paras_reachable m (reach b) s (Suc s) \<Longrightarrow> read_mcb m b (seg s) = Inr (par (mem b) s)"
  using read_mcb_cases [OF assms(1), of s "if bs = [] then MCB_SIGNATURE_END else MCB_SIGNATURE_NORMAL" blk]
    assms(2) by (auto split: if_splits)

lemma replace_record_cases:
  assumes "ready b" "s < 0x10000" "length r = 16"
    "replace_record_bytes arena m b (seg s) r = (status, arena', b')"
  shows "ready b' \<and> reach b' = reach b \<and> same_outside (mem b) (mem b') {s} \<and>
    (status = DOS_MEMORY_OK \<and> arena' = arena \<and> par (mem b') = (par (mem b))(s := r) \<or>
     status = DOS_MEMORY_MACHINE_FAULT \<and> arena' = arena \<and> mem b' = mem b \<or>
     status = DOS_MEMORY_MACHINE_POISONED \<and> arena' = poisoned_arena arena)"
proof -
  obtain st c where run: "dos_machine_replace (Some m) b (par_addr s) (Some r) (Some 16) False 16 = (st, c)"
    by fastforce
  note R = machine_replace_cases [OF assms(1) _ _ run]
  have c: "c = b'" using assms(4) run
    by (auto simp: replace_record_bytes_def far_paragraph [OF assms(2)] MCB_BYTES_def split: if_splits)
  have frame: "same_outside (mem b) (mem c) {s}"
    using R assms(2,3) by (auto simp: same_outside_def in_range_par_addr)
  show ?thesis
    using R assms run frame par_write [OF assms(2,3), of "mem b"]
    by (auto simp: replace_record_bytes_def far_paragraph [OF assms(2)] MCB_BYTES_def
        poisoned_arena_def split: if_splits)
qed

lemma replace_record_total:
  assumes "ready b" "s < 0x10000" "length r = 16" "paras_reachable m (reach b) s (Suc s)"
    "replace_record_bytes arena m b (seg s) r = (status, arena', b')"
  shows "status = DOS_MEMORY_OK"
proof -
  have valid: "guest_range_is_valid m (par_addr s) 16"
    and r: "\<And>i. i < 16 \<Longrightarrow> reach b (par_addr s + of_nat i)"
    using assms(4) by (auto simp: paras_reachable_def)
  obtain c where run: "dos_machine_replace (Some m) b (par_addr s) (Some r) (Some 16) False 16
      = (DOS_MACHINE_OK, c)"
    using machine_replace_total [OF assms(1) _ _ valid r, of r 16] assms(3) by fastforce
  show ?thesis
    using assms(5) unfolding replace_record_bytes_def far_paragraph [OF assms(2)] MCB_BYTES_def run
    by simp
qed

section \<open>Coalescing\<close>

lemma coalesce_loop_unfold:
  assumes "ready b" "chain (par (mem b)) s (blk # c # bs)"
  shows "coalesce_loop (Suc k) arena m b (seg s) (par (mem b) s) =
    (case read_mcb m b (seg (s + snd blk + 1)) of
       Inl status \<Rightarrow> (status, arena, b, par (mem b) s)
     | Inr following \<Rightarrow>
         if \<not> is_free c then (DOS_MEMORY_OK, arena, b, par (mem b) s)
         else (let r' = merged_record (par (mem b)) s blk c;
                   (status, arena', b') = replace_record_bytes arena m b (seg s) r'
               in if status \<noteq> DOS_MEMORY_OK then (status, arena', b', r')
                  else coalesce_loop k arena' m b' (seg s) r'))"
proof -
  let ?P = "par (mem b)" and ?t = "s + snd blk + 1"
  have here: "block_at ?P s MCB_SIGNATURE_NORMAL blk" and tail: "chain ?P ?t (c # bs)"
    using assms(2) by auto
  have bound: "?t + span (c # bs) \<le> 0x10000" using chain_bound [OF tail] by simp
  have nxt: "next_mcb_segment (seg s) (?P s) = Inr (seg ?t)"
    using next_mcb_segment_ok [of s "?P s"] here bound by (simp add: block_at_def)
  have c: "mcb_owner (?P ?t) = fst c" "unat (mcb_size (?P ?t)) = snd c" using tail by (auto simp: block_at_def)
  have cases: "read_mcb m b (seg ?t) = Inr (?P ?t) \<or>
      read_mcb m b (seg ?t) = Inl DOS_MEMORY_MACHINE_FAULT"
    using chain_read_mcb [OF assms(1) tail] by blast
  show ?thesis
    using cases
  proof
    assume rd: "read_mcb m b (seg ?t) = Inr (?P ?t)"
    show ?thesis unfolding coalesce_loop.simps [where steps = "Suc k"]
      using rd here nxt c bound
      by (simp add: block_at_def is_free_def merged_record_def Let_def case_prod_beta seg_Suc)
  next
    assume rd: "read_mcb m b (seg ?t) = Inl DOS_MEMORY_MACHINE_FAULT"
    show ?thesis unfolding coalesce_loop.simps [where steps = "Suc k"]
      using rd here nxt by (simp add: block_at_def)
  qed
qed

lemma coalesce_loop_refines:
  assumes "ready b" "chain (par (mem b)) s (blk # bs)" "length bs \<le> steps"
    "coalesce_loop steps arena m b (seg s) (par (mem b) s) = (status, arena', b', r')"
  shows "ready b' \<and> reach b' = reach b \<and> coalesced (mem b) s blk bs arena status arena' (mem b') r' \<and>
    (paras_reachable m (reach b) s (s + span (blk # bs)) \<longrightarrow> status = DOS_MEMORY_OK)"
  using assms
proof (induction bs arbitrary: blk steps b)
  case Nil
  then have "mcb_signature (par (mem b) s) = MCB_SIGNATURE_END" by (simp add: block_at_def)
  with Nil show ?case by (auto simp: coalesce_loop.simps [where steps = steps] coalesced_def)
next
  case (Cons c bs)
  let ?P = "par (mem b)" and ?t = "s + snd blk + 1"
  let ?r = "merged_record ?P s blk c"
  obtain k where k: "steps = Suc k" using Cons.prems(3) by (cases steps) auto
  have tail: "chain ?P ?t (c # bs)" using Cons.prems(2) by auto
  have s: "s < 0x10000" using chain_bound [OF Cons.prems(2)] by simp
  then have len: "length (?P s) = 16" by (rule length_par)
  have there: "read_mcb m b (seg ?t) = Inr (?P ?t) \<or> read_mcb m b (seg ?t) = Inl DOS_MEMORY_MACHINE_FAULT"
    and there_ok: "paras_reachable m (reach b) s (s + span (blk # c # bs)) \<Longrightarrow> read_mcb m b (seg ?t) = Inr (?P ?t)"
    using chain_read_mcb [OF Cons.prems(1) tail]
      paras_reachable_mono [of m "reach b" s "s + span (blk # c # bs)" ?t "Suc ?t"] by auto
  note run = Cons.prems(4) [unfolded k coalesce_loop_unfold [OF Cons.prems(1,2)]]
  show ?case
  proof (cases "read_mcb m b (seg ?t)")
    case (Inl st)
    with there there_ok run Cons.prems(1,2) show ?thesis by (auto intro: coalesced_fault)
  next
    case (Inr following)
    obtain st1 arena1 b1 where rep: "replace_record_bytes arena m b (seg s) ?r = (st1, arena1, b1)"
      by (metis prod_cases3)
    have rlen: "length ?r = 16" using len by (simp add: merged_record_def mcb_simps)
    note R = replace_record_cases [OF Cons.prems(1) s rlen rep]
    consider (kept) "\<not> is_free c" | (bad) "is_free c" "st1 \<noteq> DOS_MEMORY_OK"
      | (ok) "is_free c" "st1 = DOS_MEMORY_OK" by blast
    then show ?thesis
    proof cases
      case kept
      with Inr run Cons.prems(1,2) show ?thesis by (auto simp: coalesced_def)
    next
      case bad
      then have res: "status = st1" "arena' = arena1" "b' = b1" using Inr run rep by simp_all
      have "\<not> paras_reachable m (reach b) s (s + span (blk # c # bs))"
        using bad replace_record_total [OF Cons.prems(1) s rlen _ rep]
          paras_reachable_mono [of m "reach b" s "s + span (blk # c # bs)" s "Suc s"] by auto
      with bad R res coalesced_fault [OF Cons.prems(2)]
        coalesced_poison [of "mem b" "mem b1" s blk "c # bs"] show ?thesis by auto
    next
      case ok
      with R have b1: "ready b1" "par (mem b1) = ?P(s := ?r)" "arena1 = arena" "reach b1 = reach b"
        "same_outside (mem b) (mem b1) {s}" by auto
      with chain_merge [OF Cons.prems(2) len]
      have merged: "chain (par (mem b1)) s ((fst blk, snd blk + snd c + 1) # bs)" by simp
      have "coalesce_loop k arena m b1 (seg s) (par (mem b1) s) = (status, arena', b', r')"
        using run Inr ok rep b1 by simp
      from Cons.IH [OF b1(1) merged _ this] Cons.prems(3) k b1 ok
        coalesced_step [of "mem b1" s blk c bs arena status arena' "mem b'" r' "mem b"]
      show ?thesis by (simp add: add.assoc)
    qed
  qed
qed

end

end
