(* ===== verification/McbAlloc.thy ===== *)
theory McbAlloc
  imports McbProof
begin

text \<open>
  Allocation refines the abstract arena: the walk that merges free neighbours and collects the
  candidates of the three strategies, the two-record split with its unwinding, and the two
  allocators built on them.
\<close>

section \<open>The candidates of a walk\<close>

definition consider_all :: "u16 \<Rightarrow> (nat \<times> nat) list \<Rightarrow> allocation_candidates \<Rightarrow> allocation_candidates" where
  "consider_all requested fbs = fold (\<lambda>(t, n). consider_block requested (seg t) (seg n)) fbs"

definition largest :: "(nat \<times> nat) list \<Rightarrow> nat" where
  "largest fbs = foldr max (map snd fbs) 0"

lemma largest_snoc [simp]: "largest (fbs @ [x]) = max (largest fbs) (snd x)"
  unfolding largest_def by (induction fbs) auto

lemma largest_Nil [simp]: "largest [] = 0"
  by (simp add: largest_def)

lemma largest_ge: "x \<in> set fbs \<Longrightarrow> snd x \<le> largest fbs"
  unfolding largest_def by (induction fbs) auto

lemma largest_bound: "(\<And>x. x \<in> set fbs \<Longrightarrow> snd x < k) \<Longrightarrow> 0 < k \<Longrightarrow> largest fbs < k"
  unfolding largest_def by (induction fbs) auto

lemma best_of_snoc:
  "xs \<noteq> [] \<Longrightarrow> best_of (xs @ [y]) = (if snd y < snd (best_of xs) then y else best_of xs)"
  by (induction xs rule: best_of.induct) auto

lemma seg_less_iff: "i < 0x10000 \<Longrightarrow> j < 0x10000 \<Longrightarrow> seg i < seg j \<longleftrightarrow> i < j"
  by (simp add: word_less_nat_alt)

lemma seg_le_iff: "i < 0x10000 \<Longrightarrow> seg i \<ge> w \<longleftrightarrow> unat w \<le> i"
  by (simp add: word_le_nat_alt)

lemma consider_all_spec:
  fixes requested :: u16
  assumes "\<And>t n. (t, n) \<in> set fbs \<Longrightarrow> n < 0x10000"
  defines "c \<equiv> consider_all requested fbs no_candidates"
  shows "cand_found c = (fits (unat requested) fbs \<noteq> []) \<and>
    (fits (unat requested) fbs \<noteq> [] \<longrightarrow>
       cand_first c = seg (fst (hd (fits (unat requested) fbs))) \<and>
       cand_best c = seg (fst (best_of (fits (unat requested) fbs))) \<and>
       cand_best_size c = seg (snd (best_of (fits (unat requested) fbs))) \<and>
       cand_last c = seg (fst (last (fits (unat requested) fbs)))) \<and>
    cand_maximum c = seg (largest fbs)"
  using assms(1) unfolding c_def
proof (induction fbs rule: rev_induct)
  case Nil
  then show ?case by (simp add: consider_all_def fits_def no_candidates_def seg_def)
next
  case (snoc x fbs)
  obtain t n where x: "x = (t, n)" by fastforce
  let ?c = "consider_all requested fbs no_candidates" and ?F = "fits (unat requested) fbs"
  have n: "n < 0x10000" and old: "\<And>y. y \<in> set fbs \<Longrightarrow> snd y < 0x10000"
    using snoc.prems x by fastforce+
  have IH: "cand_found ?c = (?F \<noteq> [])" "cand_maximum ?c = seg (largest fbs)"
    "?F \<noteq> [] \<Longrightarrow> cand_first ?c = seg (fst (hd ?F)) \<and> cand_best ?c = seg (fst (best_of ?F)) \<and>
       cand_best_size ?c = seg (snd (best_of ?F)) \<and> cand_last ?c = seg (fst (last ?F))"
    using snoc.IH snoc.prems by auto
  have best: "snd (best_of ?F) < 0x10000" if "?F \<noteq> []"
    using best_of_in [OF that] old by (auto simp: fits_def)
  have big: "largest fbs < 0x10000" using largest_bound old by simp
  have step: "consider_all requested (fbs @ [x]) no_candidates = consider_block requested (seg t) (seg n) ?c"
    by (simp add: consider_all_def x)
  have F: "fits (unat requested) (fbs @ [x]) = (if unat requested \<le> n then ?F @ [x] else ?F)"
    by (simp add: fits_def x)
  show ?case
    unfolding step F using IH n best big
    by (cases "?F = []") (auto simp: consider_block_def Let_def seg_le_iff seg_less_iff x best_of_snoc max_def)
qed

lemma free_blocks_bound:
  assumes "(t, n) \<in> set (free_blocks s bs)"
  shows "s \<le> t \<and> t + n < s + span bs"
  using free_blocks_split [OF assms] by auto

section \<open>Helper facts on chains\<close>

lemma chain_next:
  assumes "chain P s (blk # bs)" "bs \<noteq> []"
  shows "next_mcb_segment (seg s) (P s) = Inr (seg (s + snd blk + 1))"
proof -
  have "chain P (s + snd blk + 1) bs" using assms by simp
  then have "s + snd blk + 1 < 0x10000" using chain_bound by blast
  then show ?thesis
    using next_mcb_segment_ok [of s "P s"] assms(1) by (simp add: block_at_def)
qed

lemma chain_head:
  assumes "chain P s (blk # bs)"
  shows "mcb_owner (P s) = fst blk" "mcb_size (P s) = seg (snd blk)"
    "mcb_signature (P s) = MCB_SIGNATURE_END \<longleftrightarrow> bs = []"
  using assms seg_unat [of "mcb_size (P s)"] by (auto simp: block_at_def)

lemma chain_Cons_lift:
  assumes "chain P s (blk # bs)" "bs \<noteq> []" "Q s = P s" "chain Q (s + snd blk + 1) cs"
  shows "chain Q s (blk # cs)"
  using assms by (cases cs) (auto simp: block_at_def)

lemma merges_run:
  assumes "is_free blk" "\<forall>c \<in> set pre. is_free c"
  shows "merges (blk # pre @ post) ((fst blk, snd blk + span pre) # post)"
  using assms
proof (induction pre arbitrary: blk)
  case (Cons c pre)
  have "merges (blk # c # pre @ post) ([] @ (fst blk, snd blk + snd c + 1) # pre @ post)"
    using Cons.prems by (intro merges_step) (auto intro: merges_refl)
  moreover have "merges ((fst blk, snd blk + snd c + 1) # pre @ post)
      ((fst blk, snd blk + snd c + 1 + span pre) # post)"
    using Cons.IH [of "(fst blk, snd blk + snd c + 1)"] Cons.prems by (simp add: is_free_def)
  ultimately show ?case using merges_trans by (fastforce simp: add_ac)
qed (simp add: merges_refl)

section \<open>The walk\<close>

definition walked ::
  "memory \<Rightarrow> nat \<Rightarrow> block list \<Rightarrow> dos_memory_arena \<Rightarrow> u16 \<Rightarrow> allocation_candidates
     \<Rightarrow> dos_memory_status \<Rightarrow> dos_memory_arena \<Rightarrow> memory \<Rightarrow> allocation_candidates \<Rightarrow> bool" where
  "walked mm s bs arena requested c status arena' mm' c' \<longleftrightarrow>
     same_outside mm mm' (free_paras s bs) \<and>
     (status = DOS_MEMORY_OK \<and> arena' = arena \<and> chain (par mm') s (defrag bs) \<and>
        c' = consider_all requested (free_blocks s (defrag bs)) c \<or>
      status = DOS_MEMORY_MACHINE_FAULT \<and> arena' = arena \<and>
        (\<exists>cs. merges bs cs \<and> chain (par mm') s cs) \<or>
      status = DOS_MEMORY_MACHINE_POISONED \<and> arena' = poisoned_arena arena)"

lemma walked_owned:
  assumes "walked mm (s + snd blk + 1) bs arena requested c status arena' mm' c'"
    and "\<not> is_free blk" "chain (par mm) s (blk # bs)" "bs \<noteq> []"
  shows "walked mm s (blk # bs) arena requested c status arena' mm' c'"
proof -
  have "par mm' s = par mm s"
    using assms(1) free_paras_range [of s "s + snd blk + 1" bs]
    by (intro same_outside_par [of mm mm' "free_paras (s + snd blk + 1) bs"]) (auto simp: walked_def)
  note lift = chain_Cons_lift [where Q = "par mm'", OF assms(3,4) this]
  have "\<exists>cs. merges (blk # bs) cs \<and> chain (par mm') s cs"
    if "merges bs cs" "chain (par mm') (s + snd blk + 1) cs" for cs
    using lift [OF that(2)] merges_mono [OF that(1), of "[blk]"]
    by (intro exI [of _ "blk # cs"]) simp
  with assms(1,2) lift [of "defrag bs"] show ?thesis
    by (auto simp: walked_def simp del: chain.simps)
qed

lemma walked_free:
  assumes "walked mm1 (s + snd blk' + 1) bs' arena requested (consider_block requested (seg s) (seg (snd blk')) c)
      status arena' mm' c'"
    and "is_free blk" "merge_free blk bs = (blk', bs')" "chain (par mm1) s (blk' # bs')" "bs' \<noteq> []"
    and "same_outside mm mm1 {s}"
  shows "walked mm s (blk # bs) arena requested c status arena' mm' c'"
proof -
  note keep = merges_keeps [OF merges_merge_free [OF assms(2,3)], of s]
  have free': "is_free blk'" using merge_free_owner [OF assms(3)] assms(2) by (simp add: is_free_def)
  have paras: "free_paras s (blk # bs) = {s..s + snd blk'} \<union> free_paras (s + snd blk' + 1) bs'"
    using keep free' by simp
  have "par mm' s = par mm1 s"
    using assms(1) free_paras_range [of s "s + snd blk' + 1" bs']
    by (intro same_outside_par [of mm1 mm' "free_paras (s + snd blk' + 1) bs'"]) (auto simp: walked_def)
  note lift = chain_Cons_lift [where Q = "par mm'", OF assms(4,5) this]
  have "\<exists>cs. merges (blk # bs) cs \<and> chain (par mm') s cs"
    if "merges bs' cs" "chain (par mm') (s + snd blk' + 1) cs" for cs
    using lift [OF that(2)] merges_trans [OF merges_mono [OF that(1), of "[blk']"]]
      merges_merge_free [OF assms(2,3)] by (intro exI [of _ "blk' # cs"]) simp
  moreover have "same_outside mm mm' (free_paras s (blk # bs))"
    using assms(1,6) unfolding paras walked_def by (auto simp: same_outside_def)
  ultimately show ?thesis
    using assms(1-3) lift [of "defrag bs'"] free'
    by (auto simp: walked_def consider_all_def simp del: chain.simps)
qed

lemma walked_coalesce_failed:
  assumes "coalesced mm s blk bs arena status arena' mm' r" "is_free blk" "status \<noteq> DOS_MEMORY_OK"
  shows "walked mm s (blk # bs) arena requested c status arena' mm' c"
proof -
  have sub: "same_outside mm mm' (free_paras s (blk # bs))"
    using assms(1,2) by (auto simp: coalesced_def intro: same_outside_mono)
  show ?thesis
  proof (cases "status = DOS_MEMORY_MACHINE_FAULT")
    case True
    then obtain pre post where "bs = pre @ post" "\<forall>c \<in> set pre. is_free c"
      "chain (par mm') s ((fst blk, snd blk + span pre) # post)" "arena' = arena"
      using assms(1) by (auto simp: coalesced_def)
    with sub True merges_run [OF assms(2), of pre post] show ?thesis by (auto simp: walked_def)
  next
    case False
    with assms sub show ?thesis by (auto simp: walked_def coalesced_def)
  qed
qed

context guest_backend
begin

lemma coalesce_forward_refines:
  assumes "ready b" "chain (par (mem b)) s (blk # bs)"
    "coalesce_forward arena m b (seg s) (par (mem b) s) = (status, arena', b', r')"
  shows "ready b' \<and> reach b' = reach b \<and> coalesced (mem b) s blk bs arena status arena' (mem b') r' \<and>
    (paras_reachable m (reach b) s (s + span (blk # bs)) \<longrightarrow> status = DOS_MEMORY_OK)"
  using coalesce_loop_refines [OF assms(1,2) _ assms(3) [unfolded coalesce_forward_def]]
    chain_length [OF assms(2)]
  by (simp add: MCB_MAXIMUM_WALK_def)

lemma find_loop_refines:
  assumes "ready b" "chain (par (mem b)) s bs" "length bs \<le> steps"
    "find_loop steps arena m b requested (seg s) c = (status, arena', b', c')"
  shows "ready b' \<and> reach b' = reach b \<and> walked (mem b) s bs arena requested c status arena' (mem b') c' \<and>
    (paras_reachable m (reach b) s (s + span bs) \<longrightarrow> status = DOS_MEMORY_OK)"
  using assms
proof (induction "length bs" arbitrary: bs s b c steps rule: less_induct)
  case less
  obtain blk tl where bs: "bs = blk # tl" using less.prems(2) by (cases bs) auto
  obtain k where k: "steps = Suc k" using less.prems(3) bs by (cases steps) auto
  let ?P = "par (mem b)"
  note ch = less.prems(2) [unfolded bs]
  have here: "read_mcb m b (seg s) = Inr (?P s) \<or> read_mcb m b (seg s) = Inl DOS_MEMORY_MACHINE_FAULT"
    and here_ok: "paras_reachable m (reach b) s (s + span bs) \<Longrightarrow> read_mcb m b (seg s) = Inr (?P s)"
    using chain_read_mcb [OF less.prems(1) ch]
      paras_reachable_mono [of m "reach b" s "s + span bs" s "Suc s"] bs by auto
  note run = less.prems(4) [unfolded k find_loop.simps]
  consider (fault) "read_mcb m b (seg s) = Inl DOS_MEMORY_MACHINE_FAULT"
    | (owned) "read_mcb m b (seg s) = Inr (?P s)" "\<not> is_free blk"
    | (free) "read_mcb m b (seg s) = Inr (?P s)" "is_free blk" using here by blast
  then show ?case
  proof cases
    case fault
    with run less.prems(1,2) here_ok show ?thesis by (auto simp: walked_def intro: merges_refl)
  next
    case owned
    then have go: "(if tl = [] then (DOS_MEMORY_OK, arena, b, c)
        else find_loop k arena m b requested (seg (s + snd blk + 1)) c) = (status, arena', b', c')"
      using run chain_head [OF ch] chain_next [OF ch] by (auto simp: is_free_def split: if_splits)
    show ?thesis
    proof (cases "tl = []")
      case True
      with go owned less.prems(1,2) bs show ?thesis by (auto simp: walked_def consider_all_def)
    next
      case False
      with go have rest: "find_loop k arena m b requested (seg (s + snd blk + 1)) c = (status, arena', b', c')"
        by simp
      have "paras_reachable m (reach b) s (s + span bs) \<Longrightarrow>
          paras_reachable m (reach b) (s + snd blk + 1) (s + snd blk + 1 + span tl)"
        using bs by (auto elim: paras_reachable_mono)
      with less.hyps [OF _ less.prems(1) _ _ rest] bs k ch False less.prems(3) owned
      show ?thesis by (auto intro: walked_owned)
    qed
  next
    case free
    obtain st1 arena1 b1 r1 where co: "coalesce_forward arena m b (seg s) (?P s) = (st1, arena1, b1, r1)"
      by (metis prod_cases4)
    note C = coalesce_forward_refines [OF less.prems(1) ch co]
    obtain blk' bs' where mf: "merge_free blk tl = (blk', bs')" by fastforce
    show ?thesis
    proof (cases "st1 = DOS_MEMORY_OK")
      case False
      with run free co chain_head [OF ch] have "status = st1" "arena' = arena1" "b' = b1" "c' = c"
        by (auto simp: is_free_def split: if_splits)
      with C False free(2) bs show ?thesis by (auto intro: walked_coalesce_failed)
    next
      case True
      with C mf have ch1: "chain (par (mem b1)) s (blk' # bs')" and r1: "r1 = par (mem b1) s" "arena1 = arena"
        and so: "same_outside (mem b) (mem b1) {s}" by (auto simp: coalesced_def)
      let ?c = "consider_block requested (seg s) (seg (snd blk')) c"
      have go: "(if bs' = [] then (DOS_MEMORY_OK, arena, b1, ?c)
          else find_loop k arena m b1 requested (seg (s + snd blk' + 1)) ?c) = (status, arena', b', c')"
        using run free co chain_head [OF ch] chain_head [OF ch1] chain_next [OF ch1] True r1
        by (auto simp: is_free_def split: if_splits)
      note spans = merge_free_span [OF mf] and own = merge_free_owner [OF mf]
      show ?thesis
      proof (cases "bs' = []")
        case end': True
        have "same_outside (mem b) (mem b1) (free_paras s bs)"
          using so free(2) bs by (auto intro: same_outside_mono)
        with end' go C ch1 mf free(2) bs own show ?thesis
          by (auto simp: walked_def consider_all_def is_free_def)
      next
        case more: False
        with go have rest: "find_loop k arena m b1 requested (seg (s + snd blk' + 1)) ?c
            = (status, arena', b', c')" by simp
        have "length bs' < length bs" using merge_free_length [of blk tl] mf bs by simp
        moreover have "paras_reachable m (reach b) s (s + span bs) \<Longrightarrow>
            paras_reachable m (reach b) (s + snd blk' + 1) (s + snd blk' + 1 + span bs')"
          using bs spans by (auto elim: paras_reachable_mono)
        ultimately show ?thesis
          using less.hyps [OF _ _ _ _ rest] C ch1 more k less.prems(3)
            walked_free [OF _ free(2) mf ch1 more so] bs by auto
      qed
    qed
  qed
qed

end

end
