(* ===== verification/McbSplit.thy ===== *)
theory McbSplit
  imports McbAlloc
begin

text \<open>
  The two-record split, the low and the high allocator and the complete allocation. A failing
  backend either leaves the arena as it was before the split or poisons it.
\<close>

section \<open>Memory after a split\<close>

lemma par_restored:
  assumes "same_outside mm mm' {t}" "par mm' t = par mm t" "t < 0x10000"
  shows "mm' = mm"
proof
  fix x
  show "mm' x = mm x"
  proof (cases "par_of x = t")
    case True
    then have r: "in_range (par_addr t) 16 x" using in_range_par_addr [OF assms(3)] by simp
    define i where "i = unat (x - par_addr t)"
    have "i < 16" "x = par_addr t + of_nat i" using r by (auto simp: in_range_def i_def)
    with assms(2,3) show ?thesis
      by (metis (no_types, lifting) nth_mem_read par_def)
  qed (use assms(1) in \<open>simp add: same_outside_def\<close>)
qed

lemma chain_split_low:
  assumes "chain P s (blk # bs)" "requested < snd blk" "length (P s) = 16"
    "length cur = 16" "length rest = 16"
    "mcb_signature cur = MCB_SIGNATURE_NORMAL" "mcb_owner cur = owner" "mcb_size cur = seg requested"
    "mcb_signature rest = mcb_signature (P s)" "mcb_owner rest = MCB_OWNER_FREE"
    "mcb_size rest = seg (snd blk - requested - 1)"
  shows "chain (P(s + requested + 1 := rest, s := cur)) s (split_low owner requested (snd blk) @ bs)"
proof -
  let ?t = "s + requested + 1" and ?Q = "P(s + requested + 1 := rest, s := cur)"
  have bound: "s + snd blk \<le> 0xffff" using assms(1) by (simp add: block_at_def)
  have end_seg: "?t + (snd blk - requested - 1) + 1 = s + snd blk + 1" using assms(2) by simp
  have "chain ?Q (s + snd blk + 1) bs" if "bs \<noteq> []"
  proof -
    have "t \<in> headers (s + snd blk + 1) bs \<Longrightarrow> P t = ?Q t" for t
      using headers_range [of t "s + snd blk + 1" bs] assms(2) by auto
    then show ?thesis using chain_cong [of "s + snd blk + 1" bs P ?Q] assms(1) that by auto
  qed
  moreover have "block_at ?Q ?t (if bs = [] then MCB_SIGNATURE_END else MCB_SIGNATURE_NORMAL)
      (MCB_OWNER_FREE, snd blk - requested - 1)"
    using assms bound by (auto simp: block_at_def)
  moreover have "block_at ?Q s MCB_SIGNATURE_NORMAL (owner, requested)"
    using assms bound by (simp add: block_at_def)
  ultimately show ?thesis
    using assms(2) end_seg by (auto simp: split_low_def)
qed

lemma chain_split_high:
  assumes "chain P s (blk # bs)" "requested < snd blk" "length (P s) = 16"
    "length cur = 16" "length upper = 16"
    "mcb_signature cur = MCB_SIGNATURE_NORMAL" "mcb_owner cur = MCB_OWNER_FREE"
    "mcb_size cur = seg (snd blk - requested - 1)"
    "mcb_signature upper = mcb_signature (P s)" "mcb_owner upper = owner" "mcb_size upper = seg requested"
  shows "chain (P(s + (snd blk - requested) := upper, s := cur)) s (split_high owner requested (snd blk) @ bs)"
proof -
  let ?t = "s + (snd blk - requested)" and ?Q = "P(s + (snd blk - requested) := upper, s := cur)"
  have bound: "s + snd blk \<le> 0xffff" using assms(1) by (simp add: block_at_def)
  have segs: "s + (snd blk - requested - 1) + 1 = ?t" "?t + requested + 1 = s + snd blk + 1"
    using assms(2) by simp_all
  have "chain ?Q (s + snd blk + 1) bs" if "bs \<noteq> []"
  proof -
    have "t \<in> headers (s + snd blk + 1) bs \<Longrightarrow> P t = ?Q t" for t
      using headers_range [of t "s + snd blk + 1" bs] assms(2) by auto
    then show ?thesis using chain_cong [of "s + snd blk + 1" bs P ?Q] assms(1) that by auto
  qed
  moreover have "block_at ?Q ?t (if bs = [] then MCB_SIGNATURE_END else MCB_SIGNATURE_NORMAL)
      (owner, requested)"
    using assms bound by (auto simp: block_at_def)
  moreover have "block_at ?Q s MCB_SIGNATURE_NORMAL (MCB_OWNER_FREE, snd blk - requested - 1)"
    using assms bound by (simp add: block_at_def)
  ultimately show ?thesis
    using assms(2) segs by (auto simp: split_high_def)
qed

text \<open>What an allocator may have done to the block it was given.\<close>

definition carved ::
  "memory \<Rightarrow> nat \<Rightarrow> block \<Rightarrow> block list \<Rightarrow> block list \<Rightarrow> nat \<Rightarrow> dos_memory_arena
     \<Rightarrow> dos_memory_status \<Rightarrow> dos_memory_arena \<Rightarrow> memory \<Rightarrow> u16 option \<Rightarrow> bool" where
  "carved mm s blk bs new header arena status arena' mm' block \<longleftrightarrow>
     same_outside mm mm' {s..s + snd blk} \<and>
     (status = DOS_MEMORY_OK \<and> arena' = arena \<and> block = Some (seg header + 1) \<and>
        chain (par mm') s (new @ bs) \<or>
      status = DOS_MEMORY_MACHINE_FAULT \<and> arena' = arena \<and> block = None \<and> mm' = mm \<or>
      status = DOS_MEMORY_MACHINE_POISONED \<and> arena' = poisoned_arena arena \<and> block = None)"

lemma carved_cases:
  assumes "same_outside mm mm' S" "S \<subseteq> {s..s + snd blk}"
    "status = DOS_MEMORY_OK \<and> arena' = arena \<and> chain (par mm') s (new @ bs) \<or>
     status = DOS_MEMORY_MACHINE_FAULT \<and> arena' = arena \<and> mm' = mm \<or>
     status = DOS_MEMORY_MACHINE_POISONED \<and> arena' = poisoned_arena arena"
    "block = (if status = DOS_MEMORY_OK then Some (seg header + 1) else None)"
  shows "carved mm s blk bs new header arena status arena' mm' block"
  using assms same_outside_mono [OF assms(1,2)] by (auto simp: carved_def)

context guest_backend
begin

lemma commit_split_cases:
  assumes "ready b" "s < 0x10000" "t < 0x10000" "s \<noteq> t" "length cur = 16" "length after = 16"
    "commit_split arena m b (seg s) cur (seg t) (par (mem b) t) after = (status, arena', b')"
  shows "ready b' \<and> reach b' = reach b \<and> same_outside (mem b) (mem b') {s, t} \<and>
    (status = DOS_MEMORY_OK \<and> arena' = arena \<and> par (mem b') = (par (mem b))(t := after, s := cur) \<or>
     status = DOS_MEMORY_MACHINE_FAULT \<and> arena' = arena \<and> mem b' = mem b \<or>
     status = DOS_MEMORY_MACHINE_POISONED \<and> arena' = poisoned_arena arena) \<and>
    (paras_reachable m (reach b) s (Suc s) \<and> paras_reachable m (reach b) t (Suc t) \<longrightarrow> status = DOS_MEMORY_OK)"
proof -
  obtain st1 a1 b1 where r1: "replace_record_bytes arena m b (seg t) after = (st1, a1, b1)" by (metis prod_cases3)
  note R1 = replace_record_cases [OF assms(1,3,6) r1] and T1 = replace_record_total [OF assms(1,3,6) _ r1]
  obtain st2 a2 b2 where r2: "replace_record_bytes a1 m b1 (seg s) cur = (st2, a2, b2)" by (metis prod_cases3)
  have ready1: "ready b1" using R1 by simp
  note R2 = replace_record_cases [OF ready1 assms(2,5) r2] and T2 = replace_record_total [OF ready1 assms(2,5) _ r2]
  obtain st3 a3 b3 where r3: "replace_record_bytes a2 m b2 (seg t) (par (mem b) t) = (st3, a3, b3)"
    by (metis prod_cases3)
  have ready2: "ready b2" using R2 by simp
  note R3 = replace_record_cases [OF ready2 assms(3) length_par [OF assms(3)] r3]
  have out1: "same_outside (mem b) (mem b1) {s, t}" and out2: "same_outside (mem b1) (mem b2) {s, t}"
    and out3: "same_outside (mem b2) (mem b3) {s, t}"
    using R1 R2 R3 by (auto elim: same_outside_mono)
  consider (fail1) "st1 \<noteq> DOS_MEMORY_OK" | (ok) "st1 = DOS_MEMORY_OK" "st2 = DOS_MEMORY_OK"
    | (unwound) "st1 = DOS_MEMORY_OK" "st2 = DOS_MEMORY_MACHINE_FAULT" "st3 = DOS_MEMORY_OK"
    | (lost) "st1 = DOS_MEMORY_OK" "st2 \<noteq> DOS_MEMORY_OK" "st2 = DOS_MEMORY_MACHINE_POISONED \<or> st3 \<noteq> DOS_MEMORY_OK"
    using R2 by blast
  then show ?thesis
  proof cases
    case fail1
    with assms(7) r1 have "status = st1" "arena' = a1" "b' = b1" by (simp_all add: commit_split_def)
    with fail1 R1 T1 out1 show ?thesis by auto
  next
    case ok
    with assms(7) r1 r2 have "status = DOS_MEMORY_OK" "arena' = a2" "b' = b2" by (simp_all add: commit_split_def)
    with ok R1 R2 same_outside_trans [OF out1 out2] show ?thesis by auto
  next
    case unwound
    with assms(7) r1 r2 r3 have res: "status = DOS_MEMORY_MACHINE_FAULT" "arena' = a3" "b' = b3"
      by (simp_all add: commit_split_def)
    have "mem b2 = mem b1" using unwound R2 by auto
    then have "same_outside (mem b) (mem b3) {t}" "par (mem b3) t = par (mem b) t"
      using unwound R1 R3 same_outside_trans [of "mem b" "mem b1" "{t}" "mem b3"] by auto
    then have "mem b3 = mem b" using par_restored assms(3) by blast
    with unwound res R1 R2 R3 T2 show ?thesis by auto
  next
    case lost
    with assms(7) r1 r2 r3 have res: "status = DOS_MEMORY_MACHINE_POISONED" "arena' = poisoned_arena a3" "b' = b3"
      by (auto simp: commit_split_def poisoned_arena_def)
    have "poisoned_arena a3 = poisoned_arena arena" using lost R1 R2 R3 by auto
    with lost res R1 R2 R3 T2 same_outside_trans [OF same_outside_trans [OF out1 out2] out3]
    show ?thesis by auto
  qed
qed

end

section \<open>The two allocators\<close>

text \<open>A record with the owner name stored, where the caller gives one.\<close>

definition named_record :: "mcb_record \<Rightarrow> bytes option \<Rightarrow> mcb_record" where
  "named_record r name = (case name of None \<Rightarrow> r | Some nm \<Rightarrow> mcb_set_owner_name r nm)"

lemma named_record_fields [mcb_simps]:
  assumes "length r = 16"
  shows "length (named_record r name) = 16" "mcb_signature (named_record r name) = mcb_signature r"
    "mcb_owner (named_record r name) = mcb_owner r" "mcb_size (named_record r name) = mcb_size r"
  using assms by (auto simp: named_record_def mcb_simps split: option.splits)

lemma seg_diff: "unat r \<le> a \<Longrightarrow> seg a - r = seg (a - unat r)"
  by (simp add: seg_def of_nat_diff)

lemma seg_diff_1: "0 < a \<Longrightarrow> seg a - 1 = seg (a - 1)"
  by (cases a) (simp_all add: seg_def)

lemma of_nat_seg: "of_nat n = seg n"
  by (simp add: seg_def)

lemmas split_arith = seg_diff seg_diff_1 word_less_nat_alt word_le_nat_alt

lemma chain_relabel:
  assumes "chain P s (blk # bs)" "mcb_signature r = mcb_signature (P s)" "mcb_size r = mcb_size (P s)"
    "mcb_owner r = owner"
  shows "chain (P(s := r)) s ((owner, snd blk) # bs)"
proof -
  have "s \<notin> headers (s + snd blk + 1) bs" using headers_range by fastforce
  with assms chain_update show ?thesis by (auto simp: block_at_def)
qed

context guest_backend
begin

lemma allocate_low_unfold:
  assumes "chain (par (mem b)) s (blk # bs)" "unat requested \<le> snd blk"
    "read_mcb m b (seg s) = Inr (par (mem b) s)"
  shows "allocate_low arena m b (seg s) requested owner name =
    (if unat requested < snd blk then
       (case read_record_bytes m b (seg (s + unat requested + 1)) of
          Inl status \<Rightarrow> (status, arena, b, None)
        | Inr before \<Rightarrow>
            (let (status, arena', b') = commit_split arena m b (seg s)
                   (mcb_set_size (mcb_set_signature (named_record (mcb_set_owner (par (mem b) s) owner) name)
                      MCB_SIGNATURE_NORMAL) requested)
                   (seg (s + unat requested + 1)) before
                   (mcb_set_size (mcb_set_owner (mcb_set_signature before (mcb_signature (par (mem b) s)))
                      MCB_OWNER_FREE) (seg (snd blk - unat requested - 1)))
             in (status, arena', b', if status = DOS_MEMORY_OK then Some (seg s + 1) else None)))
     else (let (status, arena', b') = replace_record_bytes arena m b (seg s)
                 (named_record (mcb_set_owner (par (mem b) s) owner) name)
           in (status, arena', b', if status = DOS_MEMORY_OK then Some (seg s + 1) else None)))"
proof -
  have bound: "s + snd blk < 0x10000" "s < 0x10000" using assms(1) by (simp_all add: block_at_def)
  then have n: "snd blk < 0x10000" by simp
  have size: "mcb_size (par (mem b) s) = seg (snd blk)" using chain_head [OF assms(1)] by simp
  have fits: "\<not> seg (snd blk) < requested" using assms(2) n by (simp add: word_less_nat_alt)
  have less: "requested < seg (snd blk) \<longleftrightarrow> unat requested < snd blk" using n by (simp add: word_less_nat_alt)
  have rem: "seg (snd blk) - requested - 1 = seg (snd blk - unat requested - 1)" if "unat requested < snd blk"
    using that by (simp add: seg_diff seg_diff_1)
  have nowrap: "\<not> 0xffff < s + unat requested + 1" if "unat requested < snd blk" using that bound by simp
  show ?thesis
    unfolding allocate_low_def assms(3)
    using bound fits less rem nowrap
    by (simp add: size Let_def of_nat_seg named_record_def del: of_nat_add of_nat_Suc
        split: sum.split cong: if_cong)
qed

lemma allocate_low_exact:
  assumes "ready b" "chain (par (mem b)) s (blk # bs)" "unat requested = snd blk"
    "read_mcb m b (seg s) = Inr (par (mem b) s)"
    "allocate_low arena m b (seg s) requested owner name = (status, arena', b', block)"
  shows "ready b' \<and> reach b' = reach b \<and>
    carved (mem b) s blk bs (split_low owner (unat requested) (snd blk)) s arena status arena' (mem b') block \<and>
    (paras_reachable m (reach b) s (Suc s) \<longrightarrow> status = DOS_MEMORY_OK)"
proof -
  let ?P = "par (mem b)"
  let ?after = "named_record (mcb_set_owner (?P s) owner) name"
  have s: "s < 0x10000" using assms(2) by (simp add: block_at_def)
  have after: "length ?after = 16" "mcb_signature ?after = mcb_signature (?P s)" "mcb_owner ?after = owner"
    "mcb_size ?after = mcb_size (?P s)" using length_par [OF s, of "mem b"] by (simp_all add: mcb_simps)
  obtain st a1 b1 where rep: "replace_record_bytes arena m b (seg s) ?after = (st, a1, b1)"
    by (metis prod_cases3)
  have res: "status = st" "arena' = a1" "b' = b1" "block = (if st = DOS_MEMORY_OK then Some (seg s + 1) else None)"
    using assms(3,5) rep by (auto simp: allocate_low_unfold [OF assms(2) _ assms(4)])
  have eq: "split_low owner (unat requested) (snd blk) @ bs = (owner, snd blk) # bs"
    using assms(3) by (simp add: split_low_def)
  note R = replace_record_cases [OF assms(1) s after(1) rep]
  have "carved (mem b) s blk bs (split_low owner (unat requested) (snd blk)) s arena status arena' (mem b') block"
    using R res chain_relabel [OF assms(2) after(2,4,3)]
    by (intro carved_cases [where S = "{s}"]) (auto simp: eq simp del: chain.simps)
  with R res replace_record_total [OF assms(1) s after(1) _ rep] show ?thesis by auto
qed

lemma allocate_low_split:
  assumes "ready b" "chain (par (mem b)) s (blk # bs)" "unat requested < snd blk"
    "read_mcb m b (seg s) = Inr (par (mem b) s)"
    "read_record_bytes m b (seg (s + unat requested + 1)) = Inr (par (mem b) (s + unat requested + 1))"
    "allocate_low arena m b (seg s) requested owner name = (status, arena', b', block)"
  shows "ready b' \<and> reach b' = reach b \<and>
    carved (mem b) s blk bs (split_low owner (unat requested) (snd blk)) s arena status arena' (mem b') block \<and>
    (paras_reachable m (reach b) s (s + snd blk + 1) \<longrightarrow> status = DOS_MEMORY_OK)"
proof -
  let ?P = "par (mem b)" and ?t = "s + unat requested + 1"
  let ?cur = "mcb_set_size (mcb_set_signature (named_record (mcb_set_owner (?P s) owner) name)
      MCB_SIGNATURE_NORMAL) requested"
  let ?rest = "mcb_set_size (mcb_set_owner (mcb_set_signature (?P ?t) (mcb_signature (?P s)))
      MCB_OWNER_FREE) (seg (snd blk - unat requested - 1))"
  have s: "s < 0x10000" and t: "?t < 0x10000" "s \<noteq> ?t" using assms(2,3) by (auto simp: block_at_def)
  have len: "length (?P s) = 16" "length (?P ?t) = 16" using s t length_par by simp_all
  then have lens: "length ?cur = 16" "length ?rest = 16" by (simp_all add: mcb_simps)
  obtain st a1 b1 where com: "commit_split arena m b (seg s) ?cur (seg ?t) (?P ?t) ?rest = (st, a1, b1)"
    by (metis prod_cases3)
  have res: "status = st" "arena' = a1" "b' = b1" "block = (if st = DOS_MEMORY_OK then Some (seg s + 1) else None)"
    using assms(3,5,6) com by (auto simp: allocate_low_unfold [OF assms(2) _ assms(4)])
  note C = commit_split_cases [OF assms(1) s t lens com]
  have "chain (?P(?t := ?rest, s := ?cur)) s (split_low owner (unat requested) (snd blk) @ bs)"
    using len by (intro chain_split_low [OF assms(2,3)]) (simp_all add: mcb_simps)
  then have "carved (mem b) s blk bs (split_low owner (unat requested) (snd blk)) s arena status arena' (mem b') block"
    using C res assms(3) by (intro carved_cases [where S = "{s, ?t}"]) auto
  with C res assms(3) show ?thesis by (auto elim: paras_reachable_mono)
qed

lemma allocate_low_refines:
  assumes "ready b" "chain (par (mem b)) s (blk # bs)" "unat requested \<le> snd blk"
    "allocate_low arena m b (seg s) requested owner name = (status, arena', b', block)"
  shows "ready b' \<and> reach b' = reach b \<and>
    carved (mem b) s blk bs (split_low owner (unat requested) (snd blk)) s arena status arena' (mem b') block \<and>
    (paras_reachable m (reach b) s (s + snd blk + 1) \<longrightarrow> status = DOS_MEMORY_OK)"
proof -
  let ?P = "par (mem b)" and ?t = "s + unat requested + 1"
  have s: "s + snd blk < 0x10000" using assms(2) by (auto simp: block_at_def)
  have reach_sub: "paras_reachable m (reach b) t (Suc t)"
    if "paras_reachable m (reach b) s (s + snd blk + 1)" "s \<le> t" "t \<le> s + snd blk" for t
    using that by (auto elim: paras_reachable_mono)
  consider (fault) "read_mcb m b (seg s) = Inl DOS_MEMORY_MACHINE_FAULT"
    | (exact) "read_mcb m b (seg s) = Inr (?P s)" "unat requested = snd blk"
    | (rest_fault) "read_mcb m b (seg s) = Inr (?P s)" "unat requested < snd blk"
        "read_record_bytes m b (seg ?t) = Inl DOS_MEMORY_MACHINE_FAULT"
    | (split) "read_mcb m b (seg s) = Inr (?P s)" "unat requested < snd blk"
        "read_record_bytes m b (seg ?t) = Inr (?P ?t)"
    using chain_read_mcb(1) [OF assms(1,2)] read_record_cases [OF assms(1), of ?t] s assms(3) by force
  then show ?thesis
  proof cases
    case fault
    then have "status = DOS_MEMORY_MACHINE_FAULT" "arena' = arena" "b' = b" "block = None"
      using assms(4) by (simp_all add: allocate_low_def)
    with assms(1) fault chain_read_mcb(2) [OF assms(1,2)] reach_sub [of s] show ?thesis
      by (auto simp: carved_def)
  next
    case exact
    with allocate_low_exact [OF assms(1,2) exact(2,1) assms(4)] reach_sub [of s] show ?thesis by auto
  next
    case rest_fault
    have "status = DOS_MEMORY_MACHINE_FAULT" "arena' = arena" "b' = b" "block = None"
      using assms(4) rest_fault by (simp_all add: allocate_low_unfold [OF assms(2,3)])
    with assms(1) rest_fault read_record_total [OF assms(1), of ?t] reach_sub [of ?t] s show ?thesis
      by (auto simp: carved_def)
  next
    case split
    show ?thesis by (rule allocate_low_split [OF assms(1,2) split(2,1,3) assms(4)])
  qed
qed

lemma allocate_high_unfold:
  assumes "chain (par (mem b)) s (blk # bs)" "unat requested \<le> snd blk"
    "read_mcb m b (seg s) = Inr (par (mem b) s)"
  shows "allocate_high arena m b (seg s) requested owner name =
    (if unat requested < snd blk then
       (case read_record_bytes m b (seg (s + (snd blk - unat requested))) of
          Inl status \<Rightarrow> (status, arena, b, None)
        | Inr before \<Rightarrow>
            (let (status, arena', b') = commit_split arena m b (seg s)
                   (mcb_set_owner (mcb_set_size (mcb_set_signature (par (mem b) s)
                      MCB_SIGNATURE_NORMAL) (seg (snd blk - unat requested - 1))) MCB_OWNER_FREE)
                   (seg (s + (snd blk - unat requested))) before
                   (named_record (mcb_set_owner (mcb_set_size (mcb_set_signature before
                      (mcb_signature (par (mem b) s))) requested) owner) name)
             in (status, arena', b', if status = DOS_MEMORY_OK
                 then Some (seg (s + (snd blk - unat requested)) + 1) else None)))
     else allocate_low arena m b (seg s) requested owner name)"
proof -
  have bound: "s + snd blk < 0x10000" "s < 0x10000" using assms(1) by (simp_all add: block_at_def)
  then have n: "snd blk < 0x10000" by simp
  have size: "mcb_size (par (mem b) s) = seg (snd blk)" using chain_head [OF assms(1)] by simp
  have fits: "\<not> seg (snd blk) < requested" using assms(2) n by (simp add: word_less_nat_alt)
  have eq: "requested = seg (snd blk) \<longleftrightarrow> \<not> unat requested < snd blk"
    using n assms(2) by (auto simp: word_unat_eq_iff)
  have rem: "seg (snd blk) - requested = seg (snd blk - unat requested)"
    "seg (snd blk) - requested - 1 = seg (snd blk - unat requested - 1)" if "unat requested < snd blk"
    using that by (simp_all add: seg_diff seg_diff_1)
  have diff: "unat (seg (snd blk - unat requested)) = snd blk - unat requested" using n by simp
  have nowrap: "\<not> 0xffff < s + (snd blk - unat requested)" using bound by simp
  show ?thesis
  proof (cases "unat requested < snd blk")
    case True
    show ?thesis
      unfolding allocate_high_def assms(3)
      using bound fits eq rem [OF True] diff nowrap True
      by (simp add: size Let_def of_nat_seg named_record_def del: of_nat_add of_nat_Suc
          split: sum.split cong: if_cong)
  qed (use eq in \<open>simp add: allocate_high_def assms(3) size\<close>)
qed

lemma allocate_high_split:
  assumes "ready b" "chain (par (mem b)) s (blk # bs)" "unat requested < snd blk"
    "read_mcb m b (seg s) = Inr (par (mem b) s)"
    "read_record_bytes m b (seg (s + (snd blk - unat requested))) = Inr (par (mem b) (s + (snd blk - unat requested)))"
    "allocate_high arena m b (seg s) requested owner name = (status, arena', b', block)"
  shows "ready b' \<and> reach b' = reach b \<and>
    carved (mem b) s blk bs (split_high owner (unat requested) (snd blk)) (s + (snd blk - unat requested))
      arena status arena' (mem b') block \<and>
    (paras_reachable m (reach b) s (s + snd blk + 1) \<longrightarrow> status = DOS_MEMORY_OK)"
proof -
  let ?P = "par (mem b)" and ?t = "s + (snd blk - unat requested)"
  let ?cur = "mcb_set_owner (mcb_set_size (mcb_set_signature (?P s) MCB_SIGNATURE_NORMAL)
      (seg (snd blk - unat requested - 1))) MCB_OWNER_FREE"
  let ?upper = "named_record (mcb_set_owner (mcb_set_size (mcb_set_signature (?P ?t)
      (mcb_signature (?P s))) requested) owner) name"
  have s: "s < 0x10000" and t: "?t < 0x10000" "s \<noteq> ?t" using assms(2,3) by (auto simp: block_at_def)
  have len: "length (?P s) = 16" "length (?P ?t) = 16" using s t length_par by simp_all
  then have lens: "length ?cur = 16" "length ?upper = 16" by (simp_all add: mcb_simps)
  obtain st a1 b1 where com: "commit_split arena m b (seg s) ?cur (seg ?t) (?P ?t) ?upper = (st, a1, b1)"
    by (metis prod_cases3)
  have res: "status = st" "arena' = a1" "b' = b1" "block = (if st = DOS_MEMORY_OK then Some (seg ?t + 1) else None)"
    using assms(3,5,6) com by (auto simp: allocate_high_unfold [OF assms(2) _ assms(4)])
  note C = commit_split_cases [OF assms(1) s t lens com]
  have "chain (?P(?t := ?upper, s := ?cur)) s (split_high owner (unat requested) (snd blk) @ bs)"
    using len by (intro chain_split_high [OF assms(2,3)]) (simp_all add: mcb_simps)
  then have "carved (mem b) s blk bs (split_high owner (unat requested) (snd blk)) ?t arena status arena' (mem b') block"
    using C res assms(3) by (intro carved_cases [where S = "{s, ?t}"]) auto
  with C res assms(3) show ?thesis by (auto elim: paras_reachable_mono)
qed

lemma allocate_high_refines:
  assumes "ready b" "chain (par (mem b)) s (blk # bs)" "unat requested \<le> snd blk"
    "allocate_high arena m b (seg s) requested owner name = (status, arena', b', block)"
  shows "ready b' \<and> reach b' = reach b \<and>
    carved (mem b) s blk bs (split_high owner (unat requested) (snd blk)) (s + (snd blk - unat requested))
      arena status arena' (mem b') block \<and>
    (paras_reachable m (reach b) s (s + snd blk + 1) \<longrightarrow> status = DOS_MEMORY_OK)"
proof -
  let ?P = "par (mem b)" and ?t = "s + (snd blk - unat requested)"
  have s: "s + snd blk < 0x10000" using assms(2) by (auto simp: block_at_def)
  have reach_sub: "paras_reachable m (reach b) t (Suc t)"
    if "paras_reachable m (reach b) s (s + snd blk + 1)" "s \<le> t" "t \<le> s + snd blk" for t
    using that by (auto elim: paras_reachable_mono)
  consider (fault) "read_mcb m b (seg s) = Inl DOS_MEMORY_MACHINE_FAULT"
    | (exact) "read_mcb m b (seg s) = Inr (?P s)" "unat requested = snd blk"
    | (rest_fault) "read_mcb m b (seg s) = Inr (?P s)" "unat requested < snd blk"
        "read_record_bytes m b (seg ?t) = Inl DOS_MEMORY_MACHINE_FAULT"
    | (split) "read_mcb m b (seg s) = Inr (?P s)" "unat requested < snd blk"
        "read_record_bytes m b (seg ?t) = Inr (?P ?t)"
    using chain_read_mcb(1) [OF assms(1,2)] read_record_cases [OF assms(1), of ?t] s assms(3) by force
  then show ?thesis
  proof cases
    case fault
    then have "status = DOS_MEMORY_MACHINE_FAULT" "arena' = arena" "b' = b" "block = None"
      using assms(4) by (simp_all add: allocate_high_def)
    with assms(1) fault chain_read_mcb(2) [OF assms(1,2)] reach_sub [of s] show ?thesis
      by (auto simp: carved_def)
  next
    case exact
    then have "allocate_low arena m b (seg s) requested owner name = (status, arena', b', block)"
      using assms(4) by (simp add: allocate_high_unfold [OF assms(2,3)])
    from allocate_low_refines [OF assms(1,2,3) this] exact show ?thesis
      by (simp add: split_low_def split_high_def)
  next
    case rest_fault
    have "status = DOS_MEMORY_MACHINE_FAULT" "arena' = arena" "b' = b" "block = None"
      using assms(4) rest_fault by (simp_all add: allocate_high_unfold [OF assms(2,3)])
    moreover have "?t < 0x10000" "s \<le> ?t" "?t \<le> s + snd blk" using s by simp_all
    ultimately show ?thesis
      using assms(1) rest_fault(3) read_record_total [OF assms(1), of ?t] reach_sub [of ?t]
      by (auto simp: carved_def)
  next
    case split
    show ?thesis by (rule allocate_high_split [OF assms(1,2) split(2,1,3) assms(4)])
  qed
qed

lemma allocate_selected_refines:
  assumes "ready b" "chain (par (mem b)) s (blk # bs)" "unat requested \<le> snd blk"
    "(if strat > (1 :: u8) then allocate_high arena m b (seg s) requested owner name
      else allocate_low arena m b (seg s) requested owner name) = (status, arena', b', block)"
  shows "ready b' \<and> reach b' = reach b \<and>
    carved (mem b) s blk bs (allocation strat owner (unat requested) (snd blk))
      (s + header_offset strat (unat requested) (snd blk)) arena status arena' (mem b') block \<and>
    (paras_reachable m (reach b) s (s + snd blk + 1) \<longrightarrow> status = DOS_MEMORY_OK)"
proof (cases "strat > 1")
  case True
  have "s + (snd blk - unat requested) = s + header_offset strat (unat requested) (snd blk)"
    using True assms(3) by (auto simp: header_offset_def)
  with True allocate_high_refines [OF assms(1-3)] assms(4) show ?thesis by (simp add: allocation_def)
next
  case False
  with allocate_low_refines [OF assms(1-3)] assms(4) show ?thesis
    by (simp add: allocation_def header_offset_def)
qed

end

end
