(* ===== verification/McbOps.thy ===== *)
theory McbOps
  imports McbSplit
begin

text \<open>
  The arena operations as a whole: allocation, query of the largest block, validation, location,
  release, ownership transfer, resizing, process teardown and initialisation, each against its
  abstract counterpart on the list of blocks.
\<close>

section \<open>Abstract operations on whole arenas\<close>

fun replace_at :: "nat \<Rightarrow> block list \<Rightarrow> nat \<Rightarrow> block list \<Rightarrow> block list" where
  "replace_at s [] t new = []"
| "replace_at s (blk # bs) t new =
     (if s = t then new @ bs else blk # replace_at (s + snd blk + 1) bs t new)"

lemma replace_at_split:
  "replace_at s (pre @ blk # post) (s + span pre) new = pre @ new @ post"
proof (induction pre arbitrary: s)
  case (Cons c pre)
  from Cons.IH [of "s + snd c + 1"] show ?case by (simp add: add.assoc)
qed simp

text \<open>\<open>abs_allocate\<close>: merge all free neighbours, choose among the blocks that fit, carve the new block
  out of the chosen one; the result is the new arena and the segment of the new block's header.\<close>

definition abs_allocate :: "u8 \<Rightarrow> u16 \<Rightarrow> nat \<Rightarrow> nat \<Rightarrow> block list \<Rightarrow> (block list \<times> nat) option" where
  "abs_allocate strat owner requested h bs =
     (let ds = defrag bs; cand = fits requested (free_blocks h ds); (t, n) = choose_fit strat cand
      in if cand = [] then None
         else Some (replace_at h ds t (allocation strat owner requested n),
                    t + header_offset strat requested n))"

lemma abs_allocate_cases:
  assumes "abs_allocate strat owner requested h bs = Some (cs, header)"
  obtains pre n post where "defrag bs = pre @ (MCB_OWNER_FREE, n) # post" "requested \<le> n"
    "cs = pre @ allocation strat owner requested n @ post"
    "header = h + span pre + header_offset strat requested n"
    "(h + span pre, n) = choose_fit strat (fits requested (free_blocks h (defrag bs)))"
proof -
  let ?cand = "fits requested (free_blocks h (defrag bs))"
  obtain t n where tn: "choose_fit strat ?cand = (t, n)" by fastforce
  have ne: "?cand \<noteq> []" using assms by (auto simp: abs_allocate_def split: if_splits prod.splits)
  then have "(t, n) \<in> set ?cand" using choose_fit_in [OF ne, of strat] tn by simp
  then have fit: "requested \<le> n" and mem: "(t, n) \<in> set (free_blocks h (defrag bs))" by (auto simp: fits_def)
  obtain pre post where ds: "defrag bs = pre @ (MCB_OWNER_FREE, n) # post" "t = h + span pre"
    using free_blocks_split [OF mem] by blast
  show ?thesis
    using assms ne tn ds fit that [of pre n post]
    by (auto simp: abs_allocate_def replace_at_split)
qed

text \<open>The new block lies in paragraphs that were free, and the owned blocks stay what they were.\<close>

lemma owned_allocation:
  assumes "owner \<noteq> MCB_OWNER_FREE" "requested \<le> n"
  shows "owned t (allocation strat owner requested n) =
    [(t + header_offset strat requested n, (owner, requested))]"
  using assms
  by (auto simp: allocation_def split_low_def split_high_def header_offset_def is_free_def)

lemma abs_allocate_owned:
  assumes "abs_allocate strat owner requested h bs = Some (cs, header)" "owner \<noteq> MCB_OWNER_FREE"
  shows "set (owned h cs) = insert (header, (owner, requested)) (set (owned h bs))"
proof -
  obtain pre n post where ds: "defrag bs = pre @ (MCB_OWNER_FREE, n) # post" "requested \<le> n"
    and cs: "cs = pre @ allocation strat owner requested n @ post"
    and header: "header = h + span pre + header_offset strat requested n"
    using abs_allocate_cases [OF assms(1)] by metis
  have "owned h bs = owned h (defrag bs)"
    using merges_keeps [OF merges_defrag] by metis
  then show ?thesis
    using ds(2) by (auto simp: ds(1) cs header owned_append is_free_def owned_allocation [OF assms(2) ds(2)]
        span_split)
qed

lemma abs_allocate_free:
  assumes "abs_allocate strat owner requested h bs = Some (cs, header)"
  shows "{header..header + requested} \<subseteq> free_paras h bs"
proof -
  obtain pre n post where ds: "defrag bs = pre @ (MCB_OWNER_FREE, n) # post" "requested \<le> n"
    and header: "header = h + span pre + header_offset strat requested n"
    using abs_allocate_cases [OF assms(1)] by metis
  have "{header..header + requested} \<subseteq> {h + span pre..h + span pre + n}"
    using ds(2) by (auto simp: header header_offset_def)
  also have "\<dots> \<subseteq> free_paras h (defrag bs)"
    by (auto simp: ds(1) free_paras_append is_free_def)
  also have "free_paras h (defrag bs) = free_paras h bs"
    using merges_keeps [OF merges_defrag] by metis
  finally show ?thesis .
qed

lemma abs_allocate_span:
  assumes "abs_allocate strat owner requested h bs = Some (cs, header)"
  shows "span cs = span bs"
proof -
  obtain pre n post where ds: "defrag bs = pre @ (MCB_OWNER_FREE, n) # post" "requested \<le> n"
    and cs: "cs = pre @ allocation strat owner requested n @ post"
    using abs_allocate_cases [OF assms(1)] by metis
  have "span bs = span (defrag bs)"
    using merges_keeps [OF merges_defrag] by metis
  then show ?thesis using ds by (simp add: cs span_split)
qed

text \<open>Owned blocks and free paragraphs do not meet.\<close>

lemma owned_not_free:
  assumes "(t, blk) \<in> set (owned s bs)"
  shows "{t..t + snd blk} \<inter> free_paras s bs = {}" and "s \<le> t" and "t + snd blk < s + span bs"
  using assms
proof (induction bs arbitrary: s)
  case (Cons c bs)
  {
    case 1
    show ?case
    proof (cases "(t, blk) \<in> set (owned (s + snd c + 1) bs)")
      case True
      note IH = Cons.IH [OF True]
      have "{t..t + snd blk} \<inter> {s..s + snd c} = {}" using IH(2) by auto
      with IH(1) show ?thesis by auto
    next
      case False
      with 1 have "t = s" "blk = c" "\<not> is_free c" by (auto split: if_splits)
      then show ?thesis
        using free_paras_range [of _ "s + snd c + 1" bs] by fastforce
    qed
  next
    case 2
    with Cons.IH(2) [of "s + snd c + 1"] show ?case by (fastforce split: if_splits)
  next
    case 3
    with Cons.IH(3) [of "s + snd c + 1"] show ?case by (fastforce split: if_splits)
  }
qed simp_all

section \<open>Allocation\<close>

definition allocated ::
  "memory \<Rightarrow> nat \<Rightarrow> block list \<Rightarrow> dos_memory_arena \<Rightarrow> u16 \<Rightarrow> u16
     \<Rightarrow> dos_memory_status \<Rightarrow> dos_memory_arena \<Rightarrow> memory \<Rightarrow> u16 \<Rightarrow> u16 \<Rightarrow> bool" where
  "allocated mm h bs arena owner requested status arena' mm' block maximum \<longleftrightarrow>
     same_outside mm mm' (free_paras h bs) \<and>
     (status = DOS_MEMORY_NOT_ENOUGH_MEMORY \<and> arena' = arena \<and> block = 0 \<and>
        maximum = seg (largest (free_blocks h (defrag bs))) \<and>
        abs_allocate (strategy arena) owner (unat requested) h bs = None \<and> chain (par mm') h (defrag bs) \<or>
      status = DOS_MEMORY_OK \<and> arena' = arena \<and>
        maximum = seg (largest (free_blocks h (defrag bs))) \<and>
        (\<exists>cs header. abs_allocate (strategy arena) owner (unat requested) h bs = Some (cs, header) \<and>
           block = seg header + 1 \<and> chain (par mm') h cs) \<or>
      status = DOS_MEMORY_MACHINE_FAULT \<and> arena' = arena \<and> block = 0 \<and>
        (\<exists>cs. merges bs cs \<and> chain (par mm') h cs) \<or>
      status = DOS_MEMORY_MACHINE_POISONED \<and> arena' = poisoned_arena arena \<and> block = 0)"

definition selected_segment :: "u8 \<Rightarrow> allocation_candidates \<Rightarrow> u16" where
  "selected_segment strat c =
     (if strat = 0 then cand_first c else if strat = 1 then cand_best c else cand_last c)"

lemma allocate_common_unfold:
  assumes "arena_is_ready arena = DOS_MEMORY_OK" "cand_found c"
    "find_candidates arena m b requested = (DOS_MEMORY_OK, arena, b1, c)"
  shows "allocate_checked_common arena m b owner name requested =
    (case (if strategy arena > 1
           then allocate_high arena m b1 (selected_segment (strategy arena) c) requested owner name
           else allocate_low arena m b1 (selected_segment (strategy arena) c) requested owner name) of
       (status, arena', b', bl) \<Rightarrow>
         (status, arena', b', case bl of None \<Rightarrow> 0 | Some s \<Rightarrow> s, cand_maximum c))"
  using assms by (simp add: allocate_checked_common_def selected_segment_def Let_def)

lemma carved_allocated:
  assumes carved: "carved mm1 t (MCB_OWNER_FREE, n) post (allocation (strategy arena) owner (unat requested) n)
      (t + header_offset (strategy arena) (unat requested) n) arena status arena' mm' block"
    and ds: "defrag bs = pre @ (MCB_OWNER_FREE, n) # post" and t: "t = h + span pre"
    and fit: "choose_fit (strategy arena) (fits (unat requested) (free_blocks h (defrag bs))) = (t, n)"
      "fits (unat requested) (free_blocks h (defrag bs)) \<noteq> []" "unat requested \<le> n"
    and before: "chain (par mm1) h (defrag bs)" "same_outside mm mm1 (free_paras h bs)"
    and maximum: "maximum = seg (largest (free_blocks h (defrag bs)))"
  shows "allocated mm h bs arena owner requested status arena' mm'
    (case block of None \<Rightarrow> 0 | Some s \<Rightarrow> s) maximum"
proof -
  have paras: "{t..t + n} \<subseteq> free_paras h bs"
    using ds t merges_keeps [OF merges_defrag [of bs], of h] by (auto simp: free_paras_append is_free_def)
  have out: "same_outside mm mm' (free_paras h bs)"
    using carved same_outside_trans [OF before(2)] same_outside_mono [OF _ paras] by (simp add: carved_def)
  have "links (par mm1) h pre" using before(1) ds by (simp add: chain_append)
  moreover have "headers h pre \<inter> {t..t + n} = {}" using headers_range t by fastforce
  ultimately have pre: "links (par mm') h pre"
    using carved same_outside_links [of mm1 mm' "{t..t + n}" h pre] by (simp add: carved_def)
  have abs: "abs_allocate (strategy arena) owner (unat requested) h bs =
      Some (pre @ allocation (strategy arena) owner (unat requested) n @ post,
            t + header_offset (strategy arena) (unat requested) n)"
    using fit ds t by (simp add: abs_allocate_def replace_at_split)
  have ne: "allocation (strategy arena) owner (unat requested) n \<noteq> []"
    by (simp add: allocation_def split_low_def split_high_def)
  have ok: "chain (par mm') h (pre @ allocation (strategy arena) owner (unat requested) n @ post)"
    if "chain (par mm') t (allocation (strategy arena) owner (unat requested) n @ post)"
    using that pre ne t by (simp add: chain_append)
  consider "status = DOS_MEMORY_OK" | "status = DOS_MEMORY_MACHINE_FAULT"
    | "status = DOS_MEMORY_MACHINE_POISONED" using carved by (auto simp: carved_def)
  then show ?thesis
    using carved out abs maximum ok before(1) merges_defrag [of bs]
    by cases (auto simp: allocated_def carved_def)
qed

context guest_backend
begin

lemma find_candidates_refines:
  assumes "ready b" "chain (par (mem b)) (unat (head_segment arena)) bs"
    "find_candidates arena m b requested = (status, arena', b', c)"
  defines "h \<equiv> unat (head_segment arena)"
  shows "ready b' \<and> reach b' = reach b \<and>
    walked (mem b) h bs arena requested no_candidates status arena' (mem b') c \<and>
    (paras_reachable m (reach b) h (h + span bs) \<longrightarrow> status = DOS_MEMORY_OK)"
  using find_loop_refines [OF assms(1,2), of MCB_MAXIMUM_WALK arena requested no_candidates status arena' b' c]
    assms(3) chain_length [OF assms(2)]
  by (simp add: find_candidates_def MCB_MAXIMUM_WALK_def h_def)

lemma walked_choice:
  assumes "walked mm h bs arena requested no_candidates DOS_MEMORY_OK arena' mm' c" "chain (par mm) h bs"
  defines "cand \<equiv> fits (unat requested) (free_blocks h (defrag bs))"
  shows "cand_found c = (cand \<noteq> []) \<and> cand_maximum c = seg (largest (free_blocks h (defrag bs))) \<and>
    (cand \<noteq> [] \<longrightarrow> selected_segment strat c = seg (fst (choose_fit strat cand)))"
proof -
  have ch: "chain (par mm') h (defrag bs)"
    and c: "c = consider_all requested (free_blocks h (defrag bs)) no_candidates"
    using assms(1) by (auto simp: walked_def)
  have "n < 0x10000" if "(t, n) \<in> set (free_blocks h (defrag bs))" for t n
    using free_blocks_bound [OF that] chain_bound [OF ch] by simp
  from consider_all_spec [OF this] show ?thesis
    by (auto simp: c cand_def selected_segment_def choose_fit_def)
qed

theorem allocate_refines:
  assumes "ready b" "chain (par (mem b)) (unat (head_segment arena)) bs" "arena_is_ready arena = DOS_MEMORY_OK"
    "allocate_checked_common arena m b owner name requested = (status, arena', b', block, maximum)"
  defines "h \<equiv> unat (head_segment arena)"
  shows "ready b' \<and> reach b' = reach b \<and>
    allocated (mem b) h bs arena owner requested status arena' (mem b') block maximum \<and>
    (paras_reachable m (reach b) h (h + span bs) \<longrightarrow>
       status = DOS_MEMORY_OK \<or> status = DOS_MEMORY_NOT_ENOUGH_MEMORY)"
proof -
  let ?cand = "fits (unat requested) (free_blocks h (defrag bs))"
  obtain st1 a1 b1 c where find: "find_candidates arena m b requested = (st1, a1, b1, c)" by (metis prod_cases4)
  note F = find_candidates_refines [OF assms(1,2) find, folded h_def]
  show ?thesis
  proof (cases "st1 = DOS_MEMORY_OK")
    case False
    then have "status = st1" "arena' = a1" "b' = b1" "block = 0"
      using assms(3,4) find by (auto simp: allocate_checked_common_def)
    with False F show ?thesis by (auto simp: allocated_def walked_def)
  next
    case True
    have a1: "a1 = arena" and ch1: "chain (par (mem b1)) h (defrag bs)"
      and so1: "same_outside (mem b) (mem b1) (free_paras h bs)"
      using F True by (auto simp: walked_def)
    note C = walked_choice [OF F [THEN conjunct2, THEN conjunct2, THEN conjunct1, unfolded True]
        assms(2) [folded h_def]]
    show ?thesis
    proof (cases "?cand = []")
      case none: True
      then have "status = DOS_MEMORY_NOT_ENOUGH_MEMORY" "arena' = arena" "b' = b1" "block = 0"
        "maximum = cand_maximum c"
        using assms(3,4) find True a1 C by (auto simp: allocate_checked_common_def)
      with none F C ch1 so1 show ?thesis by (auto simp: allocated_def abs_allocate_def)
    next
      case some: False
      obtain t n where tn: "choose_fit (strategy arena) ?cand = (t, n)" by fastforce
      have mem: "(t, n) \<in> set ?cand" using choose_fit_in [OF some, of "strategy arena"] tn by simp
      then obtain pre post where ds: "defrag bs = pre @ (MCB_OWNER_FREE, n) # post" "t = h + span pre"
        using free_blocks_split [of t n h "defrag bs"] by (auto simp: fits_def)
      have fit: "unat requested \<le> n" using mem by (auto simp: fits_def)
      have cht: "chain (par (mem b1)) t ((MCB_OWNER_FREE, n) # post)" using ch1 ds by (simp add: chain_append)
      have found: "cand_found c" and sel: "selected_segment (strategy arena) c = seg t"
        and maxi: "cand_maximum c = seg (largest (free_blocks h (defrag bs)))"
        using C [of "strategy arena"] some tn by simp_all
      obtain bl where run: "(if strategy arena > 1 then allocate_high arena m b1 (seg t) requested owner name
          else allocate_low arena m b1 (seg t) requested owner name) = (status, arena', b', bl)"
        and bl: "block = (case bl of None \<Rightarrow> 0 | Some s \<Rightarrow> s)" "maximum = cand_maximum c"
        using assms(4) [unfolded allocate_common_unfold [OF assms(3) found find [unfolded True a1]] sel]
        by (auto split: prod.splits)
      have ready1: "ready b1" "reach b1 = reach b" using F by auto
      have "snd (MCB_OWNER_FREE, n) \<ge> unat requested" using fit by simp
      note S = allocate_selected_refines [OF ready1(1) cht this run]
      have "span bs = span (defrag bs)" using merges_keeps [OF merges_defrag] by metis
      then have sub: "paras_reachable m (reach b) h (h + span bs) \<Longrightarrow> paras_reachable m (reach b) t (t + n + 1)"
        using ds by (auto elim: paras_reachable_mono)
      show ?thesis
        using S sub ready1 bl carved_allocated [OF _ ds tn some fit ch1 so1 maxi] maxi by auto
    qed
  qed
qed

end

end
