(* ===== verification/McbRelease.thy ===== *)
theory McbRelease
  imports McbOps
begin

text \<open>
  Validation, location, release, ownership transfer, resizing, process teardown and initialisation
  of the arena, against the abstract list of blocks.
\<close>

section \<open>Blocks by header segment\<close>

fun find_at :: "nat \<Rightarrow> block list \<Rightarrow> nat \<Rightarrow> block option" where
  "find_at s [] t = None"
| "find_at s (blk # bs) t = (if s = t then Some blk else find_at (s + snd blk + 1) bs t)"

lemma find_at_headers: "find_at s bs t = None \<longleftrightarrow> t \<notin> headers s bs"
  by (induction bs arbitrary: s) auto

lemma find_at_split:
  assumes "find_at s bs t = Some blk"
  obtains pre post where "bs = pre @ blk # post" "t = s + span pre"
  using assms
proof (induction bs arbitrary: s thesis)
  case (Cons c bs)
  show ?case
  proof (cases "s = t")
    case True
    with Cons.prems show ?thesis by (intro Cons.prems(1) [of "[]" bs]) auto
  next
    case False
    with Cons.prems have "find_at (s + snd c + 1) bs t = Some blk" by simp
    then obtain pre post where "bs = pre @ blk # post" "t = s + snd c + 1 + span pre"
      using Cons.IH by blast
    then show ?thesis by (intro Cons.prems(1) [of "c # pre" post]) auto
  qed
qed simp

definition relabel_at :: "nat \<Rightarrow> block list \<Rightarrow> nat \<Rightarrow> u16 \<Rightarrow> block list" where
  "relabel_at s bs t owner =
     (case find_at s bs t of None \<Rightarrow> bs | Some blk \<Rightarrow> replace_at s bs t [(owner, snd blk)])"

lemma relabel_at_split:
  assumes "bs = pre @ blk # post" "t = s + span pre" "find_at s bs t = Some blk"
  shows "relabel_at s bs t owner = pre @ (owner, snd blk) # post"
  using assms replace_at_split [of s pre blk post] by (simp add: relabel_at_def)

lemma span_relabel [simp]: "span (relabel_at s bs t owner) = span bs"
proof (cases "find_at s bs t")
  case (Some blk)
  then obtain pre post where "bs = pre @ blk # post" "t = s + span pre" by (rule find_at_split)
  with Some show ?thesis by (simp add: relabel_at_split)
qed (simp add: relabel_at_def)

text \<open>Storing a record that only differs in owner and name relabels one block of the chain.\<close>

lemma chain_relabel_at:
  assumes "chain P s bs" "find_at s bs t = Some blk"
    "mcb_signature r = mcb_signature (P t)" "mcb_size r = mcb_size (P t)" "mcb_owner r = owner"
  shows "chain (P(t := r)) s (relabel_at s bs t owner)"
proof -
  obtain pre post where bs: "bs = pre @ blk # post" "t = s + span pre"
    using assms(2) by (rule find_at_split)
  have "t \<notin> headers s pre" using headers_range bs(2) by fastforce
  with assms bs chain_relabel [of P t blk post r owner] links_update [of t s pre P r]
  show ?thesis unfolding relabel_at_split [OF bs assms(2)] by (simp add: chain_append del: chain.simps)
qed

lemma chain_find_at:
  assumes "chain P s bs" "find_at s bs t = Some blk"
  shows "mcb_owner (P t) = fst blk" "mcb_size (P t) = seg (snd blk)" "mcb_signature_is_valid (P t)"
    "t + snd blk < 0x10000" "s \<le> t" "t + snd blk < s + span bs"
proof -
  obtain pre post where bs: "bs = pre @ blk # post" "t = s + span pre"
    using assms(2) by (rule find_at_split)
  with assms(1) have ch: "chain P t (blk # post)" by (simp add: chain_append)
  show "mcb_owner (P t) = fst blk" "mcb_size (P t) = seg (snd blk)" using chain_head [OF ch] by auto
  show "mcb_signature_is_valid (P t)" "t + snd blk < 0x10000"
    using ch by (auto simp: block_at_def mcb_signature_is_valid_def split: if_splits)
  show "s \<le> t" "t + snd blk < s + span bs" using bs by simp_all
qed

section \<open>Validation and location\<close>

context guest_backend
begin

lemma read_mcb_sound:
  assumes "ready b" "read_mcb m b w = Inr r"
  shows "r = par (mem b) (unat w)" "mcb_signature_is_valid r" "mcb_extent_is_valid w r"
proof -
  have "unat w < 0x10000" by (rule unat_u16_less)
  from read_record_cases [OF assms(1) this] assms(2)
  show "r = par (mem b) (unat w)" "mcb_signature_is_valid r" "mcb_extent_is_valid w r"
    by (auto simp: read_mcb_def split: sum.splits if_splits)
qed

lemma not_Inl_ok [simp]:
  "read_mcb m b w \<noteq> Inl DOS_MEMORY_OK" "read_record_bytes m b w \<noteq> Inl DOS_MEMORY_OK"
  "next_mcb_segment w r \<noteq> Inl DOS_MEMORY_OK"
  by (auto simp: read_mcb_def read_record_bytes_def next_mcb_segment_def Let_def
      split: sum.splits if_splits prod.splits)

lemma validate_loop_sound:
  assumes "ready b" "validate_loop steps m b w = DOS_MEMORY_OK"
  shows "\<exists>bs. chain (par (mem b)) (unat w) bs"
  using assms(2)
proof (induction steps arbitrary: w)
  case (Suc steps)
  then obtain r where rd: "read_mcb m b w = Inr r" by (auto split: sum.splits)
  note S = read_mcb_sound [OF assms(1) rd]
  let ?blk = "(mcb_owner r, unat (mcb_size r))"
  have ext: "unat w + unat (mcb_size r) \<le> 0xffff"
    using S(3) unat_u16_less [of w] by (simp add: mcb_extent_is_valid_def)
  show ?case
  proof (cases "mcb_signature r = MCB_SIGNATURE_END")
    case True
    with S ext show ?thesis by (intro exI [of _ "[?blk]"]) (auto simp: block_at_def)
  next
    case False
    obtain w' where nx: "next_mcb_segment w r = Inr w'" and rest: "validate_loop steps m b w' = DOS_MEMORY_OK"
      using Suc.prems False rd by (auto split: sum.splits)
    have w': "unat w' = unat w + unat (mcb_size r) + 1"
      using nx by (auto simp: next_mcb_segment_def Let_def unat_of_nat split: if_splits
          simp del: of_nat_add of_nat_Suc)
    obtain bs where "chain (par (mem b)) (unat w') bs" using Suc.IH [OF rest] by blast
    then show ?thesis
      using S False ext w'
      by (intro exI [of _ "?blk # bs"]) (auto simp: block_at_def mcb_signature_is_valid_def)
  qed
qed simp

lemma validate_loop_complete:
  assumes "ready b" "chain (par (mem b)) s bs" "length bs \<le> steps"
  shows "validate_loop steps m b (seg s) = DOS_MEMORY_OK \<or>
      validate_loop steps m b (seg s) = DOS_MEMORY_MACHINE_FAULT"
    and "paras_reachable m (reach b) s (s + span bs) \<Longrightarrow> validate_loop steps m b (seg s) = DOS_MEMORY_OK"
proof -
  have "(validate_loop steps m b (seg s) = DOS_MEMORY_OK \<or>
      validate_loop steps m b (seg s) = DOS_MEMORY_MACHINE_FAULT) \<and>
    (paras_reachable m (reach b) s (s + span bs) \<longrightarrow> validate_loop steps m b (seg s) = DOS_MEMORY_OK)"
    using assms(2,3)
  proof (induction bs arbitrary: s steps)
    case (Cons blk bs)
    obtain k where k: "steps = Suc k" using Cons.prems(2) by (cases steps) auto
    have sub: "paras_reachable m (reach b) s (Suc s)"
      "paras_reachable m (reach b) (s + snd blk + 1) (s + snd blk + 1 + span bs)"
      if "paras_reachable m (reach b) s (s + span (blk # bs))"
      using that by (auto elim: paras_reachable_mono)
    have IH: "bs \<noteq> [] \<Longrightarrow> (validate_loop k m b (seg (s + snd blk + 1)) = DOS_MEMORY_OK \<or>
          validate_loop k m b (seg (s + snd blk + 1)) = DOS_MEMORY_MACHINE_FAULT) \<and>
        (paras_reachable m (reach b) (s + snd blk + 1) (s + snd blk + 1 + span bs) \<longrightarrow>
          validate_loop k m b (seg (s + snd blk + 1)) = DOS_MEMORY_OK)"
      using Cons.IH [of "s + snd blk + 1" k] Cons.prems k by simp
    show ?case
      using chain_read_mcb [OF assms(1) Cons.prems(1)] chain_head [OF Cons.prems(1)]
        chain_next [OF Cons.prems(1)] IH sub k by (cases "bs = []") (auto simp del: span_simps chain.simps)
  qed simp
  then show "validate_loop steps m b (seg s) = DOS_MEMORY_OK \<or>
      validate_loop steps m b (seg s) = DOS_MEMORY_MACHINE_FAULT"
    and "paras_reachable m (reach b) s (s + span bs) \<Longrightarrow> validate_loop steps m b (seg s) = DOS_MEMORY_OK"
    by auto
qed

theorem validate_correct:
  assumes "ready b" "arena_is_ready arena = DOS_MEMORY_OK"
    "paras_reachable m (reach b) 0 0x10000"
  shows "dos_memory_arena_validate_checked arena m b = DOS_MEMORY_OK \<longleftrightarrow>
    (\<exists>bs. chain (par (mem b)) (unat (head_segment arena)) bs)"
proof
  assume "dos_memory_arena_validate_checked arena m b = DOS_MEMORY_OK"
  with validate_loop_sound [OF assms(1)] assms(2)
  show "\<exists>bs. chain (par (mem b)) (unat (head_segment arena)) bs"
    by (simp add: dos_memory_arena_validate_checked_def)
next
  assume "\<exists>bs. chain (par (mem b)) (unat (head_segment arena)) bs"
  then obtain bs where ch: "chain (par (mem b)) (unat (head_segment arena)) bs" by blast
  have "paras_reachable m (reach b) (unat (head_segment arena)) (unat (head_segment arena) + span bs)"
    using assms(3) chain_bound [OF ch] by (auto elim: paras_reachable_mono)
  with validate_loop_complete(2) [OF assms(1) ch, of MCB_MAXIMUM_WALK] chain_length [OF ch] assms(2)
  show "dos_memory_arena_validate_checked arena m b = DOS_MEMORY_OK"
    by (simp add: dos_memory_arena_validate_checked_def MCB_MAXIMUM_WALK_def)
qed

lemma locate_loop_refines:
  assumes "ready b" "chain (par (mem b)) s bs" "length bs \<le> steps"
  shows "locate_loop steps m b w (seg s) = Inl DOS_MEMORY_MACHINE_FAULT \<or>
    locate_loop steps m b w (seg s) = (case find_at s bs (unat w) of
       None \<Rightarrow> Inl DOS_MEMORY_INVALID_BLOCK | Some blk \<Rightarrow> Inr (par (mem b) (unat w)))"
    and "paras_reachable m (reach b) s (s + span bs) \<Longrightarrow>
      locate_loop steps m b w (seg s) \<noteq> Inl DOS_MEMORY_MACHINE_FAULT"
proof -
  have "(locate_loop steps m b w (seg s) = Inl DOS_MEMORY_MACHINE_FAULT \<or>
    locate_loop steps m b w (seg s) = (case find_at s bs (unat w) of
       None \<Rightarrow> Inl DOS_MEMORY_INVALID_BLOCK | Some blk \<Rightarrow> Inr (par (mem b) (unat w)))) \<and>
    (paras_reachable m (reach b) s (s + span bs) \<longrightarrow>
      locate_loop steps m b w (seg s) \<noteq> Inl DOS_MEMORY_MACHINE_FAULT)"
    using assms(2,3)
  proof (induction bs arbitrary: s steps)
    case (Cons blk bs)
    let ?t = "s + snd blk + 1"
    obtain k where k: "steps = Suc k" using Cons.prems(2) by (cases steps) auto
    have s: "s < 0x10000" using chain_bound [OF Cons.prems(1)] by simp
    have sub: "paras_reachable m (reach b) s (Suc s)"
      "paras_reachable m (reach b) ?t (?t + span bs)"
      if "paras_reachable m (reach b) s (s + span (blk # bs))"
      using that by (auto elim: paras_reachable_mono)
    have eq: "seg s = w \<longleftrightarrow> s = unat w" and less: "w < seg s \<longleftrightarrow> unat w < s"
      using s by (auto simp: word_unat_eq_iff word_less_nat_alt)
    have gone: "find_at s (blk # bs) (unat w) = None" if "unat w < s"
      using that headers_range [of "unat w" s "blk # bs"] find_at_headers by fastforce
    have IH: "bs \<noteq> [] \<Longrightarrow> (locate_loop k m b w (seg ?t) = Inl DOS_MEMORY_MACHINE_FAULT \<or>
        locate_loop k m b w (seg ?t) = (case find_at ?t bs (unat w) of
           None \<Rightarrow> Inl DOS_MEMORY_INVALID_BLOCK | Some blk \<Rightarrow> Inr (par (mem b) (unat w)))) \<and>
        (paras_reachable m (reach b) ?t (?t + span bs) \<longrightarrow>
          locate_loop k m b w (seg ?t) \<noteq> Inl DOS_MEMORY_MACHINE_FAULT)"
      using Cons.IH [of ?t k] Cons.prems k by simp
    note F = chain_read_mcb [OF assms(1) Cons.prems(1)] chain_head(3) [OF Cons.prems(1)]
        chain_next [OF Cons.prems(1)]
    consider "read_mcb m b (seg s) = Inl DOS_MEMORY_MACHINE_FAULT"
      | (found) "read_mcb m b (seg s) = Inr (par (mem b) s)" "s = unat w"
      | (absent) "read_mcb m b (seg s) = Inr (par (mem b) s)" "s \<noteq> unat w" "unat w < s \<or> bs = []"
      | (further) "read_mcb m b (seg s) = Inr (par (mem b) s)" "s \<noteq> unat w" "\<not> unat w < s" "bs \<noteq> []"
      using F(1) by blast
    then show ?case
    proof cases
      case 1
      with F(2) sub k show ?thesis by (auto simp del: span_simps)
    next
      case found
      then show ?thesis using k by simp
    next
      case absent
      then have "find_at s (blk # bs) (unat w) = None" using gone by auto
      with absent show ?thesis using k eq less F(3) by auto
    next
      case further
      with IH sub show ?thesis using k eq less F(3,4) by (auto simp del: span_simps)
    qed
  qed simp
  then show "locate_loop steps m b w (seg s) = Inl DOS_MEMORY_MACHINE_FAULT \<or>
    locate_loop steps m b w (seg s) = (case find_at s bs (unat w) of
       None \<Rightarrow> Inl DOS_MEMORY_INVALID_BLOCK | Some blk \<Rightarrow> Inr (par (mem b) (unat w)))"
    and "paras_reachable m (reach b) s (s + span bs) \<Longrightarrow>
      locate_loop steps m b w (seg s) \<noteq> Inl DOS_MEMORY_MACHINE_FAULT"
    by auto
qed

lemma locate_mcb_refines:
  assumes "ready b" "chain (par (mem b)) (unat (head_segment arena)) bs"
  defines "h \<equiv> unat (head_segment arena)"
  shows "locate_mcb arena m b w = Inl DOS_MEMORY_MACHINE_FAULT \<or>
    locate_mcb arena m b w = (case find_at h bs (unat w) of
       None \<Rightarrow> Inl DOS_MEMORY_INVALID_BLOCK | Some blk \<Rightarrow> Inr (par (mem b) (unat w)))"
    and "paras_reachable m (reach b) h (h + span bs) \<Longrightarrow>
      locate_mcb arena m b w \<noteq> Inl DOS_MEMORY_MACHINE_FAULT"
  using locate_loop_refines [OF assms(1,2), of MCB_MAXIMUM_WALK w] chain_length [OF assms(2)]
  by (simp_all add: locate_mcb_def MCB_MAXIMUM_WALK_def h_def)

end

end
