(* ===== verification/McbLifecycle.thy ===== *)
theory McbLifecycle
  imports McbRelease
begin

text \<open>
  Release, transfer of ownership and resizing, as changes of the list of blocks.
\<close>

section \<open>One-record updates\<close>

text \<open>What an operation that stores one record of the chain may have done.\<close>

definition relabelled ::
  "memory \<Rightarrow> nat \<Rightarrow> block list \<Rightarrow> nat \<Rightarrow> u16 \<Rightarrow> dos_memory_arena
     \<Rightarrow> dos_memory_status \<Rightarrow> dos_memory_arena \<Rightarrow> memory \<Rightarrow> bool" where
  "relabelled mm h bs t owner arena status arena' mm' \<longleftrightarrow>
     same_outside mm mm' {t} \<and>
     (status = DOS_MEMORY_OK \<and> arena' = arena \<and> chain (par mm') h (relabel_at h bs t owner) \<or>
      status = DOS_MEMORY_MACHINE_FAULT \<and> arena' = arena \<and> mm' = mm \<or>
      status = DOS_MEMORY_MACHINE_POISONED \<and> arena' = poisoned_arena arena)"

context guest_backend
begin

lemma replace_relabels:
  assumes "ready b" "chain (par (mem b)) h bs" "find_at h bs t = Some blk" "length r = 16"
    "mcb_signature r = mcb_signature (par (mem b) t)" "mcb_size r = mcb_size (par (mem b) t)"
    "mcb_owner r = owner" "replace_record_bytes arena m b (seg t) r = (status, arena', b')"
  shows "ready b' \<and> reach b' = reach b \<and> relabelled (mem b) h bs t owner arena status arena' (mem b') \<and>
    (paras_reachable m (reach b) h (h + span bs) \<longrightarrow> status = DOS_MEMORY_OK)"
proof -
  have t: "t < 0x10000" "h \<le> t" "t < h + span bs" using chain_find_at [OF assms(2,3)] by simp_all
  have "paras_reachable m (reach b) t (Suc t)" if "paras_reachable m (reach b) h (h + span bs)"
    using that t by (auto elim: paras_reachable_mono)
  with replace_record_cases [OF assms(1) t(1) assms(4,8)] replace_record_total [OF assms(1) t(1) assms(4) _ assms(8)]
    chain_relabel_at [OF assms(2,3,5,6,7)]
  show ?thesis by (auto simp: relabelled_def)
qed

theorem free_owned_refines:
  assumes "ready b" "chain (par (mem b)) (unat (head_segment arena)) bs" "arena_is_ready arena = DOS_MEMORY_OK"
    "dos_memory_free_owned_checked arena m b block expected = (status, arena', b')"
  defines "h \<equiv> unat (head_segment arena)" and "t \<equiv> unat (block - 1)"
  shows "ready b' \<and> reach b' = reach b \<and>
    (if expected = MCB_OWNER_FREE then status = DOS_MEMORY_INVALID_ARGUMENT \<and> arena' = arena \<and> b' = b
     else status = DOS_MEMORY_MACHINE_FAULT \<and> arena' = arena \<and> mem b' = mem b \<or>
       (case find_at h bs t of
          None \<Rightarrow> status = DOS_MEMORY_INVALID_BLOCK \<and> arena' = arena \<and> b' = b
        | Some blk \<Rightarrow>
            if fst blk = expected then relabelled (mem b) h bs t MCB_OWNER_FREE arena status arena' (mem b')
            else status = DOS_MEMORY_OWNER_MISMATCH \<and> arena' = arena \<and> b' = b)) \<and>
    (paras_reachable m (reach b) h (h + span bs) \<longrightarrow> status \<noteq> DOS_MEMORY_MACHINE_FAULT \<and>
       status \<noteq> DOS_MEMORY_MACHINE_POISONED)"
proof -
  note L = locate_mcb_refines [OF assms(1,2), of "block - 1", folded h_def t_def]
  have run: "free_checked_common arena m b block True expected = (status, arena', b')"
    using assms(4) by (simp add: dos_memory_free_owned_checked_def)
  show ?thesis
  proof (cases "expected = MCB_OWNER_FREE \<or> locate_mcb arena m b (block - 1) = Inl DOS_MEMORY_MACHINE_FAULT \<or>
      find_at h bs t = None")
    case True
    with run L assms(1,3) show ?thesis
      by (cases "expected = MCB_OWNER_FREE"; cases "find_at h bs t")
         (auto simp: free_checked_common_def Let_def split: if_splits)
  next
    case False
    then obtain blk where f: "find_at h bs t = Some blk" and loc: "locate_mcb arena m b (block - 1) = Inr (par (mem b) t)"
      using L(1) by auto
    note C = chain_find_at [OF assms(2) [folded h_def] f]
    have len: "length (par (mem b) t) = 16" using C(4) by (simp add: length_par)
    have go: "(if fst blk = expected then replace_record_bytes arena m b (seg t) (mcb_set_owner (par (mem b) t) MCB_OWNER_FREE)
        else (DOS_MEMORY_OWNER_MISMATCH, arena, b)) = (status, arena', b')"
      using run False loc assms(3) C(1) by (auto simp: free_checked_common_def Let_def t_def split: if_splits)
    show ?thesis
    proof (cases "fst blk = expected")
      case True
      with go have rep: "replace_record_bytes arena m b (seg t) (mcb_set_owner (par (mem b) t) MCB_OWNER_FREE) = (status, arena', b')"
        by simp
      from replace_relabels [OF assms(1) assms(2) [folded h_def] f _ _ _ _ rep, of MCB_OWNER_FREE] True False f len
      show ?thesis by (auto simp: mcb_simps)
    next
      case other: False
      with go f False assms(1) show ?thesis by auto
    qed
  qed
qed

text \<open>The unverified release of INT 21h/49h, on a header of the chain.\<close>

theorem free_refines:
  assumes "ready b" "chain (par (mem b)) (unat (head_segment arena)) bs" "arena_is_ready arena = DOS_MEMORY_OK"
    "find_at (unat (head_segment arena)) bs (unat (block - 1)) = Some blk"
    "dos_memory_free_checked arena m b block = (status, arena', b')"
  defines "h \<equiv> unat (head_segment arena)" and "t \<equiv> unat (block - 1)"
  shows "ready b' \<and> reach b' = reach b \<and> relabelled (mem b) h bs t MCB_OWNER_FREE arena status arena' (mem b') \<and>
    (paras_reachable m (reach b) h (h + span bs) \<longrightarrow> status = DOS_MEMORY_OK)"
proof -
  note C = chain_find_at [OF assms(2,4), folded h_def t_def]
  have t: "t < 0x10000" using C(4) by simp
  have len: "length (par (mem b) t) = 16" using t by (rule length_par)
  have sub: "paras_reachable m (reach b) t (Suc t)" if "paras_reachable m (reach b) h (h + span bs)"
    using that C(5,6) by (auto elim: paras_reachable_mono)
  have block: "block - 1 = seg t" by (simp add: t_def)
  show ?thesis
  proof (cases "read_record_bytes m b (seg t) = Inr (par (mem b) t)")
    case True
    then have rep: "replace_record_bytes arena m b (seg t) (mcb_set_owner (par (mem b) t) MCB_OWNER_FREE) = (status, arena', b')"
      using assms(3,5) C(3) block
      by (simp add: dos_memory_free_checked_def free_checked_common_def Let_def)
    from replace_relabels [OF assms(1) assms(2) [folded h_def] assms(4) [folded h_def t_def] _ _ _ _ rep, of MCB_OWNER_FREE] len
    show ?thesis by (auto simp: mcb_simps)
  next
    case False
    then have f: "read_record_bytes m b (seg t) = Inl DOS_MEMORY_MACHINE_FAULT"
      using read_record_cases [OF assms(1) t] by simp
    then have "status = DOS_MEMORY_MACHINE_FAULT" "arena' = arena" "b' = b"
      using assms(3,5) block by (simp_all add: dos_memory_free_checked_def free_checked_common_def Let_def)
    with assms(1) f sub read_record_total [OF assms(1) t] show ?thesis by (auto simp: relabelled_def)
  qed
qed

section \<open>Transfer of ownership\<close>

theorem transfer_refines:
  assumes "ready b" "chain (par (mem b)) (unat (head_segment arena)) bs" "arena_is_ready arena = DOS_MEMORY_OK"
    "find_at (unat (head_segment arena)) bs (unat (block - 1)) = Some (expected, n)"
    "expected \<noteq> MCB_OWNER_FREE" "new \<noteq> MCB_OWNER_FREE"
    "(name = None \<and> count = 0) \<or> (name \<noteq> None \<and> count \<noteq> 0 \<and> count \<le> 8)"
    "transfer_owner_checked_common arena m b block expected new name count = (status, arena', b')"
  defines "h \<equiv> unat (head_segment arena)" and "t \<equiv> unat (block - 1)"
  shows "ready b' \<and> reach b' = reach b \<and> relabelled (mem b) h bs t new arena status arena' (mem b') \<and>
    (paras_reachable m (reach b) h (h + span bs) \<longrightarrow> status = DOS_MEMORY_OK)"
proof -
  note L = locate_mcb_refines [OF assms(1,2), of "block - 1", folded h_def t_def]
  note C = chain_find_at [OF assms(2,4), folded h_def t_def]
  have len: "length (par (mem b) t) = 16" using C(4) by (simp add: length_par)
  have args: "\<not> (expected = MCB_OWNER_FREE \<or> new = MCB_OWNER_FREE \<or> (name = None \<and> count \<noteq> 0) \<or>
      (name \<noteq> None \<and> (count = 0 \<or> count > 8)))"
    using assms(5-7) by auto
  show ?thesis
  proof (cases "locate_mcb arena m b (block - 1) = Inl DOS_MEMORY_MACHINE_FAULT")
    case True
    then have "prepare_owner_rebind_checked_common arena m b block expected new name count
        = Inl DOS_MEMORY_MACHINE_FAULT"
      using args assms(3) unfolding prepare_owner_rebind_checked_common_def by (simp add: Let_def)
    with assms(1,8) True L(2) show ?thesis
      by (auto simp: transfer_owner_checked_common_def relabelled_def)
  next
    case False
    then have loc: "locate_mcb arena m b (block - 1) = Inr (par (mem b) t)"
      using L(1) assms(4) [folded h_def t_def] by simp
    let ?r = "case name of None \<Rightarrow> mcb_set_owner (par (mem b) t) new
      | Some nm \<Rightarrow> mcb_patch_owner_name (mcb_set_owner (par (mem b) t) new) nm (unat count)"
    have r: "length ?r = 16" "mcb_signature ?r = mcb_signature (par (mem b) t)"
      "mcb_size ?r = mcb_size (par (mem b) t)" "mcb_owner ?r = new"
      using len by (auto simp: mcb_simps split: option.splits)
    have extent: "mcb_extent_is_valid (block - 1) ?r" "mcb_signature_is_valid ?r"
      using C(2,3,4) r by (auto simp: mcb_extent_is_valid_def mcb_signature_is_valid_def t_def)
    have "prepare_owner_rebind_checked_common arena m b block expected new name count =
        Inr \<lparr>rebind_header = block - 1, rebind_expected = expected, rebind_new = new,
             rebind_reserved = [0, 0], rebind_bytes = ?r\<rparr>"
      using args assms(3) loc C(1) extent r(4) unfolding prepare_owner_rebind_checked_common_def
      by (simp add: Let_def dos_memory_owner_rebind_value_has_valid_encoding_def)
    then have rep: "replace_record_bytes arena m b (seg t) ?r = (status, arena', b')"
      using assms(8) by (simp add: transfer_owner_checked_common_def t_def)
    show ?thesis
      by (rule replace_relabels [OF assms(1) assms(2) [folded h_def] assms(4) [folded h_def t_def] r rep])
  qed
qed

end

section \<open>Resizing\<close>

text \<open>\<open>abs_resize\<close>: the block swallows the free blocks behind it; if it is then large enough it is cut
  to size and relabelled. The result is the new arena, whether the request was met, and the size
  the block could have had.\<close>

fun abs_resize :: "nat \<Rightarrow> block list \<Rightarrow> nat \<Rightarrow> u16 \<Rightarrow> nat \<Rightarrow> block list \<times> bool \<times> nat" where
  "abs_resize s [] t owner requested = ([], False, 0)"
| "abs_resize s (blk # bs) t owner requested =
     (if s = t then
        (case merge_free blk bs of (blk', bs') \<Rightarrow>
           if requested \<le> snd blk' then (split_low owner requested (snd blk') @ bs', True, snd blk')
           else (blk' # bs', False, snd blk'))
      else (case abs_resize (s + snd blk + 1) bs t owner requested of
              (cs, met, n) \<Rightarrow> (blk # cs, met, n)))"

lemma abs_resize_split:
  assumes "merge_free blk post = (blk', post')"
  shows "abs_resize s (pre @ blk # post) (s + span pre) owner requested =
    (if requested \<le> snd blk' then (pre @ split_low owner requested (snd blk') @ post', True, snd blk')
     else (pre @ blk' # post', False, snd blk'))"
proof (induction pre arbitrary: s)
  case (Cons c pre)
  from Cons.IH [of "s + snd c + 1"] show ?case by (simp add: add.assoc)
qed (simp add: assms)

lemma merge_free_absorbs:
  assumes "merge_free blk post = (blk', post')"
  shows "\<exists>absorbed. post = absorbed @ post' \<and> (\<forall>c \<in> set absorbed. is_free c) \<and>
    blk' = (fst blk, snd blk + span absorbed)"
  using assms
proof (induction blk post arbitrary: blk' post' rule: merge_free.induct)
  case (2 blk c bs)
  show ?case
  proof (cases "is_free c")
    case True
    with 2 obtain absorbed where "bs = absorbed @ post'" "\<forall>c \<in> set absorbed. is_free c"
      "blk' = (fst blk, snd blk + snd c + 1 + span absorbed)" by auto
    with True show ?thesis by (intro exI [of _ "c # absorbed"]) simp
  qed (use 2 in auto)
qed simp

definition resized ::
  "memory \<Rightarrow> nat \<Rightarrow> block list \<Rightarrow> nat \<Rightarrow> u16 \<Rightarrow> u16 \<Rightarrow> dos_memory_arena
     \<Rightarrow> dos_memory_status \<Rightarrow> dos_memory_arena \<Rightarrow> memory \<Rightarrow> u16 \<Rightarrow> bool" where
  "resized mm h bs t owner requested arena status arena' mm' maximum \<longleftrightarrow>
     (case abs_resize h bs t owner (unat requested) of (cs, met, n) \<Rightarrow>
        same_outside mm mm' {t..t + n} \<and>
        (status = (if met then DOS_MEMORY_OK else DOS_MEMORY_NOT_ENOUGH_MEMORY) \<and> arena' = arena \<and>
           maximum = seg n \<and> chain (par mm') h cs \<or>
         status = DOS_MEMORY_MACHINE_FAULT \<and> arena' = arena \<and>
           (\<exists>pre blk absorbed post. bs = pre @ blk # absorbed @ post \<and> t = h + span pre \<and>
              (\<forall>c \<in> set absorbed. is_free c) \<and>
              chain (par mm') h (pre @ (fst blk, snd blk + span absorbed) # post)) \<or>
         status = DOS_MEMORY_MACHINE_POISONED \<and> arena' = poisoned_arena arena))"

lemma resized_fault:
  assumes "bs = pre @ blk # absorbed @ post" "t = h + span pre" "\<forall>c \<in> set absorbed. is_free c"
    "links (par mm) h pre" "chain (par mm') t ((fst blk, snd blk + span absorbed) # post)"
    "same_outside mm mm' {t..t + snd blk'}" "merge_free blk (absorbed @ post) = (blk', post')"
  shows "resized mm h bs t owner requested arena DOS_MEMORY_MACHINE_FAULT arena mm' maximum"
proof -
  have "headers h pre \<inter> {t..t + snd blk'} = {}" using headers_range assms(2) by fastforce
  then have "links (par mm') h pre" using same_outside_links [OF assms(6)] assms(4) by simp
  then have "chain (par mm') h (pre @ (fst blk, snd blk + span absorbed) # post)"
    using assms(2,5) by (simp add: chain_append del: chain.simps)
  then have "\<exists>pre blk absorbed post. bs = pre @ blk # absorbed @ post \<and> t = h + span pre \<and>
      (\<forall>c \<in> set absorbed. is_free c) \<and> chain (par mm') h (pre @ (fst blk, snd blk + span absorbed) # post)"
    using assms(1-3) by blast
  then show ?thesis
    using assms(6) abs_resize_split [OF assms(7), of h pre owner "unat requested", folded assms(1,2)]
    unfolding resized_def by (auto split: prod.splits if_splits)
qed

context guest_backend
begin

lemma resize_after_coalescing:
  assumes "ready b1" "chain (par (mem b1)) t (blk' # post')" "merge_free blk post = (blk', post')"
    "links (par mm) h pre" "t = h + span pre" "bs = pre @ blk # post"
    "same_outside mm (mem b1) {t}"
    "(if paragraphs > seg (snd blk') then (DOS_MEMORY_NOT_ENOUGH_MEMORY, arena, b1, seg (snd blk'))
      else (let (status, arena2, b2, _) = allocate_low arena m b1 (seg t) paragraphs owner None
            in (status, arena2, b2, seg (snd blk')))) = (status, arena', b', maximum)"
  shows "ready b' \<and> reach b' = reach b1 \<and>
    resized mm h bs t owner paragraphs arena status arena' (mem b') maximum \<and>
    (paras_reachable m (reach b1) t (t + snd blk' + 1) \<longrightarrow>
       status = DOS_MEMORY_OK \<or> status = DOS_MEMORY_NOT_ENOUGH_MEMORY)"
proof -
  have n: "snd blk' < 0x10000" using assms(2) by (simp add: block_at_def)
  have wide: "same_outside mm (mem b1) {t..t + snd blk'}"
    using assms(7) by (rule same_outside_mono) simp
  have away: "headers h pre \<inter> {t..t + snd blk'} = {}" using headers_range assms(5) by fastforce
  note abs = abs_resize_split [OF assms(3), of h pre owner "unat paragraphs", folded assms(5,6)]
  show ?thesis
  proof (cases "unat paragraphs \<le> snd blk'")
    case False
    then have "paragraphs > seg (snd blk')" using n by (simp add: word_less_nat_alt)
    then have "status = DOS_MEMORY_NOT_ENOUGH_MEMORY" "arena' = arena" "b' = b1" "maximum = seg (snd blk')"
      using assms(8) by simp_all
    with False assms(1,2,4,5) abs wide same_outside_links [OF wide away] show ?thesis
      by (auto simp: resized_def chain_append simp del: chain.simps)
  next
    case True
    then have "\<not> paragraphs > seg (snd blk')" using n by (simp add: word_less_nat_alt)
    then obtain bl where run: "allocate_low arena m b1 (seg t) paragraphs owner None = (status, arena', b', bl)"
      and maxi: "maximum = seg (snd blk')" using assms(8) by (auto split: prod.splits)
    note A = allocate_low_refines [OF assms(1,2) True run]
    have out: "same_outside mm (mem b') {t..t + snd blk'}"
      using A same_outside_trans [OF wide] by (simp add: carved_def)
    obtain absorbed where ab: "post = absorbed @ post'" "\<forall>c \<in> set absorbed. is_free c"
      "blk' = (fst blk, snd blk + span absorbed)" using merge_free_absorbs [OF assms(3)] by blast
    have ne: "split_low owner (unat paragraphs) (snd blk') \<noteq> []" by (simp add: split_low_def)
    consider (ok) "status = DOS_MEMORY_OK" | (fault) "status = DOS_MEMORY_MACHINE_FAULT"
      | (poison) "status = DOS_MEMORY_MACHINE_POISONED" using A by (auto simp: carved_def)
    then show ?thesis
    proof cases
      case fault
      then have "arena' = arena" "chain (par (mem b')) t ((fst blk, snd blk + span absorbed) # post')"
        using A assms(2) ab by (auto simp: carved_def)
      with resized_fault [of bs pre blk absorbed post' t h mm "mem b'" blk' post'] A fault ab assms(3-6) out
      show ?thesis by auto
    qed (use A True abs out maxi ne same_outside_links [OF out away] assms(4,5) in
        \<open>auto simp: resized_def carved_def chain_append\<close>)
  qed
qed

theorem resize_refines:
  assumes "ready b" "chain (par (mem b)) (unat (head_segment arena)) bs" "arena_is_ready arena = DOS_MEMORY_OK"
    "find_at (unat (head_segment arena)) bs (unat (block - 1)) = Some blk"
    "dos_memory_resize_checked arena m b block owner paragraphs = (status, arena', b', maximum)"
  defines "h \<equiv> unat (head_segment arena)" and "t \<equiv> unat (block - 1)"
  shows "ready b' \<and> reach b' = reach b \<and>
    resized (mem b) h bs t owner paragraphs arena status arena' (mem b') maximum \<and>
    (paras_reachable m (reach b) h (h + span bs) \<longrightarrow>
       status = DOS_MEMORY_OK \<or> status = DOS_MEMORY_NOT_ENOUGH_MEMORY)"
proof -
  obtain pre post where bs: "bs = pre @ blk # post" "t = h + span pre"
    using assms(4) [folded h_def t_def] by (rule find_at_split)
  have ch: "chain (par (mem b)) t (blk # post)" and links: "links (par (mem b)) h pre"
    using assms(2) bs by (simp_all add: chain_append h_def)
  obtain blk' post' where mf: "merge_free blk post = (blk', post')" by fastforce
  have block: "block - 1 = seg t" by (simp add: t_def)
  note spans = merge_free_span [OF mf]
  have sub: "paras_reachable m (reach b) t (Suc t)" "paras_reachable m (reach b) t (t + span (blk # post))"
    "paras_reachable m (reach b) t (t + snd blk' + 1)" if "paras_reachable m (reach b) h (h + span bs)"
    using that bs spans by (auto elim: paras_reachable_mono)
  show ?thesis
  proof (cases "read_mcb m b (seg t) = Inr (par (mem b) t)")
    case False
    then have "read_mcb m b (seg t) = Inl DOS_MEMORY_MACHINE_FAULT"
      using chain_read_mcb(1) [OF assms(1) ch] by simp
    then have "status = DOS_MEMORY_MACHINE_FAULT" "arena' = arena" "b' = b"
      using assms(3,5) block by (simp_all add: dos_memory_resize_checked_def Let_def)
    with assms(1) False sub(1) chain_read_mcb(2) [OF assms(1) ch]
      resized_fault [of bs pre blk "[]" post t h "mem b" "mem b" blk' post'] bs links ch mf show ?thesis by auto
  next
    case True
    obtain st1 a1 b1 r1 where co: "coalesce_forward arena m b (seg t) (par (mem b) t) = (st1, a1, b1, r1)"
      by (metis prod_cases4)
    note C = coalesce_forward_refines [OF assms(1) ch co]
    have wide: "same_outside (mem b) (mem b1) {t..t + snd blk'}"
      using C same_outside_mono [of "mem b" "mem b1" "{t}"] by (simp add: coalesced_def)
    have bad: "status = st1 \<and> arena' = a1 \<and> b' = b1" if "st1 \<noteq> DOS_MEMORY_OK"
      using assms(3,5) block True co that by (simp add: dos_memory_resize_checked_def Let_def)
    consider (ok) "st1 = DOS_MEMORY_OK" | (fault) "st1 = DOS_MEMORY_MACHINE_FAULT"
      | (poison) "st1 = DOS_MEMORY_MACHINE_POISONED" using C by (auto simp: coalesced_def)
    then show ?thesis
    proof cases
      case ok
      have ch1: "chain (par (mem b1)) t (blk' # post')" and a1: "a1 = arena" and r1: "r1 = par (mem b1) t"
        and so: "same_outside (mem b) (mem b1) {t}"
        using C ok mf by (auto simp: coalesced_def)
      have go: "(if paragraphs > seg (snd blk') then (DOS_MEMORY_NOT_ENOUGH_MEMORY, arena, b1, seg (snd blk'))
          else (let (status, arena2, b2, _) = allocate_low arena m b1 (seg t) paragraphs owner None
                in (status, arena2, b2, seg (snd blk')))) = (status, arena', b', maximum)"
        using assms(3,5) block True co ok a1 r1 chain_head(2) [OF ch1]
        by (simp add: dos_memory_resize_checked_def Let_def case_prod_beta cong: if_cong)
      from resize_after_coalescing [OF _ ch1 mf links bs(2,1) so go] C sub(3) show ?thesis by auto
    next
      case fault
      then obtain absorbed rest where "post = absorbed @ rest" "\<forall>c \<in> set absorbed. is_free c"
        "chain (par (mem b1)) t ((fst blk, snd blk + span absorbed) # rest)" "a1 = arena"
        using C by (auto simp: coalesced_def)
      with resized_fault [of bs pre blk absorbed rest t h "mem b" "mem b1" blk' post'] bs links wide mf
        bad fault C sub(2) show ?thesis by auto
    next
      case poison
      with C bad wide sub(2) abs_resize_split [OF mf, of h pre owner "unat paragraphs"] bs show ?thesis
        by (auto simp: resized_def coalesced_def)
    qed
  qed
qed

end

end
