(* ===== verification/McbInvariant.thy ===== *)
theory McbInvariant
  imports McbLifecycle
begin

text \<open>
  Process teardown and initialisation of the arena, and the invariant of arbitrary sequences of arena
  calls over a backend that may fail at any access: the arena object is poisoned, or memory holds a
  well-formed chain that covers exactly the paragraphs the arena was initialised with.
\<close>

section \<open>Process teardown\<close>

definition release_all :: "u16 \<Rightarrow> block list \<Rightarrow> block list" where
  "release_all owner bs = map (\<lambda>blk. (if fst blk = owner then MCB_OWNER_FREE else fst blk, snd blk)) bs"

lemma span_release_all [simp]: "span (release_all owner bs) = span bs"
  by (induction bs) (simp_all add: release_all_def)

lemma headers_release_all [simp]: "headers s (release_all owner bs) = headers s bs"
  by (induction bs arbitrary: s) (simp_all add: release_all_def)

lemma release_all_simps [simp]:
  "release_all owner (blk # bs) =
     (if fst blk = owner then MCB_OWNER_FREE else fst blk, snd blk) # release_all owner bs"
  "release_all owner [] = []" "release_all owner bs = [] \<longleftrightarrow> bs = []"
  by (simp_all add: release_all_def)

definition torn_down ::
  "memory \<Rightarrow> nat \<Rightarrow> block list \<Rightarrow> u16 \<Rightarrow> bool \<Rightarrow> dos_memory_arena
     \<Rightarrow> dos_memory_status \<Rightarrow> dos_memory_arena \<Rightarrow> memory \<Rightarrow> bool" where
  "torn_down mm s bs owner changed arena status arena' mm' \<longleftrightarrow>
     same_outside mm mm' (headers s bs) \<and>
     (status = DOS_MEMORY_OK \<and> arena' = arena \<and> chain (par mm') s (release_all owner bs) \<or>
      status = DOS_MEMORY_MACHINE_FAULT \<and> \<not> changed \<and> arena' = arena \<and> mm' = mm \<or>
      status = DOS_MEMORY_MACHINE_POISONED \<and> arena' = poisoned_arena arena)"

lemma torn_down_lift:
  assumes "torn_down mm1 (s + snd blk + 1) bs owner changed' arena status arena' mm'"
    and "chain (par mm1) s ((if fst blk = owner then MCB_OWNER_FREE else fst blk, snd blk) # bs)" "bs \<noteq> []"
    and "same_outside mm mm1 {s}" "\<not> changed' \<Longrightarrow> mm1 = mm" "changed \<Longrightarrow> changed'"
  shows "torn_down mm s (blk # bs) owner changed arena status arena' mm'"
proof -
  have "s \<notin> headers (s + snd blk + 1) bs" using headers_range by fastforce
  then have "par mm' s = par mm1 s"
    using assms(1) by (auto simp: torn_down_def intro: same_outside_par)
  with chain_Cons_lift [OF assms(2,3), of "par mm'" "release_all owner bs"]
  have ok: "chain (par mm') s (release_all owner (blk # bs))"
    if "chain (par mm') (s + snd blk + 1) (release_all owner bs)"
    using that by (simp del: chain.simps)
  have out: "same_outside mm mm' (headers s (blk # bs))"
    using assms(1,4) by (auto simp: torn_down_def same_outside_def)
  consider "status = DOS_MEMORY_OK" | "status = DOS_MEMORY_MACHINE_FAULT"
    | "status = DOS_MEMORY_MACHINE_POISONED" using assms(1) by (auto simp: torn_down_def)
  then show ?thesis
    using assms(1,5,6) out ok by cases (auto simp: torn_down_def simp del: release_all_simps)
qed

context guest_backend
begin

lemma free_process_loop_refines:
  assumes "ready b" "chain (par (mem b)) s bs" "length bs \<le> steps"
    "free_process_loop steps arena m b owner (seg s) changed = (status, arena', b')"
  shows "ready b' \<and> reach b' = reach b \<and> torn_down (mem b) s bs owner changed arena status arena' (mem b') \<and>
    (paras_reachable m (reach b) s (s + span bs) \<longrightarrow> status = DOS_MEMORY_OK)"
  using assms
proof (induction bs arbitrary: s b changed steps)
  case (Cons blk bs)
  let ?P = "par (mem b)" and ?t = "s + snd blk + 1"
  let ?blk = "(if fst blk = owner then MCB_OWNER_FREE else fst blk, snd blk)"
  obtain k where k: "steps = Suc k" using Cons.prems(3) by (cases steps) auto
  note ch = Cons.prems(2) and head = chain_head [OF Cons.prems(2)]
  have s: "s < 0x10000" using chain_bound [OF ch] by simp
  have len: "length (mcb_set_owner (?P s) MCB_OWNER_FREE) = 16" using length_par [OF s] by (simp add: mcb_simps)
  have sub: "paras_reachable m (reach b) s (Suc s)" "paras_reachable m (reach b) ?t (?t + span bs)"
    if "paras_reachable m (reach b) s (s + span (blk # bs))"
    using that by (auto elim: paras_reachable_mono)
  note run = Cons.prems(4) [unfolded k free_process_loop.simps]
  have continue: ?case
    if step: "ready b1" "reach b1 = reach b" "same_outside (mem b) (mem b1) {s}" "\<not> changed1 \<Longrightarrow> mem b1 = mem b"
      "changed \<Longrightarrow> changed1" "chain (par (mem b1)) s (?blk # bs)"
      and go: "(if bs = [] then (DOS_MEMORY_OK, arena, b1)
        else free_process_loop k arena m b1 owner (seg ?t) changed1) = (status, arena', b')"
    for b1 changed1
  proof (cases "bs = []")
    case True
    with step go show ?thesis by (auto simp: torn_down_def)
  next
    case False
    have "chain (par (mem b1)) ?t bs" using step(6) False by simp
    with Cons.IH [OF step(1) _ _, of ?t k changed1] go False Cons.prems(3) k step(2) sub
      torn_down_lift [OF _ step(6) False step(3,4,5)]
    show ?thesis by (auto simp del: span_simps)
  qed
  consider (fault) "read_mcb m b (seg s) = Inl DOS_MEMORY_MACHINE_FAULT"
    | (other) "read_mcb m b (seg s) = Inr (?P s)" "fst blk \<noteq> owner"
    | (mine) "read_mcb m b (seg s) = Inr (?P s)" "fst blk = owner"
    using chain_read_mcb(1) [OF Cons.prems(1) ch] by blast
  then show ?case
  proof cases
    case fault
    with run Cons.prems(1) chain_read_mcb(2) [OF Cons.prems(1) ch] sub(1) show ?thesis
      by (cases changed) (auto simp: torn_down_def poisoned_arena_def simp del: span_simps)
  next
    case other
    then show ?thesis
      using run head chain_next [OF ch] Cons.prems(1) ch
      by (intro continue [of b changed]) (auto split: if_splits)
  next
    case mine
    obtain st a1 b1 where rep: "replace_record_bytes arena m b (seg s) (mcb_set_owner (?P s) MCB_OWNER_FREE) = (st, a1, b1)"
      by (metis prod_cases3)
    note R = replace_record_cases [OF Cons.prems(1) s len rep]
    show ?thesis
    proof (cases "st = DOS_MEMORY_OK")
      case False
      have wide: "same_outside (mem b) (mem b1) (headers s (blk # bs))"
        using R by (auto elim: same_outside_mono)
      have "status = (if changed then DOS_MEMORY_MACHINE_POISONED else st) \<and> b' = b1 \<and>
          arena' = (if changed then poisoned_arena a1 else a1)"
        using run mine head rep False R by (auto simp: poisoned_arena_def split: if_splits)
      with False R wide replace_record_total [OF Cons.prems(1) s len _ rep] sub(1) show ?thesis
        by (auto simp: torn_down_def simp del: headers.simps span_simps split: if_splits)
    next
      case True
      have ch1: "chain (par (mem b1)) s (?blk # bs)"
        using R True mine chain_relabel [OF ch, of "mcb_set_owner (?P s) MCB_OWNER_FREE" MCB_OWNER_FREE] length_par [OF s]
        by (auto simp: mcb_simps simp del: chain.simps)
      then show ?thesis
        using run mine head rep R True chain_next [OF ch] length_par [OF s, of "mem b"]
        by (intro continue [of b1 True])
          (auto simp: mcb_simps next_mcb_segment_def split: if_splits simp del: chain.simps)
    qed
  qed
qed simp

theorem free_process_refines:
  assumes "ready b" "chain (par (mem b)) (unat (head_segment arena)) bs" "arena_is_ready arena = DOS_MEMORY_OK"
    "dos_memory_free_process_checked arena m b owner = (status, arena', b')"
  defines "h \<equiv> unat (head_segment arena)"
  shows "ready b' \<and> reach b' = reach b \<and> torn_down (mem b) h bs owner False arena status arena' (mem b') \<and>
    (paras_reachable m (reach b) h (h + span bs) \<longrightarrow> status = DOS_MEMORY_OK)"
  using free_process_loop_refines [OF assms(1,2), of MCB_MAXIMUM_WALK arena owner False status arena' b']
    chain_length [OF assms(2)] assms(3,4)
  by (simp add: dos_memory_free_process_checked_def MCB_MAXIMUM_WALK_def h_def)

section \<open>Initialisation\<close>

theorem initialize_refines:
  assumes "ready b" "dos_memory_arena_initialize_checked arena m b head end_segment = (DOS_MEMORY_OK, arena', b')"
  shows "ready b' \<and> reach b' = reach b \<and> same_outside (mem b) (mem b') {unat head} \<and> head < end_segment \<and>
    chain (par (mem b')) (unat head) [(MCB_OWNER_FREE, unat end_segment - unat head - 1)] \<and>
    arena_is_ready arena' = DOS_MEMORY_OK \<and> head_segment arena' = head \<and> strategy arena' = 0 \<and>
    generation arena' = generation arena + 1"
proof -
  let ?n = "unat end_segment - unat head - 1"
  let ?r = "mcb_set_size (mcb_set_owner (mcb_set_signature (replicate MCB_BYTES 0) MCB_SIGNATURE_END)
      MCB_OWNER_FREE) (of_nat ?n)"
  obtain st a1 b1 where rep: "replace_record_bytes arena m b head ?r = (st, a1, b1)" by (metis prod_cases3)
  have ok: "arena_flags_have_valid_encoding arena" "arena_identity_is_valid (identity arena)"
    "head < end_segment" "machine_poisoned arena \<noteq> 1" "generation arena \<noteq> DOS_MEMORY_GENERATION_MAX"
    "st = DOS_MEMORY_OK" "b' = b1"
    "arena' = a1\<lparr>generation := generation a1 + 1, head_segment := head, strategy := 0, initialized := 1,
       machine_poisoned := 0, constructed := 1\<rparr>"
    using assms(2) rep by (auto simp: dos_memory_arena_initialize_checked_def Let_def split: if_splits)
  have hd: "unat head < 0x10000" by (rule unat_u16_less)
  have zeros: "length (replicate MCB_BYTES (0 :: u8)) = 16" by (simp add: MCB_BYTES_def)
  then have len: "length ?r = 16" by (simp add: mcb_simps)
  note R = replace_record_cases [OF assms(1) hd len] rep
  have a1: "a1 = arena" "par (mem b1) = (par (mem b))(unat head := ?r)" "ready b1" "reach b1 = reach b"
    "same_outside (mem b) (mem b1) {unat head}"
    using replace_record_cases [OF assms(1) hd len, of arena st a1 b1] rep ok(6) by auto
  have less: "unat head < unat end_segment" using ok(3) by (simp add: word_less_nat_alt)
  have n: "unat (of_nat ?n :: u16) = ?n"
    using unat_u16_less [of end_segment] by (simp add: unat_of_nat)
  have "chain (par (mem b1)) (unat head) [(MCB_OWNER_FREE, ?n)]"
    using less unat_u16_less [of end_segment] n zeros by (simp add: a1(2) block_at_def mcb_simps)
  moreover have "generation arena + 1 \<noteq> 0"
    using ok(5) by (auto simp: DOS_MEMORY_GENERATION_MAX_def eq_neg_iff_add_eq_0)
  then have "arena_is_ready arena' = DOS_MEMORY_OK"
    using ok(1,2,8) a1(1) by (simp add: arena_is_ready_def arena_flags_have_valid_encoding_def)
  ultimately show ?thesis using ok a1 by simp
qed

lemma initialize_total:
  assumes "ready b" "arena_flags_have_valid_encoding arena" "arena_identity_is_valid (identity arena)"
    "machine_poisoned arena = 0" "generation arena \<noteq> DOS_MEMORY_GENERATION_MAX" "head < end_segment"
    "paras_reachable m (reach b) (unat head) (Suc (unat head))"
  shows "fst (dos_memory_arena_initialize_checked arena m b head end_segment) = DOS_MEMORY_OK"
proof -
  let ?r = "mcb_set_size (mcb_set_owner (mcb_set_signature (replicate MCB_BYTES 0) MCB_SIGNATURE_END)
      MCB_OWNER_FREE) (of_nat (unat end_segment - unat head - 1))"
  obtain st a1 b1 where rep: "replace_record_bytes arena m b head ?r = (st, a1, b1)" by (metis prod_cases3)
  have len: "length ?r = 16" by (simp add: mcb_simps MCB_BYTES_def)
  have "st = DOS_MEMORY_OK"
    using replace_record_total [OF assms(1) unat_u16_less len assms(7), of arena st a1 b1] rep by simp
  with rep assms(2-6) unat_u16_less [of end_segment] show ?thesis
    by (auto simp: dos_memory_arena_initialize_checked_def Let_def)
qed

end

section \<open>Sequences of calls\<close>

datatype arena_call =
    Allocate u16 u16
  | AllocateNamed dos_memory_owner_identity u16
  | QueryMaximum
  | Free u16
  | FreeOwned u16 u16
  | Transfer u16 u16 u16
  | Resize u16 u16 u16
  | FreeProcess u16
  | SetStrategy u8

fun arena_run :: "'b dos_machine \<Rightarrow> arena_call \<Rightarrow> dos_memory_arena \<times> 'b \<Rightarrow> dos_memory_arena \<times> 'b" where
  "arena_run m (Allocate owner n) (arena, b) =
     (case dos_memory_allocate_checked arena m b owner n of (_, arena', b', _) \<Rightarrow> (arena', b'))"
| "arena_run m (AllocateNamed owner n) (arena, b) =
     (case dos_memory_allocate_named_checked arena m b owner n of (_, arena', b', _) \<Rightarrow> (arena', b'))"
| "arena_run m QueryMaximum (arena, b) =
     (case dos_memory_query_maximum_checked arena m b of (_, arena', b', _) \<Rightarrow> (arena', b'))"
| "arena_run m (Free block) (arena, b) = snd (dos_memory_free_checked arena m b block)"
| "arena_run m (FreeOwned block owner) (arena, b) = snd (dos_memory_free_owned_checked arena m b block owner)"
| "arena_run m (Transfer block owner new) (arena, b) =
     snd (dos_memory_transfer_owner_checked arena m b block owner new)"
| "arena_run m (Resize block owner n) (arena, b) =
     (case dos_memory_resize_checked arena m b block owner n of (_, arena', b', _) \<Rightarrow> (arena', b'))"
| "arena_run m (FreeProcess owner) (arena, b) = snd (dos_memory_free_process_checked arena m b owner)"
| "arena_run m (SetStrategy s) (arena, b) = (snd (dos_memory_set_strategy_checked arena s), b)"

text \<open>INT 21h/49h and 4Ah address the record in front of the block they are given without looking it up,
  so the invariant needs that the block is one of the arena.\<close>

fun addresses_header :: "arena_call \<Rightarrow> nat \<Rightarrow> block list \<Rightarrow> bool" where
  "addresses_header (Free block) h bs = (find_at h bs (unat (block - 1)) \<noteq> None)"
| "addresses_header (Resize block owner n) h bs = (find_at h bs (unat (block - 1)) \<noteq> None)"
| "addresses_header _ h bs = True"

inductive arena_trace ::
  "'b dos_machine \<Rightarrow> ('b \<Rightarrow> memory) \<Rightarrow> dos_memory_arena \<times> 'b \<Rightarrow> dos_memory_arena \<times> 'b \<Rightarrow> bool"
  for m :: "'b dos_machine" and mem :: "'b \<Rightarrow> memory" and start :: "dos_memory_arena \<times> 'b" where
  trace_start: "arena_trace m mem start start"
| trace_call: "arena_trace m mem start (arena, b) \<Longrightarrow>
    (\<And>bs. chain (par (mem b)) (unat (head_segment arena)) bs \<Longrightarrow>
       addresses_header call (unat (head_segment arena)) bs) \<Longrightarrow>
    arena_trace m mem start (arena_run m call (arena, b))"

definition arena_inv :: "nat \<Rightarrow> nat \<Rightarrow> dos_memory_arena \<Rightarrow> memory \<Rightarrow> bool" where
  "arena_inv h paragraphs arena mm \<longleftrightarrow>
     machine_poisoned arena = 1 \<or>
     arena_is_ready arena = DOS_MEMORY_OK \<and> unat (head_segment arena) = h \<and>
     (\<exists>bs. chain (par mm) h bs \<and> span bs = paragraphs)"

lemma poisoned_not_ready: "machine_poisoned arena = 1 \<Longrightarrow> arena_is_ready arena \<noteq> DOS_MEMORY_OK"
  by (simp add: arena_is_ready_def)

lemma poison_is_sticky:
  assumes "machine_poisoned arena = 1"
  shows "arena_run m call (arena, b) = (arena, b)"
  using poisoned_not_ready [OF assms] assms
  by (cases call)
    (auto simp: dos_memory_allocate_checked_def dos_memory_allocate_named_checked_def
      allocate_checked_common_def dos_memory_query_maximum_checked_def dos_memory_free_checked_def
      dos_memory_free_owned_checked_def free_checked_common_def dos_memory_transfer_owner_checked_def
      transfer_owner_checked_common_def prepare_owner_rebind_checked_common_def
      dos_memory_resize_checked_def dos_memory_free_process_checked_def dos_memory_set_strategy_checked_def)

lemma poisoned_arena_inv [simp]: "arena_inv h paragraphs (poisoned_arena arena) mm"
  by (simp add: arena_inv_def poisoned_arena_def)

lemma arena_invI:
  assumes "arena_is_ready arena = DOS_MEMORY_OK" "unat (head_segment arena) = h"
    "chain (par mm) h bs" "span bs = paragraphs"
  shows "arena_inv h paragraphs arena mm"
  using assms by (auto simp: arena_inv_def)

lemma span_merges: "merges bs cs \<Longrightarrow> span cs = span bs"
  using merges_keeps by blast

lemma allocated_inv:
  assumes "allocated mm h bs arena owner requested status arena' mm' block maximum"
    "arena_is_ready arena = DOS_MEMORY_OK" "unat (head_segment arena) = h"
  shows "arena_inv h (span bs) arena' mm'"
  using assms(1) arena_invI [OF assms(2,3)] span_merges [OF merges_defrag [of bs]]
    abs_allocate_span [of "strategy arena" owner "unat requested" h bs]
  by (auto simp: allocated_def dest: span_merges)

lemma walked_inv:
  assumes "walked mm h bs arena requested c status arena' mm' c'"
    "arena_is_ready arena = DOS_MEMORY_OK" "unat (head_segment arena) = h"
  shows "arena_inv h (span bs) arena' mm'"
  using assms(1) arena_invI [OF assms(2,3)] span_merges [OF merges_defrag [of bs]]
  by (auto simp: walked_def dest: span_merges)

lemma relabelled_inv:
  assumes "relabelled mm h bs t owner arena status arena' mm'" "chain (par mm) h bs"
    "arena_is_ready arena = DOS_MEMORY_OK" "unat (head_segment arena) = h"
  shows "arena_inv h (span bs) arena' mm'"
  using assms(1,2) arena_invI [OF assms(3,4)] by (auto simp: relabelled_def)

lemma torn_down_inv:
  assumes "torn_down mm h bs owner changed arena status arena' mm'" "chain (par mm) h bs"
    "arena_is_ready arena = DOS_MEMORY_OK" "unat (head_segment arena) = h"
  shows "arena_inv h (span bs) arena' mm'"
  using assms(1,2) arena_invI [OF assms(3,4)] by (auto simp: torn_down_def)

lemma abs_resize_span:
  assumes "abs_resize s bs t owner requested = (cs, met, n)"
  shows "span cs = span bs"
  using assms
proof (induction s bs t owner requested arbitrary: cs met n rule: abs_resize.induct)
  case (2 s blk bs t owner requested)
  show ?case
  proof (cases "s = t")
    case True
    obtain blk' bs' where mf: "merge_free blk bs = (blk', bs')" by fastforce
    with 2 True merge_free_span [OF mf] span_split(1) [of requested "snd blk'" owner] show ?thesis
      by (auto split: if_splits)
  next
    case False
    with 2 show ?thesis by (auto split: prod.splits)
  qed
qed simp

lemma resized_inv:
  assumes "resized mm h bs t owner requested arena status arena' mm' maximum"
    "arena_is_ready arena = DOS_MEMORY_OK" "unat (head_segment arena) = h"
  shows "arena_inv h (span bs) arena' mm'"
proof -
  obtain cs met n where abs: "abs_resize h bs t owner (unat requested) = (cs, met, n)" by (metis prod_cases3)
  note spans = abs_resize_span [OF abs]
  consider (finished) "arena' = arena" "chain (par mm') h cs"
    | (fault) pre blk absorbed post where "arena' = arena" "bs = pre @ blk # absorbed @ post"
        "chain (par mm') h (pre @ (fst blk, snd blk + span absorbed) # post)"
    | (poison) "arena' = poisoned_arena arena"
    using assms(1) abs by (auto simp: resized_def)
  then show ?thesis
    by cases (auto intro!: arena_invI [OF assms(2,3)] simp: spans)
qed

lemma set_strategy_inv:
  assumes "arena_is_ready arena = DOS_MEMORY_OK" "unat (head_segment arena) = h" "chain (par mm) h bs"
  shows "arena_inv h (span bs) (snd (dos_memory_set_strategy_checked arena s)) mm"
proof (rule arena_invI [OF _ _ assms(3)])
  show "arena_is_ready (snd (dos_memory_set_strategy_checked arena s)) = DOS_MEMORY_OK"
    using assms(1) by (auto simp: dos_memory_set_strategy_checked_def arena_is_ready_def
        arena_flags_have_valid_encoding_def split: if_splits)
  show "unat (head_segment (snd (dos_memory_set_strategy_checked arena s))) = h"
    using assms(2) by (simp add: dos_memory_set_strategy_checked_def)
qed simp

context guest_backend
begin

lemma transfer_inv:
  assumes "ready b" "chain (par (mem b)) h bs" "arena_is_ready arena = DOS_MEMORY_OK"
    "unat (head_segment arena) = h"
    "dos_memory_transfer_owner_checked arena m b block expected new = (status, arena', b')"
  shows "ready b' \<and> reach b' = reach b \<and> arena_inv h (span bs) arena' (mem b')"
proof -
  note run = assms(5) [unfolded dos_memory_transfer_owner_checked_def]
  note ch = assms(2) [folded assms(4)]
  show ?thesis
  proof (cases "\<exists>n. find_at h bs (unat (block - 1)) = Some (expected, n) \<and> expected \<noteq> MCB_OWNER_FREE \<and>
      new \<noteq> MCB_OWNER_FREE")
    case True
    then obtain n where f: "find_at (unat (head_segment arena)) bs (unat (block - 1)) = Some (expected, n)"
      using assms(4) by blast
    have "(None = (None :: bytes option) \<and> (0 :: u8) = 0) \<or> (None \<noteq> (None :: bytes option) \<and> (0 :: u8) \<noteq> 0 \<and> (0 :: u8) \<le> 8)"
      by simp
    from transfer_refines [OF assms(1) ch assms(3) f _ _ this run] True assms(4)
    show ?thesis using relabelled_inv [OF _ assms(2,3,4)] by auto
  next
    case False
    have "arena' = arena \<and> b' = b"
    proof (cases "prepare_owner_rebind_checked_common arena m b block expected new None 0")
      case (Inl st)
      with run show ?thesis by (simp add: transfer_owner_checked_common_def)
    next
      case (Inr v)
      then have "expected \<noteq> MCB_OWNER_FREE" "new \<noteq> MCB_OWNER_FREE"
        "\<exists>r. locate_mcb arena m b (block - 1) = Inr r \<and> mcb_owner r = expected"
        by (auto simp: prepare_owner_rebind_checked_common_def Let_def split: if_splits sum.splits)
      with locate_mcb_refines(1) [OF assms(1) ch, of "block - 1"] False assms(4) chain_find_at(1) [OF assms(2)]
      show ?thesis by (cases "find_at h bs (unat (block - 1))") auto
    qed
    with assms(1,2,3,4) arena_invI show ?thesis by auto
  qed
qed

lemma call_keeps_inv:
  assumes "ready b" "arena_inv h paragraphs arena (mem b)" "arena_run m call (arena, b) = (arena', b')"
    "\<And>bs. chain (par (mem b)) (unat (head_segment arena)) bs \<Longrightarrow>
       addresses_header call (unat (head_segment arena)) bs"
  shows "ready b' \<and> reach b' = reach b \<and> arena_inv h paragraphs arena' (mem b')"
proof (cases "machine_poisoned arena = 1")
  case True
  with poison_is_sticky [OF True, of m call b] assms(1-3) show ?thesis by simp
next
  case False
  then obtain bs where A: "arena_is_ready arena = DOS_MEMORY_OK" "unat (head_segment arena) = h"
    and ch: "chain (par (mem b)) h bs" "span bs = paragraphs" using assms(2) by (auto simp: arena_inv_def)
  note ch' = ch(1) [folded A(2)]
  have keep: "arena_inv h paragraphs arena (mem b)" using A ch by (rule arena_invI)
  show ?thesis
  proof (cases call)
    case (Allocate owner n)
    then obtain st bl mx where "allocate_checked_common arena m b owner None n = (st, arena', b', bl, mx)"
      using assms(3) by (auto simp: dos_memory_allocate_checked_def split: prod.splits)
    from allocate_refines [OF assms(1) ch' A(1) this] show ?thesis
      using allocated_inv [OF _ A] ch(2) A(2) by auto
  next
    case (AllocateNamed owner n)
    show ?thesis
    proof (cases "psp_segment owner = MCB_OWNER_FREE")
      case True
      with AllocateNamed assms(1,3) keep show ?thesis by (auto simp: dos_memory_allocate_named_checked_def)
    next
      case False
      with AllocateNamed obtain st bl mx where
        "allocate_checked_common arena m b (psp_segment owner) (Some (owner_name owner)) n = (st, arena', b', bl, mx)"
        using assms(3) by (auto simp: dos_memory_allocate_named_checked_def split: prod.splits)
      from allocate_refines [OF assms(1) ch' A(1) this] show ?thesis
        using allocated_inv [OF _ A] ch(2) A(2) by auto
    qed
  next
    case QueryMaximum
    then obtain st c where "find_candidates arena m b 0xffff = (st, arena', b', c)"
      using assms(3) A(1) by (auto simp: dos_memory_query_maximum_checked_def split: prod.splits if_splits)
    from find_candidates_refines [OF assms(1) ch' this] show ?thesis
      using walked_inv [OF _ A] ch(2) A(2) by auto
  next
    case (Free block)
    then obtain st where run: "dos_memory_free_checked arena m b block = (st, arena', b')"
      using assms(3) by (cases "dos_memory_free_checked arena m b block") auto
    obtain blk where "find_at (unat (head_segment arena)) bs (unat (block - 1)) = Some blk"
      using assms(4) [OF ch'] Free by auto
    from free_refines [OF assms(1) ch' A(1) this run] show ?thesis
      using relabelled_inv [OF _ ch(1) A] ch(2) A(2) by auto
  next
    case (FreeOwned block owner)
    then obtain st where run: "dos_memory_free_owned_checked arena m b block owner = (st, arena', b')"
      using assms(3) by (cases "dos_memory_free_owned_checked arena m b block owner") auto
    from free_owned_refines [OF assms(1) ch' A(1) run] show ?thesis
      using relabelled_inv [OF _ ch(1) A] ch(2) A(2) keep
      by (auto split: if_splits option.splits)
  next
    case (Transfer block owner new)
    then obtain st where run: "dos_memory_transfer_owner_checked arena m b block owner new = (st, arena', b')"
      using assms(3) by (cases "dos_memory_transfer_owner_checked arena m b block owner new") auto
    from transfer_inv [OF assms(1) ch(1) A run] ch(2) show ?thesis by simp
  next
    case (Resize block owner n)
    then obtain st mx where run: "dos_memory_resize_checked arena m b block owner n = (st, arena', b', mx)"
      using assms(3) by (auto split: prod.splits)
    obtain blk where "find_at (unat (head_segment arena)) bs (unat (block - 1)) = Some blk"
      using assms(4) [OF ch'] Resize by auto
    from resize_refines [OF assms(1) ch' A(1) this run] show ?thesis
      using resized_inv [OF _ A] ch(2) A(2) by auto
  next
    case (FreeProcess owner)
    then obtain st where run: "dos_memory_free_process_checked arena m b owner = (st, arena', b')"
      using assms(3) by (cases "dos_memory_free_process_checked arena m b owner") auto
    from free_process_refines [OF assms(1) ch' A(1) run] show ?thesis
      using torn_down_inv [OF _ ch(1) A] ch(2) A(2) by auto
  next
    case (SetStrategy s)
    with assms(1,3) set_strategy_inv [OF A ch(1)] ch(2) show ?thesis by auto
  qed
qed

theorem trace_keeps_inv:
  assumes "arena_trace m mem (arena, b) final" "ready b" "arena_inv h paragraphs arena (mem b)"
  shows "ready (snd final) \<and> reach (snd final) = reach b \<and> arena_inv h paragraphs (fst final) (mem (snd final))"
  using assms
proof (induction rule: arena_trace.induct)
  case (trace_call arena' b' call)
  obtain a2 b2 where run: "arena_run m call (arena', b') = (a2, b2)" by fastforce
  from call_keeps_inv [OF _ _ run, of h paragraphs] trace_call run show ?case by simp
qed simp

end

end
