(* ===== verification/GuestSpace.thy ===== *)
theory GuestSpace
  imports FirmwareShadow McbInvariant
begin

text \<open>
  The guest address space, \<open>kernel/x86_vm/guest_space.c\<close>: the part that owns the guest's view of memory
  and the A20 gate. The C global \<open>owner\<close> holds a \<open>struct dos_machine\<close> whose callbacks work on that same
  global; here the fields of that machine other than its callback table are a record of their own, and
  \<open>guest_machine\<close> puts the table back. The port callbacks go through the I/O resource registry, which is
  not modelled: they are parameters. Native buffers are kernel memory outside of every guest page and
  are passed by value.

  The theory provides the interface \<open>guest_backend\<close>: its interpretation shows that reads and writes
  through the paged, partly shadowed address space behave as one flat memory.
\<close>

declare bit_numeral_word_iff [simp del] bit_neg_numeral_word_iff [simp del]

section \<open>Model\<close>

record owner_machine =
  om_context :: u64
  om_limit :: u64
  om_a20 :: bool
  om_poisoned :: u8

record guest_space_owner =
  gs_kernel :: guest_kernel
  gs_machine :: owner_machine
  gs_paging :: x86_paging_binding
  gs_address_space_identity :: u64
  gs_machine_identity :: u64
  gs_generation :: u64
  gs_initialized :: u8
  gs_virtual_system_control_a :: u8
  gs_poisoned :: u8

definition guest_space_is_active :: "guest_space_owner \<Rightarrow> bool" where
  "guest_space_is_active gs \<longleftrightarrow> gs_initialized gs = 1 \<and> gs_poisoned gs = 0 \<and> om_poisoned (gs_machine gs) = 0"

definition context_matches :: "guest_space_owner \<Rightarrow> u64 \<Rightarrow> bool" where
  "context_matches gs ctx \<longleftrightarrow> guest_space_is_active gs \<and> ctx = gs_address_space_identity gs"

definition guest_physical_map :: "u32 \<Rightarrow> nat \<Rightarrow> native_mapping option" where
  "guest_physical_map address n =
     (case kernel_address_identity_map (ucast address) (of_nat n) of
        Inl _ \<Rightarrow> None
      | Inr mapping \<Rightarrow> if mapping_length mapping = n then Some mapping else None)"

text \<open>The chunk of a transfer: what the translation covers, cut to what remains.\<close>

definition translated_chunk :: "guest_kernel \<Rightarrow> u32 \<Rightarrow> bool \<Rightarrow> nat \<Rightarrow> (u32 \<times> nat) option" where
  "translated_chunk k cursor writable remaining =
     (case x86_firmware_shadow_translate k cursor writable of
        None \<Rightarrow> None
      | Some t \<Rightarrow>
          if contiguous_bytes t = 0 then None
          else Some (physical_address t,
                     if unat (contiguous_bytes t) > remaining then remaining else unat (contiguous_bytes t)))"

lemma translated_chunk_pos: "translated_chunk k cursor w n = Some (pa, chunk) \<Longrightarrow> 0 < n \<Longrightarrow> 0 < chunk \<and> chunk \<le> n"
  by (auto simp: translated_chunk_def unat_gt_0 split: option.splits if_splits)

function guest_range_translates :: "guest_kernel \<Rightarrow> u32 \<Rightarrow> nat \<Rightarrow> bool \<Rightarrow> bool" where
  "guest_range_translates k cursor remaining writable =
     (if remaining > 0 then
        (case translated_chunk k cursor writable remaining of
           None \<Rightarrow> False
         | Some (physical, chunk) \<Rightarrow> guest_range_translates k (cursor + of_nat chunk) (remaining - chunk) writable)
      else True)"
  by pat_completeness auto
termination
  by (relation "measure (\<lambda>(k, cursor, remaining, writable). remaining)") (auto dest: translated_chunk_pos)

function read_loop :: "guest_kernel \<Rightarrow> u32 \<Rightarrow> nat \<Rightarrow> dos_machine_status \<times> bytes" where
  "read_loop k cursor remaining =
     (if remaining > 0 then
        (case translated_chunk k cursor False remaining of
           None \<Rightarrow> (DOS_MACHINE_ADDRESS_FAULT, [])
         | Some (physical, chunk) \<Rightarrow>
             (case guest_physical_map physical chunk of
                None \<Rightarrow> (DOS_MACHINE_ADDRESS_FAULT, [])
              | Some mapping \<Rightarrow>
                  (let data = mem_read (kernel_memory k) (mapping_pointer mapping) chunk;
                       (status, rest) = read_loop k (cursor + of_nat chunk) (remaining - chunk)
                   in (status, data @ rest))))
      else (DOS_MACHINE_OK, []))"
  by pat_completeness auto
termination
  by (relation "measure (\<lambda>(k, cursor, remaining). remaining)") (auto dest: translated_chunk_pos)

function write_loop :: "guest_kernel \<Rightarrow> u32 \<Rightarrow> bytes \<Rightarrow> nat \<Rightarrow> dos_machine_status \<times> guest_kernel" where
  "write_loop k cursor input remaining =
     (if remaining > 0 then
        (case translated_chunk k cursor True remaining of
           None \<Rightarrow> (DOS_MACHINE_ADDRESS_FAULT, k)
         | Some (physical, chunk) \<Rightarrow>
             (case guest_physical_map physical chunk of
                None \<Rightarrow> (DOS_MACHINE_ADDRESS_FAULT, k)
              | Some mapping \<Rightarrow>
                  write_loop (k\<lparr>kernel_memory := mem_write (kernel_memory k) (mapping_pointer mapping) (take chunk input)\<rparr>)
                    (cursor + of_nat chunk) (drop chunk input) (remaining - chunk)))
      else (DOS_MACHINE_OK, k))"
  by pat_completeness auto
termination
  by (relation "measure (\<lambda>(k, cursor, input, remaining). remaining)") (auto dest: translated_chunk_pos)

declare guest_range_translates.simps [simp del] read_loop.simps [simp del] write_loop.simps [simp del]

definition identity_read :: "guest_space_owner \<Rightarrow> u64 \<Rightarrow> u32 \<Rightarrow> nat \<Rightarrow> nat \<Rightarrow> nat \<times> bytes" where
  "identity_read gs ctx address capacity n =
     (if \<not> context_matches gs ctx \<or> address \<ge> guest_linear_limit (gs_paging gs) \<or>
         n > unat (guest_linear_limit (gs_paging gs) - address)
      then (machine_status_code DOS_MACHINE_ADDRESS_FAULT, [])
      else if n > capacity then (machine_status_code DOS_MACHINE_IO_FAULT, [])
      else if \<not> x86_paging_binding_is_active (kernel_paging (gs_kernel gs)) (Some (gs_paging gs)) \<or>
              \<not> guest_range_translates (gs_kernel gs) address n False
      then (machine_status_code DOS_MACHINE_ADDRESS_FAULT, [])
      else (let (status, data) = read_loop (gs_kernel gs) address n in (machine_status_code status, data)))"

definition identity_write :: "guest_space_owner \<Rightarrow> u64 \<Rightarrow> u32 \<Rightarrow> bytes \<Rightarrow> nat \<Rightarrow> nat \<times> guest_space_owner" where
  "identity_write gs ctx address source n =
     (if \<not> context_matches gs ctx \<or> address \<ge> guest_linear_limit (gs_paging gs) \<or>
         n > unat (guest_linear_limit (gs_paging gs) - address)
      then (machine_status_code DOS_MACHINE_ADDRESS_FAULT, gs)
      else if n > length source then (machine_status_code DOS_MACHINE_IO_FAULT, gs)
      else if \<not> x86_paging_binding_is_active (kernel_paging (gs_kernel gs)) (Some (gs_paging gs)) \<or>
              \<not> guest_range_translates (gs_kernel gs) address n True
      then (machine_status_code DOS_MACHINE_ADDRESS_FAULT, gs)
      else (let (status, k) = write_loop (gs_kernel gs) address source n
            in (machine_status_code status, gs\<lparr>gs_kernel := k\<rparr>)))"

section \<open>The A20 gate\<close>

datatype x86_io_callback_status = X86_IO_CALLBACK_OK | X86_IO_CALLBACK_DENIED | X86_IO_CALLBACK_FAULT

abbreviation (input) X86_SYSTEM_CONTROL_A_PORT :: u16 where "X86_SYSTEM_CONTROL_A_PORT \<equiv> 0x92"

definition system_control_a_read :: "guest_space_owner \<Rightarrow> u64 \<Rightarrow> u16 \<Rightarrow> nat \<Rightarrow> x86_io_callback_status \<times> u32 option" where
  "system_control_a_read gs ctx port width =
     (if \<not> context_matches gs ctx \<or> port \<noteq> X86_SYSTEM_CONTROL_A_PORT \<or> width \<noteq> 1 then (X86_IO_CALLBACK_FAULT, None)
      else (X86_IO_CALLBACK_OK,
            Some (ucast (gs_virtual_system_control_a gs OR (if om_a20 (gs_machine gs) then 2 else 0)))))"

definition system_control_a_write ::
  "guest_space_owner \<Rightarrow> u64 \<Rightarrow> u16 \<Rightarrow> nat \<Rightarrow> u32 \<Rightarrow> x86_io_callback_status \<times> guest_space_owner" where
  "system_control_a_write gs ctx port width v =
     (if \<not> context_matches gs ctx \<or> port \<noteq> X86_SYSTEM_CONTROL_A_PORT \<or> width \<noteq> 1 \<or> v > 0xff
      then (X86_IO_CALLBACK_FAULT, gs)
      else (let requested = ucast v :: u8
            in if requested AND 1 \<noteq> 0 then (X86_IO_CALLBACK_DENIED, gs)
               else (X86_IO_CALLBACK_OK,
                     gs\<lparr>gs_virtual_system_control_a := requested AND NOT 2,
                        gs_machine := (gs_machine gs)\<lparr>om_a20 := (requested AND 2 \<noteq> 0)\<rparr>\<rparr>)))"

definition virtual_set_a20 :: "guest_space_owner \<Rightarrow> u64 \<Rightarrow> bool \<Rightarrow> nat \<times> guest_space_owner" where
  "virtual_set_a20 gs ctx enabled =
     (if \<not> context_matches gs ctx then (machine_status_code DOS_MACHINE_IO_FAULT, gs)
      else (machine_status_code DOS_MACHINE_OK, gs\<lparr>gs_machine := (gs_machine gs)\<lparr>om_a20 := enabled\<rparr>\<rparr>))"

definition virtual_query_a20 :: "guest_space_owner \<Rightarrow> u64 \<Rightarrow> nat \<times> bool" where
  "virtual_query_a20 gs ctx =
     (if \<not> context_matches gs ctx then (machine_status_code DOS_MACHINE_IO_FAULT, False)
      else (machine_status_code DOS_MACHINE_OK, om_a20 (gs_machine gs)))"

section \<open>The machine of the guest space\<close>

definition guest_machine_ops ::
  "(guest_space_owner \<Rightarrow> u64 \<Rightarrow> u16 \<Rightarrow> nat \<Rightarrow> nat \<times> u32 \<times> guest_space_owner)
   \<Rightarrow> (guest_space_owner \<Rightarrow> u64 \<Rightarrow> u16 \<Rightarrow> nat \<Rightarrow> u32 \<Rightarrow> nat \<times> guest_space_owner) \<Rightarrow> guest_space_owner dos_machine_ops" where
  "guest_machine_ops port_read port_write =
     \<lparr>read_memory = Some identity_read, write_memory = Some identity_write, read_port = Some port_read,
      write_port = Some port_write, set_a20 = Some virtual_set_a20, query_a20 = Some virtual_query_a20\<rparr>"

definition guest_machine ::
  "(guest_space_owner \<Rightarrow> u64 \<Rightarrow> u16 \<Rightarrow> nat \<Rightarrow> nat \<times> u32 \<times> guest_space_owner)
   \<Rightarrow> (guest_space_owner \<Rightarrow> u64 \<Rightarrow> u16 \<Rightarrow> nat \<Rightarrow> u32 \<Rightarrow> nat \<times> guest_space_owner) \<Rightarrow> owner_machine
   \<Rightarrow> guest_space_owner dos_machine" where
  "guest_machine port_read port_write om =
     \<lparr>ops = Some (guest_machine_ops port_read port_write), context_handle = om_context om,
      address_limit = om_limit om, a20_enabled = om_a20 om, poisoned = om_poisoned om\<rparr>"

text \<open>\<open>x86_guest_space_machine\<close>; \<open>None\<close> is NULL.\<close>

definition x86_guest_space_machine where
  "x86_guest_space_machine port_read port_write gs =
     (if guest_space_is_active gs then Some (guest_machine port_read port_write (gs_machine gs)) else None)"

definition x86_guest_space_machine_identity :: "guest_space_owner \<Rightarrow> u64" where
  "x86_guest_space_machine_identity gs =
     (if guest_space_is_active gs then gs_machine_identity gs else KERNEL_OBJECT_HANDLE_INVALID)"

section \<open>Translation page by page\<close>

lemma mem_write_append:
  assumes "length xs + length ys \<le> 2 ^ 32"
  shows "mem_write (mem_write m a xs) (a + of_nat (length xs)) ys = mem_write m a (xs @ ys)"
  using assms
proof (induction ys rule: rev_induct)
  case (snoc y ys)
  have "mem_write (mem_write m a xs) (a + of_nat (length xs)) (ys @ [y]) =
      (mem_write m a (xs @ ys))(a + of_nat (length xs) + of_nat (length ys) := y)"
    using snoc by (simp add: mem_write_snoc)
  also have "\<dots> = mem_write m a (xs @ ys @ [y])"
    using snoc.prems mem_write_snoc [of "xs @ ys" m a y] by (simp add: add.assoc)
  finally show ?case .
qed simp

lemma mem_read_eqI: "(\<And>i. i < n \<Longrightarrow> m (a + of_nat i) = m' (b + of_nat i)) \<Longrightarrow> mem_read m a n = mem_read m' b n"
  by (simp add: mem_read_def)

lemma page_plus_offset: "((x :: u32) AND 0xfffff000) + (x AND 0xfff) = x"
proof -
  have "unat (x AND 0xfffff000) + unat (x AND 0xfff) = unat x"
    by (simp add: unat_page_base unat_page_offset)
  then show ?thesis using unat_u32_less [of x] by (simp add: word_unat_eq_iff unat_word_ariths)
qed

lemma page_base_aligned [simp]: "((x :: u32) AND 0xfffff000) AND 0xfff = 0"
  by (simp add: word_unat_eq_iff unat_page_offset unat_page_base)

lemma page_base_idem [simp]: "((x :: u32) AND 0xfffff000) AND 0xfffff000 = x AND 0xfffff000"
  by (rule aligned_page_base) simp

lemma offset_small: "unat ((x :: u32) AND 0xfff) < 4096"
  by (simp add: unat_page_offset)

lemma same_page:
  assumes "unat ((x :: u32) AND 0xfff) + i < 4096"
  shows "(x + of_nat i) AND 0xfffff000 = x AND 0xfffff000" and "(x + of_nat i) AND 0xfff = (x AND 0xfff) + of_nat i"
proof -
  let ?i = "unat (x AND 0xfff) + i"
  have x: "x + of_nat i = (x AND 0xfffff000) + of_nat ?i"
    using page_plus_offset [of x] by (simp add: add.assoc [symmetric])
  note off = aligned_offset [OF page_base_aligned assms, of x]
  show "(x + of_nat i) AND 0xfff = (x AND 0xfff) + of_nat i" unfolding x off(3) by simp
  have "unat x div 4096 * 4096 + ?i < 2 ^ 32" using unat_u32_less [of "(x AND 0xfffff000) + of_nat ?i"] off(1)
    by (simp add: unat_page_base)
  then show "(x + of_nat i) AND 0xfffff000 = x AND 0xfffff000"
    unfolding x using off(1) assms by (simp add: word_unat_eq_iff unat_page_base)
qed

lemma alias_range:
  assumes "(s :: u32) AND 0xfff = 0" "s < 0x100000"
  shows "(x < s \<or> s + 0x1000 \<le> x) \<longleftrightarrow> x AND 0xfffff000 \<noteq> s"
proof -
  have "unat s mod 4096 = 0" using assms(1) unat_page_offset [of s] by simp
  then obtain q where q: "unat s = 4096 * q" by (metis dvdE mod_eq_0_iff_dvd)
  have u: "unat (s + 0x1000) = unat s + 4096" using assms(2) by (simp add: unat_word_ariths word_less_nat_alt)
  have "(unat x < 4096 * q \<or> 4096 * q + 4096 \<le> unat x) \<longleftrightarrow> unat x div 4096 \<noteq> q" by auto
  then show ?thesis using q u by (simp add: word_less_nat_alt word_le_nat_alt word_unat_eq_iff unat_page_base)
qed

lemma shadow_translate_page:
  "x86_paging_guest_shadow_translate p (Some s) f x w =
     (if x86_paging_guest_shadow_translate p (Some s) f (x AND 0xfffff000) w = None then None
      else Some \<lparr>physical_address = f + (x AND 0xfff), contiguous_bytes = 0x1000 - (x AND 0xfff)\<rparr>)"
proof (cases "guest_shadow_snapshot_is_valid p (Some s)")
  case True
  then have s: "snap_linear_page s AND 0xfff = 0" "snap_linear_page s < 0x100000"
    by (simp_all add: guest_shadow_snapshot_is_valid_def)
  have "x - snap_linear_page s = x AND 0xfff" if "x AND 0xfffff000 = snap_linear_page s"
    using page_plus_offset [of x] that by (simp add: diff_eq_eq add.commute)
  then show ?thesis using True alias_range [OF s, of x] alias_range [OF s, of "x AND 0xfffff000"]
    by (auto simp: x86_paging_guest_shadow_translate_def Let_def split: option.splits if_splits)
next
  case False
  then show ?thesis by (simp add: x86_paging_guest_shadow_translate_def)
qed

lemma page_below_limit: "(x :: u32) < 0x110000 \<longleftrightarrow> (x AND 0xfffff000) < 0x110000"
proof -
  have "unat x div 4096 * 4096 < 272 * 4096 \<longleftrightarrow> unat x div 4096 < 272" by simp
  also have "\<dots> \<longleftrightarrow> unat x < 272 * 4096" by (simp add: div_less_iff_less_mult)
  finally show ?thesis by (simp add: word_less_nat_alt unat_page_base)
qed

lemma page_same_table: "((x :: u32) AND 0xfffff000) div 0x400000 = x div 0x400000"
proof -
  have "unat x div 4096 * 4096 div (4096 * 1024) = unat x div 4096 div 1024" by (simp add: div_mult2_eq)
  also have "\<dots> = unat x div (4096 * 1024)" by (simp only: div_mult2_eq)
  finally show ?thesis by (simp add: word_unat_eq_iff unat_div_distrib unat_page_base)
qed

lemma identity_translate_page:
  "x86_paging_guest_identity_translate p (Some b) x w =
     (if x86_paging_guest_identity_translate p (Some b) (x AND 0xfffff000) w = None then None
      else Some \<lparr>physical_address = x, contiguous_bytes = 0x1000 - (x AND 0xfff)\<rparr>)"
proof (cases "x86_paging_binding_is_active p (Some b)")
  case True
  then have lim: "guest_linear_limit b = 0x110000" by (simp add: x86_paging_binding_is_active_def)
  have l: "0x110000 \<le> x \<longleftrightarrow> 0x110000 \<le> x AND 0xfffff000" using page_below_limit [of x] by (simp add: not_less [symmetric])
  show ?thesis using True l page_same_table [of x]
    by (auto simp: x86_paging_guest_identity_translate_def lim Let_def guest_directory_is_user_accessible_def
        split: option.splits if_splits)
next
  case False
  then show ?thesis by (simp add: x86_paging_guest_identity_translate_def Let_def)
qed

text \<open>The physical page behind a linear page, for reading or writing.\<close>

definition guest_frame :: "guest_kernel \<Rightarrow> bool \<Rightarrow> u32 \<Rightarrow> u32 option" where
  "guest_frame k writable page = map_option physical_address (x86_firmware_shadow_translate k page writable)"

lemma frame_cases:
  assumes "guest_frame k w page = Some f" "page AND 0xfff = 0"
  obtains (identity) "find_page (kernel_shadow k) page = None" "f = page" "page < 0x110000"
      "x86_paging_guest_identity_translate (kernel_paging k) (Some (shadow_paging (kernel_shadow k))) page w \<noteq> None"
    | (shadowed) i where "find_page (kernel_shadow k) page = Some i"
      "page_state (shadow_pages (kernel_shadow k) i) = X86_FIRMWARE_PAGE_ACTIVE"
      "f = page_physical (shadow_pages (kernel_shadow k) i)"
      "private_shadow_target_is_safe (kernel_paging k) f"
      "x86_paging_guest_shadow_translate (kernel_paging k) (Some (page_snapshot (shadow_pages (kernel_shadow k) i))) f page w \<noteq> None"
proof (cases "find_page (kernel_shadow k) page")
  case None
  let ?t = "x86_paging_guest_identity_translate (kernel_paging k) (Some (shadow_paging (kernel_shadow k))) page w"
  have "map_option physical_address ?t = Some f" "page < guest_linear_limit (shadow_paging (kernel_shadow k))"
    "owner_is_active k"
    using assms None
    by (auto simp: guest_frame_def x86_firmware_shadow_translate_def Let_def aligned_page_base not_le split: if_splits)
  moreover have "?t = None \<or> map_option physical_address ?t = Some page"
    by (subst (2) identity_translate_page) (simp add: aligned_page_base [OF assms(2)])
  ultimately show thesis using None
    by (intro identity) (auto simp: owner_is_active_def x86_paging_binding_is_active_def)
next
  case (Some i)
  let ?s = "page_snapshot (shadow_pages (kernel_shadow k) i)" and ?f = "page_physical (shadow_pages (kernel_shadow k) i)"
  let ?t = "x86_paging_guest_shadow_translate (kernel_paging k) (Some ?s) ?f page w"
  have "map_option physical_address ?t = Some f" and act: "page_state (shadow_pages (kernel_shadow k) i) = X86_FIRMWARE_PAGE_ACTIVE"
    using assms Some
    by (auto simp: guest_frame_def x86_firmware_shadow_translate_def Let_def aligned_page_base split: if_splits)
  moreover have "?t = None \<or> map_option physical_address ?t = Some ?f"
    by (subst (2) shadow_translate_page) (simp add: aligned_page_base [OF assms(2)] assms(2))
  ultimately have t: "?t \<noteq> None" "f = ?f" by auto
  then have "private_shadow_target_is_safe (kernel_paging k) ?f"
    by (auto simp: x86_paging_guest_shadow_translate_def split: if_splits)
  with t act Some show thesis by (intro shadowed) simp_all
qed

lemma translate_eq:
  "x86_firmware_shadow_translate k x w =
     map_option (\<lambda>f. \<lparr>physical_address = f + (x AND 0xfff), contiguous_bytes = 0x1000 - (x AND 0xfff)\<rparr>)
       (guest_frame k w (x AND 0xfffff000))"
proof (cases "owner_is_active k")
  case True
  let ?page = "x AND 0xfffff000"
  let ?so = "kernel_shadow k" and ?p = "kernel_paging k"
  have lim: "guest_linear_limit (shadow_paging ?so) = 0x110000"
    using True by (simp add: owner_is_active_def x86_paging_binding_is_active_def)
  show ?thesis
  proof (cases "0x110000 \<le> x")
    case out: True
    then have "0x110000 \<le> ?page" using page_below_limit [of x] by (simp add: not_less [symmetric])
    with out lim show ?thesis by (simp add: guest_frame_def x86_firmware_shadow_translate_def Let_def)
  next
    case inside: False
    then have pg: "\<not> 0x110000 \<le> ?page" using page_below_limit [of x] by (simp add: not_le)
    show ?thesis
    proof (cases "find_page ?so ?page")
      case None
      with True inside pg lim have t: "x86_firmware_shadow_translate k y w = x86_paging_guest_identity_translate ?p (Some (shadow_paging ?so)) y w"
        if "y = x \<or> y = ?page" for y
        using that by (auto simp: x86_firmware_shadow_translate_def Let_def)
      have "x86_paging_guest_identity_translate ?p (Some (shadow_paging ?so)) ?page w = None \<or>
          map_option physical_address (x86_paging_guest_identity_translate ?p (Some (shadow_paging ?so)) ?page w) = Some ?page"
        by (subst (2) identity_translate_page) simp
      then show ?thesis
        using identity_translate_page [of ?p "shadow_paging ?so" x w] page_plus_offset [of x]
        by (auto simp: guest_frame_def t)
    next
      case (Some i)
      let ?s = "page_snapshot (shadow_pages ?so i)" and ?f = "page_physical (shadow_pages ?so i)"
      show ?thesis
      proof (cases "page_state (shadow_pages ?so i) = X86_FIRMWARE_PAGE_ACTIVE")
        case active: True
        with True inside pg lim Some have t: "x86_firmware_shadow_translate k y w = x86_paging_guest_shadow_translate ?p (Some ?s) ?f y w"
          if "y = x \<or> y = ?page" for y
          using that by (auto simp: x86_firmware_shadow_translate_def Let_def)
        have "x86_paging_guest_shadow_translate ?p (Some ?s) ?f ?page w = None \<or>
            map_option physical_address (x86_paging_guest_shadow_translate ?p (Some ?s) ?f ?page w) = Some ?f"
          by (subst (2) shadow_translate_page) simp
        then show ?thesis
          using shadow_translate_page [of ?p ?s ?f x w] by (auto simp: guest_frame_def t)
      next
        case False
        then show ?thesis using Some by (simp add: guest_frame_def x86_firmware_shadow_translate_def Let_def)
      qed
    qed
  qed
next
  case False
  then show ?thesis by (simp add: guest_frame_def x86_firmware_shadow_translate_def Let_def)
qed


lemma frame_aligned:
  assumes "guest_frame k w page = Some f" "page AND 0xfff = 0"
  shows "f AND 0xfff = 0"
  using assms(1,2)
  by (rule frame_cases) (use assms in \<open>auto simp: private_shadow_target_is_safe_def split: if_splits\<close>)

lemma frame_memory [simp]: "guest_frame (k\<lparr>kernel_memory := mm\<rparr>) = guest_frame k"
  by (simp add: guest_frame_def x86_firmware_shadow_translate_def owner_is_active_def Let_def fun_eq_iff split: option.splits)

lemma frame_limit: "guest_frame k w page = Some f \<Longrightarrow> page < 0x110000"
  by (auto simp: guest_frame_def x86_firmware_shadow_translate_def owner_is_active_def Let_def
      x86_paging_binding_is_active_def not_le split: if_splits)

text \<open>What can be written can be read, at the same place.\<close>

lemma frame_read:
  assumes "guest_frame k True page = Some f"
  shows "guest_frame k False page = Some f"
proof -
  have i: "x86_paging_guest_identity_translate p b x False = Some t" if "x86_paging_guest_identity_translate p b x True = Some t" for p b x t
    using that
    by (auto simp: x86_paging_guest_identity_translate_def Let_def flag_simps split: if_splits option.splits)
  have s: "x86_paging_guest_shadow_translate p b f x False = Some t" if "x86_paging_guest_shadow_translate p b f x True = Some t" for p b f x t
    using that by (auto simp: x86_paging_guest_shadow_translate_def Let_def split: if_splits option.splits)
  show ?thesis using assms
    by (auto simp: guest_frame_def x86_firmware_shadow_translate_def Let_def split: if_splits option.splits dest: i s)
qed

text \<open>No private page backs two linear pages.\<close>

definition aliases_distinct :: "x86_firmware_shadow_owner \<Rightarrow> bool" where
  "aliases_distinct so \<longleftrightarrow>
     (\<forall>i < FIRMWARE_SHADOW_PAGE_CAPACITY. \<forall>j < FIRMWARE_SHADOW_PAGE_CAPACITY. i \<noteq> j \<longrightarrow>
        page_state (shadow_pages so i) = X86_FIRMWARE_PAGE_ACTIVE \<longrightarrow>
        page_state (shadow_pages so j) = X86_FIRMWARE_PAGE_ACTIVE \<longrightarrow>
        page_physical (shadow_pages so i) \<noteq> page_physical (shadow_pages so j))"

lemma find_pageD:
  assumes "find_page so page = Some i"
  shows "i < 64" "page_linear (shadow_pages so i) = page" "page_state (shadow_pages so i) \<noteq> X86_FIRMWARE_PAGE_EMPTY"
  using assms by (auto simp: find_page_def find_Some_iff)

lemma frame_inj:
  assumes d: "aliases_distinct (kernel_shadow k)"
    and x: "guest_frame k w x = Some f" "x AND 0xfff = 0" and y: "guest_frame k w' y = Some f" "y AND 0xfff = 0"
  shows "x = y"
  using x
proof (rule frame_cases)
  assume a: "f = x" "x < 0x110000"
  from y show ?thesis
  proof (rule frame_cases)
    assume "private_shadow_target_is_safe (kernel_paging k) f"
    then show ?thesis using a by (auto simp: private_shadow_target_is_safe_def word_less_nat_alt split: if_splits)
  qed (use a in simp)
next
  fix i assume i: "find_page (kernel_shadow k) x = Some i" "private_shadow_target_is_safe (kernel_paging k) f"
    "page_state (shadow_pages (kernel_shadow k) i) = X86_FIRMWARE_PAGE_ACTIVE" "f = page_physical (shadow_pages (kernel_shadow k) i)"
  from y show ?thesis
  proof (rule frame_cases)
    assume "f = y" "y < 0x110000"
    then show ?thesis using i(2) by (auto simp: private_shadow_target_is_safe_def word_less_nat_alt split: if_splits)
  next
    fix j assume j: "find_page (kernel_shadow k) y = Some j"
      "page_state (shadow_pages (kernel_shadow k) j) = X86_FIRMWARE_PAGE_ACTIVE" "f = page_physical (shadow_pages (kernel_shadow k) j)"
    have "i = j" using d i(3,4) j(2,3) find_pageD(1) [OF i(1)] find_pageD(1) [OF j(1)]
      unfolding aliases_distinct_def by metis
    then show ?thesis using find_pageD(2) [OF i(1)] find_pageD(2) [OF j(1)] by simp
  qed
qed

section \<open>The guest's memory\<close>

text \<open>The byte the guest reads at a linear address; zero where nothing is mapped for it.\<close>

definition guest_memory :: "guest_kernel \<Rightarrow> memory" where
  "guest_memory k x =
     (case guest_frame k False (x AND X86_PAGE_ADDRESS_MASK) of
        None \<Rightarrow> 0 | Some f \<Rightarrow> kernel_memory k (f + (x AND 0xfff)))"

definition guest_reach :: "guest_kernel \<Rightarrow> u32 \<Rightarrow> bool" where
  "guest_reach k x \<longleftrightarrow> guest_frame k True (x AND X86_PAGE_ADDRESS_MASK) \<noteq> None"

lemma chunk_eq:
  assumes "0 < n"
  shows "translated_chunk k x w n =
    (case guest_frame k w (x AND 0xfffff000) of
       None \<Rightarrow> None | Some f \<Rightarrow> Some (f + (x AND 0xfff), min n (4096 - unat (x AND 0xfff))))"
proof -
  have "x AND 0xfff \<le> 0x1000" using offset_small [of x] by (simp add: word_le_nat_alt)
  then have "unat (0x1000 - (x AND 0xfff)) = 4096 - unat (x AND 0xfff)" by (simp add: unat_sub)
  moreover from this have "0x1000 - (x AND 0xfff) \<noteq> 0" using offset_small [of x] by (auto simp: word_unat_eq_iff)
  ultimately show ?thesis
    by (simp add: translated_chunk_def translate_eq min_def split: option.splits)
qed

lemma physical_map_eq:
  assumes "unat pa + n \<le> 2 ^ 32" "0 < n" "n \<le> 4096"
  shows "guest_physical_map pa n = Some \<lparr>mapping_pointer = pa, mapping_length = n\<rparr>"
proof -
  have n: "unat (of_nat n :: u64) = n" "unat (of_nat n - 1 :: u64) = n - 1"
    using assms by (simp_all add: unat_of_nat unat_sub word_le_nat_alt)
  have a: "unat (ucast pa :: u64) = unat pa"
    by (simp add: unsigned_ucast_eq take_bit_nat_eq_self)
  have "\<not> (0xffffffff :: u64) < of_nat n" using assms n by (simp add: word_less_nat_alt)
  moreover have nz: "(of_nat n :: u64) \<noteq> 0" using n(1) assms(2) by (metis less_numeral_extra(3) unat_0)
  have "unat (ucast pa + (of_nat n - 1) :: u64) = unat pa + (n - 1)"
    using assms n(2) a unat_u32_less [of pa] by (simp add: unat_word_ariths)
  then have "\<not> (0xffffffff :: u64) < ucast pa + (of_nat n - 1)" using assms by (simp add: word_less_nat_alt)
  ultimately show ?thesis
    using assms n a nz unat_u32_less [of pa]
    by (simp add: guest_physical_map_def kernel_address_identity_map_def)
qed


text \<open>One chunk: never empty, inside one page, and backed byte by byte.\<close>

lemma chunkE:
  assumes "0 < n" "translated_chunk k x w n = Some (pa, c)"
  obtains f where "guest_frame k w (x AND 0xfffff000) = Some f" "pa = f + (x AND 0xfff)"
    "0 < c" "c \<le> n" "unat (x AND 0xfff) + c \<le> 4096"
    "guest_physical_map pa c = Some \<lparr>mapping_pointer = pa, mapping_length = c\<rparr>"
proof -
  obtain f where f: "guest_frame k w (x AND 0xfffff000) = Some f" and pa: "pa = f + (x AND 0xfff)"
    and c: "c = min n (4096 - unat (x AND 0xfff))"
    using assms(2) unfolding chunk_eq [OF assms(1)] by (auto split: option.splits)
  have b: "0 < c" "c \<le> n" "unat (x AND 0xfff) + c \<le> 4096" using c assms(1) offset_small [of x] by auto
  have al: "f AND 0xfff = 0" using frame_aligned [OF f] by simp
  then have "unat f mod 4096 = 0" using unat_page_offset [of f] by simp
  then obtain q where "unat f = 4096 * q" by (metis dvdE mod_eq_0_iff_dvd)
  then have "unat f + 4096 \<le> 2 ^ 32" using unat_u32_less [of f] by simp
  moreover have "unat pa = unat f + unat (x AND 0xfff)"
    using aligned_offset(1) [OF al offset_small [of x]] by (simp add: pa)
  ultimately have "unat pa + c \<le> 2 ^ 32" using b by linarith
  then have "guest_physical_map pa c = Some \<lparr>mapping_pointer = pa, mapping_length = c\<rparr>"
    using b by (intro physical_map_eq) auto
  with f pa b that show thesis by blast
qed

lemma range_translates_iff:
  "guest_range_translates k x n w \<longleftrightarrow> (\<forall>i < n. guest_frame k w ((x + of_nat i) AND 0xfffff000) \<noteq> None)"
proof (induction k x n w rule: guest_range_translates.induct)
  case (1 k x n w)
  show ?case
  proof (cases "0 < n")
    case True
    show ?thesis
    proof (cases "translated_chunk k x w n")
      case None
      then have "guest_frame k w (x AND 0xfffff000) = None" using chunk_eq [OF True, of k x w] by (auto split: option.splits)
      with True None show ?thesis
        by (subst guest_range_translates.simps) (auto intro!: exI [of _ 0])
    next
      case (Some pc)
      obtain pa c where pc: "pc = (pa, c)" by (cases pc)
      with Some True obtain f where f: "guest_frame k w (x AND 0xfffff000) = Some f" "0 < c" "c \<le> n"
          "unat (x AND 0xfff) + c \<le> 4096" by (auto elim: chunkE)
      have low: "guest_frame k w ((x + of_nat i) AND 0xfffff000) = Some f" if "i < c" for i
        using same_page(1) [of x i] that f by simp
      have "(\<forall>i < n. guest_frame k w ((x + of_nat i) AND 0xfffff000) \<noteq> None) \<longleftrightarrow>
          (\<forall>i < n - c. guest_frame k w ((x + of_nat c + of_nat i) AND 0xfffff000) \<noteq> None)" (is "?l \<longleftrightarrow> ?r")
      proof
        assume l: ?l
        show ?r
        proof (intro allI impI)
          fix i assume "i < n - c"
          then show "guest_frame k w ((x + of_nat c + of_nat i) AND 0xfffff000) \<noteq> None"
            using l [rule_format, of "c + i"] by (simp add: add.assoc)
        qed
      next
        assume r: ?r
        show ?l
        proof (intro allI impI)
          fix i assume i: "i < n"
          show "guest_frame k w ((x + of_nat i) AND 0xfffff000) \<noteq> None"
          proof (cases "i < c")
            case False
            then have "(of_nat c + of_nat (i - c) :: u32) = of_nat i" by (metis le_add_diff_inverse not_less of_nat_add)
            then show ?thesis using r [rule_format, of "i - c"] i False by (simp add: add.assoc)
          qed (simp add: low)
        qed
      qed
      then show ?thesis using 1 [OF True] Some pc True
        by (subst guest_range_translates.simps) (simp add: add.assoc)
    qed
  qed (simp add: guest_range_translates.simps)
qed


lemma guest_memory_chunk:
  assumes f: "guest_frame k False (x AND 0xfffff000) = Some f" and i: "unat (x AND 0xfff) + i < 4096"
  shows "guest_memory k (x + of_nat i) = kernel_memory k (f + (x AND 0xfff) + of_nat i)"
  using f same_page [OF i] by (simp add: guest_memory_def add.assoc)

lemma read_loop_eq:
  "guest_range_translates k x n False \<Longrightarrow> read_loop k x n = (DOS_MACHINE_OK, mem_read (guest_memory k) x n)"
proof (induction k x n rule: read_loop.induct)
  case (1 k x n)
  show ?case
  proof (cases "0 < n")
    case True
    with 1(2) obtain pa c where ch: "translated_chunk k x False n = Some (pa, c)"
      and rest: "guest_range_translates k (x + of_nat c) (n - c) False"
      by (subst (asm) guest_range_translates.simps) (auto split: option.splits)
    from True ch obtain f where f: "guest_frame k False (x AND 0xfffff000) = Some f" "pa = f + (x AND 0xfff)"
        "0 < c" "c \<le> n" "unat (x AND 0xfff) + c \<le> 4096"
        "guest_physical_map pa c = Some \<lparr>mapping_pointer = pa, mapping_length = c\<rparr>" by (rule chunkE)
    have "mem_read (kernel_memory k) pa c = mem_read (guest_memory k) x c"
    proof (rule mem_read_eqI)
      fix i assume "i < c"
      then show "kernel_memory k (pa + of_nat i) = guest_memory k (x + of_nat i)"
        using guest_memory_chunk [OF f(1), of i] f(2,5) by simp
    qed
    moreover have "mem_read (guest_memory k) x n = mem_read (guest_memory k) x c @ mem_read (guest_memory k) (x + of_nat c) (n - c)"
      using mem_read_append [of "guest_memory k" x c "n - c"] f(4) by simp
    ultimately show ?thesis using True ch f(6) 1(1) [OF True ch refl f(6) _ rest]
      by (subst read_loop.simps) simp
  qed (simp add: read_loop.simps)
qed

lemma guest_memory_write:
  assumes d: "aliases_distinct (kernel_shadow k)" and f: "guest_frame k True (x AND 0xfffff000) = Some f"
    and len: "unat (x AND 0xfff) + length bs \<le> 4096"
  shows "guest_memory (k\<lparr>kernel_memory := mem_write (kernel_memory k) (f + (x AND 0xfff)) bs\<rparr>) =
    mem_write (guest_memory k) x bs"
proof
  fix y
  let ?pa = "f + (x AND 0xfff)"
  let ?k = "k\<lparr>kernel_memory := mem_write (kernel_memory k) ?pa bs\<rparr>"
  note r = frame_read [OF f]
  have al: "f AND 0xfff = 0" using frame_aligned [OF f] by simp
  show "guest_memory ?k y = mem_write (guest_memory k) x bs y"
  proof (cases "in_range x (length bs) y")
    case True
    define i where "i = unat (y - x)"
    have i: "i < length bs" "y = x + of_nat i" using True by (simp_all add: in_range_def i_def)
    then have "guest_frame ?k False (y AND 0xfffff000) = Some f" "y AND 0xfff = (x AND 0xfff) + of_nat i"
      using r same_page [of x i] len by simp_all
    then have "guest_memory ?k y = mem_write (kernel_memory k) ?pa bs (?pa + of_nat i)"
      by (simp add: guest_memory_def add.assoc)
    then show ?thesis using i len by (simp add: mem_simps)
  next
    case False
    have "guest_memory ?k y = guest_memory k y"
    proof (cases "guest_frame k False (y AND 0xfffff000)")
      case (Some g)
      have ag: "g AND 0xfff = 0" using frame_aligned [OF Some] by simp
      have "\<not> in_range ?pa (length bs) (g + (y AND 0xfff))"
      proof
        assume w: "in_range ?pa (length bs) (g + (y AND 0xfff))"
        define i where "i = unat (g + (y AND 0xfff) - ?pa)"
        have i: "i < length bs" "g + (y AND 0xfff) = f + of_nat (unat (x AND 0xfff) + i)"
          using w by (simp_all add: in_range_def i_def)
        have o: "unat (x AND 0xfff) + i < 4096" using i(1) len by simp
        have "(g + (y AND 0xfff)) AND 0xfff = y AND 0xfff"
          using aligned_offset(3) [OF ag offset_small [of y]] by simp
        then have yo: "y AND 0xfff = of_nat (unat (x AND 0xfff) + i)"
          using i(2) aligned_offset(3) [OF al o] by simp
        then have "g = f" using i(2) by simp
        then have "y AND 0xfffff000 = x AND 0xfffff000"
          using Some frame_inj [OF d _ page_base_aligned r page_base_aligned] by simp
        then have "y = (x AND 0xfffff000) + (x AND 0xfff) + of_nat i"
          using page_plus_offset [of y] yo by (simp add: add.assoc)
        then have "y = x + of_nat i" by (simp only: page_plus_offset)
        then show False using False i(1) len by (simp add: in_range_def unat_of_nat_u32)
      qed
      with Some show ?thesis by (simp add: guest_memory_def mem_simps)
    qed (simp add: guest_memory_def)
    with False show ?thesis by (simp add: mem_simps)
  qed
qed

lemma write_loop_eq:
  assumes "guest_range_translates k x n True" "aliases_distinct (kernel_shadow k)" "n \<le> length src" "n \<le> 2 ^ 32"
  shows "\<exists>mm. write_loop k x src n = (DOS_MACHINE_OK, k\<lparr>kernel_memory := mm\<rparr>) \<and>
    guest_memory (k\<lparr>kernel_memory := mm\<rparr>) = mem_write (guest_memory k) x (take n src)"
  using assms
proof (induction k x src n rule: write_loop.induct)
  case (1 k x src n)
  show ?case
  proof (cases "0 < n")
    case True
    with 1(2) obtain pa c where ch: "translated_chunk k x True n = Some (pa, c)"
      and rest: "guest_range_translates k (x + of_nat c) (n - c) True"
      by (subst (asm) guest_range_translates.simps) (auto split: option.splits)
    from True ch obtain f where f: "guest_frame k True (x AND 0xfffff000) = Some f" "pa = f + (x AND 0xfff)"
        "0 < c" "c \<le> n" "unat (x AND 0xfff) + c \<le> 4096"
        "guest_physical_map pa c = Some \<lparr>mapping_pointer = pa, mapping_length = c\<rparr>" by (rule chunkE)
    let ?k = "k\<lparr>kernel_memory := mem_write (kernel_memory k) pa (take c src)\<rparr>"
    have mem: "guest_memory ?k = mem_write (guest_memory k) x (take c src)"
      unfolding f(2) using 1(3,4) f by (intro guest_memory_write) auto
    have "guest_range_translates ?k (x + of_nat c) (n - c) True" using rest by (simp add: range_translates_iff)
    moreover have "n - c \<le> length (drop c src)" "n - c \<le> 2 ^ 32" "aliases_distinct (kernel_shadow ?k)" using 1(3-5) by auto
    ultimately obtain mm where mm: "write_loop ?k (x + of_nat c) (drop c src) (n - c) = (DOS_MACHINE_OK, ?k\<lparr>kernel_memory := mm\<rparr>)"
      "guest_memory (?k\<lparr>kernel_memory := mm\<rparr>) = mem_write (guest_memory ?k) (x + of_nat c) (take (n - c) (drop c src))"
      using 1(1) [OF True ch refl f(6)] by auto
    have "take n src = take c src @ take (n - c) (drop c src)"
      using f(4) by (metis le_add_diff_inverse take_add)
    then have "mem_write (guest_memory ?k) (x + of_nat c) (take (n - c) (drop c src)) = mem_write (guest_memory k) x (take n src)"
      using mem_write_append [of "take c src" "take (n - c) (drop c src)" "guest_memory k" x] mem 1(4,5) f(4) by simp
    with mm True ch f(6) show ?thesis
      by (subst write_loop.simps) (auto intro!: exI [of _ mm])
  qed (auto simp: write_loop.simps intro!: exI [of _ "kernel_memory k"])
qed


section \<open>The backend contract of the guest space\<close>

text \<open>A guest space that serves \<open>context\<close> \<open>ident\<close>.\<close>

definition guest_ready :: "u64 \<Rightarrow> guest_space_owner \<Rightarrow> bool" where
  "guest_ready ident gs \<longleftrightarrow> context_matches gs ident \<and> aliases_distinct (kernel_shadow (gs_kernel gs)) \<and>
     x86_paging_binding_is_active (kernel_paging (gs_kernel gs)) (Some (gs_paging gs))"

definition running_machine :: "u64 \<Rightarrow> bool \<Rightarrow> owner_machine" where
  "running_machine ident a20 =
     \<lparr>om_context = ident, om_limit = 0x110000, om_a20 = a20, om_poisoned = 0\<rparr>"

lemma ready_limit: "guest_ready ident gs \<Longrightarrow> guest_linear_limit (gs_paging gs) = 0x110000"
  by (simp add: guest_ready_def x86_paging_binding_is_active_def)

lemma machine_range:
  assumes "guest_range_is_valid (guest_machine rp wp (running_machine ident a20)) a n" "0 < n"
  shows "a < 0x110000" "n \<le> unat (0x110000 - a)"
proof -
  have l: "unat a + n \<le> 0x110000"
    using range_valid_bound(2) [OF assms(1)] by (simp add: guest_machine_def running_machine_def DOS_GUEST_32_ADDRESS_LIMIT_def)
  then show a: "a < 0x110000" using assms(2) by (simp add: word_less_nat_alt)
  show "n \<le> unat (0x110000 - a)" using l a by (simp add: unat_sub word_le_nat_alt word_less_nat_alt)
qed

lemma identity_read_eq:
  assumes "guest_ready ident gs" "a < 0x110000" "n \<le> unat (0x110000 - a)" "n \<le> capacity"
  shows "identity_read gs ident a capacity n =
    (if \<forall>i < n. guest_frame (gs_kernel gs) False ((a + of_nat i) AND 0xfffff000) \<noteq> None
     then (0, mem_read (guest_memory (gs_kernel gs)) a n) else (2, []))"
proof -
  have c: "context_matches gs ident" "x86_paging_binding_is_active (kernel_paging (gs_kernel gs)) (Some (gs_paging gs))"
    using assms(1) by (simp_all add: guest_ready_def)
  have na: "\<not> 0x110000 \<le> a" using assms(2) by (simp add: not_le)
  show ?thesis
    using assms(3,4) c ready_limit [OF assms(1)] read_loop_eq [of "gs_kernel gs" a n] na
    by (auto simp: identity_read_def range_translates_iff)
qed

lemma identity_write_eq:
  assumes "guest_ready ident gs" "a < 0x110000" "n \<le> unat (0x110000 - a)" "n \<le> length src"
  shows "if \<forall>i < n. guest_reach (gs_kernel gs) (a + of_nat i)
    then \<exists>mm. identity_write gs ident a src n = (0, gs\<lparr>gs_kernel := (gs_kernel gs)\<lparr>kernel_memory := mm\<rparr>\<rparr>) \<and>
      guest_memory ((gs_kernel gs)\<lparr>kernel_memory := mm\<rparr>) = mem_write (guest_memory (gs_kernel gs)) a (take n src)
    else identity_write gs ident a src n = (2, gs)"
proof -
  have c: "context_matches gs ident" "x86_paging_binding_is_active (kernel_paging (gs_kernel gs)) (Some (gs_paging gs))"
    and d: "aliases_distinct (kernel_shadow (gs_kernel gs))"
    using assms(1) by (simp_all add: guest_ready_def)
  have "unat (0x110000 - a) \<le> 2 ^ 32" using unat_u32_less [of "0x110000 - a"] by simp
  then have n: "n \<le> 2 ^ 32" using assms(3) by simp
  have na: "\<not> 0x110000 \<le> a" using assms(2) by (simp add: not_le)
  have t: "guest_range_translates (gs_kernel gs) a n True \<longleftrightarrow> (\<forall>i < n. guest_reach (gs_kernel gs) (a + of_nat i))"
    by (simp add: range_translates_iff guest_reach_def)
  show ?thesis
  proof (cases "\<forall>i < n. guest_reach (gs_kernel gs) (a + of_nat i)")
    case True
    then have tr: "guest_range_translates (gs_kernel gs) a n True" using t by simp
    from write_loop_eq [OF tr d assms(4) n] obtain mm where
      "write_loop (gs_kernel gs) a src n = (DOS_MACHINE_OK, (gs_kernel gs)\<lparr>kernel_memory := mm\<rparr>)"
      "guest_memory ((gs_kernel gs)\<lparr>kernel_memory := mm\<rparr>) = mem_write (guest_memory (gs_kernel gs)) a (take n src)" by blast
    then show ?thesis using True tr assms(3,4) c ready_limit [OF assms(1)] na
      by (auto simp: identity_write_def intro!: exI [of _ mm])
  next
    case False
    then show ?thesis using t assms(3,4) c ready_limit [OF assms(1)] na by (auto simp: identity_write_def)
  qed
qed

lemma ready_memory [simp]: "guest_ready ident (gs\<lparr>gs_kernel := (gs_kernel gs)\<lparr>kernel_memory := mm\<rparr>\<rparr>) = guest_ready ident gs"
  by (simp add: guest_ready_def context_matches_def guest_space_is_active_def)

lemma reach_memory [simp]: "guest_reach (k\<lparr>kernel_memory := mm\<rparr>) = guest_reach k"
  by (simp add: guest_reach_def fun_eq_iff)

interpretation gs: guest_backend "guest_machine port_read port_write (running_machine ident a20)" identity_read identity_write
  "\<lambda>gs. guest_memory (gs_kernel gs)" "\<lambda>gs. guest_reach (gs_kernel gs)" "guest_ready ident"
  for port_read port_write ident a20
proof
  let ?m = "guest_machine port_read port_write (running_machine ident a20)"
  have ctx: "context_handle ?m = ident" by (simp add: guest_machine_def running_machine_def)
  show "\<exists>t. ops ?m = Some t \<and> read_memory t = Some identity_read \<and> write_memory t = Some identity_write"
    by (simp add: guest_machine_def guest_machine_ops_def)
  show "poisoned ?m = 0" "0 < address_limit ?m" "address_limit ?m \<le> DOS_GUEST_32_ADDRESS_LIMIT"
    by (simp_all add: guest_machine_def running_machine_def DOS_GUEST_32_ADDRESS_LIMIT_def)
  fix gs gs' :: guest_space_owner and n capacity raw :: nat and a x :: u32 and src data :: bytes
  assume r: "guest_ready ident gs" and n: "0 < n" and v: "guest_range_is_valid ?m a n"
  note range = machine_range [OF v n]
  {
    assume cap: "n \<le> capacity"
    note eq = identity_read_eq [OF r range cap]
    show "fst (identity_read gs (context_handle ?m) a capacity n) = 0"
      if "\<And>i. i < n \<Longrightarrow> guest_reach (gs_kernel gs) (a + of_nat i)"
      unfolding ctx eq using that frame_read by (fastforce simp: guest_reach_def)
    show "data = mem_read (guest_memory (gs_kernel gs)) a n"
      if "identity_read gs (context_handle ?m) a capacity n = (0, data)"
      using that unfolding ctx eq by (simp split: if_splits)
  }
  assume len: "n \<le> length src"
  note eq = identity_write_eq [OF r range len]
  show "fst (identity_write gs (context_handle ?m) a src n) = 0"
    if "\<And>i. i < n \<Longrightarrow> guest_reach (gs_kernel gs) (a + of_nat i)"
    using eq that unfolding ctx by auto
  have w: "raw = 0 \<and> guest_memory (gs_kernel gs') = mem_write (guest_memory (gs_kernel gs)) a (take n src) \<and>
      (\<exists>mm. gs' = gs\<lparr>gs_kernel := (gs_kernel gs)\<lparr>kernel_memory := mm\<rparr>\<rparr>) \<or> raw \<noteq> 0 \<and> gs' = gs"
    if "identity_write gs (context_handle ?m) a src n = (raw, gs')" for raw
    using that eq unfolding ctx by (fastforce split: if_splits)
  show "guest_memory (gs_kernel gs') = mem_write (guest_memory (gs_kernel gs)) a (take n src)"
    if "identity_write gs (context_handle ?m) a src n = (0, gs')" using w [OF that] by simp
  assume res: "identity_write gs (context_handle ?m) a src n = (raw, gs')"
  show "guest_memory (gs_kernel gs') x = guest_memory (gs_kernel gs) x" if "\<not> in_range a n x"
    using w [OF res] that len by (auto simp: mem_simps)
  show "guest_ready ident gs' \<and> guest_reach (gs_kernel gs') = guest_reach (gs_kernel gs)"
    using w [OF res] r by auto
qed

section \<open>A guest space after boot\<close>

text \<open>A guest space right after initialisation, over the page tables of a 16 MiB machine.\<close>

definition sample_binding :: x86_paging_binding where
  "sample_binding = the (x86_paging_snapshot sample_paging)"

definition sample_kernel :: guest_kernel where
  "sample_kernel = snd (x86_firmware_shadow_initialize
     \<lparr>kernel_paging = sample_paging, kernel_runtime = sample_runtime, kernel_memory = (\<lambda>_. 0),
      kernel_shadow = \<lparr>shadow_paging = sample_binding, shadow_clients = (\<lambda>_. empty_client),
        shadow_pages = (\<lambda>_. empty_shadow_page), shadow_address_space = 0, shadow_machine = 0,
        shadow_space_generation = 0, shadow_execution_generation = 0, shadow_client_count = 0, shadow_page_count = 0,
        shadow_initialized = 0, shadow_poisoned = 0, shadow_cleanup_corrupted = 0\<rparr>\<rparr> 7 9 1 (Some sample_binding))"

definition sample_space :: guest_space_owner where
  "sample_space = \<lparr>gs_kernel = sample_kernel, gs_machine = running_machine 7 True, gs_paging = sample_binding,
     gs_address_space_identity = 7, gs_machine_identity = 9, gs_generation = 1, gs_initialized = 1,
     gs_virtual_system_control_a = 0, gs_poisoned = 0\<rparr>"

lemma sample_binding_active: "x86_paging_binding_is_active sample_paging (Some sample_binding)"
  using snapshot_active [OF paging_reachable_inv [OF sample_reachable]] by (auto simp: sample_binding_def)

lemma sample_kernel_simps:
  "kernel_paging sample_kernel = sample_paging" "shadow_paging (kernel_shadow sample_kernel) = sample_binding"
  "shadow_initialized (kernel_shadow sample_kernel) = 1" "shadow_poisoned (kernel_shadow sample_kernel) = 0"
  "shadow_pages (kernel_shadow sample_kernel) = (\<lambda>_. empty_shadow_page)"
  using sample_binding_active
  by (simp_all add: sample_kernel_def x86_firmware_shadow_initialize_def valid_identity_def KERNEL_OBJECT_HANDLE_INVALID_def)

lemma sample_ready: "guest_ready 7 sample_space"
  using sample_binding_active
  by (simp add: guest_ready_def sample_space_def sample_kernel_simps context_matches_def guest_space_is_active_def
      running_machine_def aliases_distinct_def empty_shadow_page_def)

lemma sample_conventional:
  assumes "x < 0xa0000"
  shows "guest_reach sample_kernel x"
proof -
  let ?page = "x AND 0xfffff000" and ?e = "unat x div 4096"
  note inv = paging_reachable_inv [OF sample_reachable]
  have e: "?e < 0xa0" using assms by (simp add: word_less_nat_alt div_less_iff_less_mult)
  have page: "?page = page_address ?e" by (rule page_base_is_address)
  have u: "unat ?page = ?e * 4096" by (rule unat_page_base)
  have "x86_boot_page_access (page_address ?e) = X86_PAGE_GUEST_READ_WRITE"
    using e by (simp add: x86_boot_page_access_def word_less_nat_alt unat_page_address)
  then have entry: "identity_page_tables sample_paging 0 ?e = page_address ?e OR 1 OR (2 OR 4)"
    using e by (simp add: sample_paging_def boot_entry)
  have "cpu_translate sample_paging ?page True = Some ?page"
    using e u page page_base_idem [of x]
    by (subst cpu_translate_self [OF inv])
      (simp_all add: word_less_nat_alt entry Let_def bit_or_iff bit_1_u32 bit_2_u32 bit_4_u32)
  then have "x86_paging_guest_identity_translate sample_paging (Some sample_binding) ?page True \<noteq> None"
    using e by (simp add: identity_translate_eq [OF inv sample_binding_active] word_less_nat_alt u)
  moreover have "guest_linear_limit sample_binding = 0x110000"
    using sample_binding_active by (simp add: x86_paging_binding_is_active_def)
  moreover have "find_page (kernel_shadow sample_kernel) ?page = None"
    by (simp add: find_page_def find_None_iff sample_kernel_simps empty_shadow_page_def)
  ultimately show ?thesis
    using sample_binding_active e
    by (simp add: guest_reach_def guest_frame_def x86_firmware_shadow_translate_def sample_kernel_simps Let_def
        owner_is_active_def word_le_nat_alt u)
qed

end
