(* ===== verification/McbGuest.thy ===== *)
theory McbGuest
  imports GuestSpace
begin

text \<open>
  What DOS memory management does to the guest. The theorems about the arena and about segmented
  transfers, proved over any backend that keeps the \<open>guest_backend\<close> contract, are stated here for the
  machine that \<open>x86_guest_space_machine\<close> hands out, over the memory the guest sees.
\<close>

declare bit_numeral_word_iff [simp del] bit_neg_numeral_word_iff [simp del]

section \<open>A guest that can be served\<close>

definition sample_machine :: "guest_space_owner dos_machine" where
  "sample_machine = guest_machine (\<lambda>gs _ _ _. (0, 0, gs)) (\<lambda>gs _ _ _ _. (0, gs)) (running_machine 7 True)"

lemma sample_paragraphs: "paras_reachable sample_machine (guest_reach (gs_kernel sample_space)) 0 0xa000"
proof -
  have "par_addr s + of_nat i < 0xa0000" if "s < 0xa000" "i < 16" for s i
    using that by (simp add: par_addr_def word_less_nat_alt unat_word_ariths unat_of_nat)
  moreover have "guest_range_is_valid sample_machine (par_addr s) 16" if "s < 0xa000" for s
    using that
    by (intro range_validI) (simp_all add: sample_machine_def guest_machine_def running_machine_def par_addr_def
        unat_word_ariths unat_of_nat)
  ultimately show ?thesis using sample_conventional by (simp add: paras_reachable_def sample_space_def)
qed


text \<open>The arena object before its first use, and the state after it is laid over \<open>1000h..9FFEh\<close>.\<close>

definition blank_arena :: dos_memory_arena where
  "blank_arena = \<lparr>generation = 1, identity = 5, head_segment = 0, strategy = 0, initialized = 0,
     machine_poisoned = 0, constructed = 1, arena_reserved = [0, 0]\<rparr>"

abbreviation guest_view :: "guest_space_owner \<Rightarrow> memory" where
  "guest_view gs \<equiv> guest_memory (gs_kernel gs)"

text \<open>The arena after layout, and the guest space before and after a first allocation of 16 paragraphs.\<close>

definition sample_arena :: dos_memory_arena where
  "sample_arena = fst (snd (dos_memory_arena_initialize_checked blank_arena sample_machine sample_space 0x1000 0x9fff))"

definition fresh_space :: guest_space_owner where
  "fresh_space = snd (snd (dos_memory_arena_initialize_checked blank_arena sample_machine sample_space 0x1000 0x9fff))"

definition used_space :: guest_space_owner where
  "used_space = fst (snd (snd (dos_memory_allocate_checked sample_arena sample_machine fresh_space 0x2000 16)))"

lemma sample_laid_out:
  "guest_ready 7 fresh_space" "arena_is_ready sample_arena = DOS_MEMORY_OK" "head_segment sample_arena = 0x1000"
  "strategy sample_arena = 0" "chain (par (guest_view fresh_space)) 0x1000 [(MCB_OWNER_FREE, 0x8ffe)]"
  "paras_reachable sample_machine (guest_reach (gs_kernel fresh_space)) 0 0xa000"
proof -
  note m = sample_machine_def
  let ?init = "dos_memory_arena_initialize_checked blank_arena sample_machine sample_space 0x1000 0x9fff"
  have r1: "paras_reachable sample_machine (guest_reach (gs_kernel sample_space)) (unat (0x1000 :: u16)) (Suc (unat (0x1000 :: u16)))"
    using sample_paragraphs by (auto simp: paras_reachable_def)
  have "fst ?init = DOS_MEMORY_OK"
    unfolding m
    by (rule gs.initialize_total [OF sample_ready _ _ _ _ _ r1 [unfolded m]])
      (simp_all add: blank_arena_def arena_flags_have_valid_encoding_def arena_identity_is_valid_def
        KERNEL_OBJECT_HANDLE_INVALID_def DOS_MEMORY_GENERATION_MAX_def)
  then have "?init = (DOS_MEMORY_OK, sample_arena, fresh_space)" by (simp add: sample_arena_def fresh_space_def prod_eq_iff)
  note I = gs.initialize_refines [OF sample_ready this [unfolded m]]
  show "guest_ready 7 fresh_space" "arena_is_ready sample_arena = DOS_MEMORY_OK" "head_segment sample_arena = 0x1000"
    "strategy sample_arena = 0" "chain (par (guest_view fresh_space)) 0x1000 [(MCB_OWNER_FREE, 0x8ffe)]"
    "paras_reachable sample_machine (guest_reach (gs_kernel fresh_space)) 0 0xa000"
    using I sample_paragraphs by simp_all
qed

lemma sample_allocated:
  "guest_ready 7 used_space" "chain (par (guest_view used_space)) 0x1000 [(0x2000, 16), (MCB_OWNER_FREE, 0x8fed)]"
  "\<exists>maximum. dos_memory_allocate_checked sample_arena sample_machine fresh_space 0x2000 16 =
     (DOS_MEMORY_OK, sample_arena, used_space, 0x1001, maximum)"
  "paras_reachable sample_machine (guest_reach (gs_kernel used_space)) 0 0xa000"
proof -
  note g = sample_laid_out
  obtain status arena' block maximum where run:
    "dos_memory_allocate_checked sample_arena sample_machine fresh_space 0x2000 16 = (status, arena', used_space, block, maximum)"
    unfolding used_space_def by (metis fst_conv snd_conv prod_cases5)
  have h: "unat (head_segment sample_arena) = 0x1000" by (simp add: g(3))
  have abs: "abs_allocate 0 0x2000 16 0x1000 [(MCB_OWNER_FREE, 0x8ffe)] = Some ([(0x2000, 16), (MCB_OWNER_FREE, 0x8fed)], 0x1000)"
    by (simp add: abs_allocate_def is_free_def fits_def choose_fit_def allocation_def split_low_def header_offset_def)
  have "paras_reachable sample_machine (guest_reach (gs_kernel fresh_space)) 0x1000 0x9fff"
    using g(6) by (auto simp: paras_reachable_def)
  then have "paras_reachable sample_machine (guest_reach (gs_kernel fresh_space)) (unat (head_segment sample_arena))
      (unat (head_segment sample_arena) + span [(MCB_OWNER_FREE, 0x8ffe)])" by (simp add: h)
  with gs.allocate_refines [OF g(1) g(5) [folded h] g(2) run [unfolded dos_memory_allocate_checked_def sample_machine_def]]
  have "guest_ready 7 used_space" "guest_reach (gs_kernel used_space) = guest_reach (gs_kernel fresh_space)" "status = DOS_MEMORY_OK"
    "arena' = sample_arena" "block = 0x1001" "chain (par (guest_view used_space)) 0x1000 [(0x2000, 16), (MCB_OWNER_FREE, 0x8fed)]"
    by (auto simp: allocated_def abs g(4) h seg_def sample_machine_def)
  with g(6) run show "guest_ready 7 used_space" "chain (par (guest_view used_space)) 0x1000 [(0x2000, 16), (MCB_OWNER_FREE, 0x8fed)]"
    "\<exists>maximum. dos_memory_allocate_checked sample_arena sample_machine fresh_space 0x2000 16 =
       (DOS_MEMORY_OK, sample_arena, used_space, 0x1001, maximum)"
    "paras_reachable sample_machine (guest_reach (gs_kernel used_space)) 0 0xa000" by auto
qed

lemma used_block:
  "unat (head_segment sample_arena) = 0x1000" "unat ((0x1001 :: u16) - 1) = 0x1000"
  "span [(0x2000, 16), (MCB_OWNER_FREE, 0x8fed)] = 0x8fff"
  "set (owned 0x1000 [(0x2000, 16), (MCB_OWNER_FREE, 0x8fed)]) = {(0x1000, (0x2000, 16))}"
  "paras_reachable sample_machine (guest_reach (gs_kernel used_space)) 0x1000 (0x1000 + 0x8fff)"
  "owned 0x1000 [(0x2000, 16), (MCB_OWNER_FREE, 0x8fed)] = [(0x1000, (0x2000, 16))]"
  using sample_allocated(4) by (auto simp: sample_laid_out(3) is_free_def MCB_OWNER_FREE_def paras_reachable_def)

section \<open>The blocks in use\<close>

lemma owned_position: "x \<in> set (owned s bs) \<Longrightarrow> s \<le> fst x \<and> fst x < s + span bs"
proof (induction bs arbitrary: s)
  case (Cons c bs)
  from Cons.prems consider "x = (s, c)" | "x \<in> set (owned (s + snd c + 1) bs)" by (auto split: if_splits)
  then show ?case using Cons.IH [of "s + snd c + 1"] by cases auto
qed simp

lemma owned_without:
  assumes "bs = pre @ blk # post" "t = s + span pre"
  shows "set (owned s bs) - {(t, blk)} = set (owned s pre) \<union> set (owned (t + snd blk + 1) post)"
proof -
  have "(t, blk) \<notin> set (owned s pre)" using owned_position [of "(t, blk)" s pre] assms(2) by auto
  moreover have "(t, blk) \<notin> set (owned (t + snd blk + 1) post)" using owned_position [of "(t, blk)" "t + snd blk + 1" post] by auto
  moreover have "set (owned s bs) = set (owned s pre) \<union> (if is_free blk then {} else {(t, blk)}) \<union> set (owned (t + snd blk + 1) post)"
    by (auto simp: assms owned_append)
  ultimately show ?thesis by auto
qed

lemma owned_at: "(t, blk) \<in> set (owned s bs) \<longleftrightarrow> find_at s bs t = Some blk \<and> \<not> is_free blk"
proof (induction bs arbitrary: s)
  case (Cons c bs)
  have "find_at (s + snd c + 1) bs t = None" if "s = t"
    using that headers_range [of t "s + snd c + 1" bs] by (auto simp: find_at_headers)
  then show ?case using Cons [of "s + snd c + 1"] by auto
qed simp

lemma owned_released:
  assumes "find_at s bs t = Some blk"
  shows "set (owned s (relabel_at s bs t MCB_OWNER_FREE)) = set (owned s bs) - {(t, blk)}"
    and "{t..t + snd blk} \<subseteq> free_paras s (relabel_at s bs t MCB_OWNER_FREE)"
proof -
  obtain pre post where b: "bs = pre @ blk # post" "t = s + span pre" using assms by (rule find_at_split)
  note r = relabel_at_split [OF b assms, of MCB_OWNER_FREE]
  show "set (owned s (relabel_at s bs t MCB_OWNER_FREE)) = set (owned s bs) - {(t, blk)}"
    unfolding owned_without [OF b] r by (simp add: owned_append is_free_def b(2))
  show "{t..t + snd blk} \<subseteq> free_paras s (relabel_at s bs t MCB_OWNER_FREE)"
    unfolding r by (auto simp: free_paras_append is_free_def b(2))
qed

lemma owned_release_all: "owner \<noteq> MCB_OWNER_FREE \<Longrightarrow> owned s (release_all owner bs) = filter (\<lambda>x. fst (snd x) \<noteq> owner) (owned s bs)"
  by (induction bs arbitrary: s) (auto simp: is_free_def)

lemma owned_all_free: "\<forall>c \<in> set bs. is_free c \<Longrightarrow> owned s bs = []"
  by (induction bs arbitrary: s) simp_all

lemma owned_split_low:
  assumes "requested \<le> n" "owner \<noteq> MCB_OWNER_FREE"
  shows "owned t (split_low owner requested n @ post) = (t, (owner, requested)) # owned (t + n + 1) post"
proof (cases "requested < n")
  case True
  then obtain k where "n = Suc (requested + k)" using less_imp_Suc_add by blast
  with assms(2) show ?thesis by (simp add: split_low_def is_free_def add_ac)
qed (use assms in \<open>simp add: split_low_def is_free_def\<close>)

lemma owned_resized:
  assumes "find_at s bs t = Some blk" "abs_resize s bs t owner requested = (cs, met, n)" "\<not> is_free blk" "owner \<noteq> MCB_OWNER_FREE"
  shows "set (owned s cs) = insert (t, if met then (owner, requested) else (fst blk, n)) (set (owned s bs) - {(t, blk)})"
    and "met \<longleftrightarrow> requested \<le> n" and "snd blk \<le> n"
proof -
  obtain pre post where b: "bs = pre @ blk # post" "t = s + span pre" using assms(1) by (rule find_at_split)
  obtain blk' post' where m: "merge_free blk post = (blk', post')" by fastforce
  obtain absorbed where a: "post = absorbed @ post'" "\<forall>c \<in> set absorbed. is_free c" "blk' = (fst blk, snd blk + span absorbed)"
    using merge_free_absorbs [OF m] by blast
  note r = abs_resize_split [OF m, of s pre owner requested] assms(2) b
  show met: "met \<longleftrightarrow> requested \<le> n" and "snd blk \<le> n" using r a(3) by (auto split: if_splits)
  have rest: "set (owned s bs) - {(t, blk)} = set (owned s pre) \<union> set (owned (t + n + 1) post')"
    unfolding owned_without [OF b] using r a(3) owned_all_free [OF a(2)]
    by (auto simp: a(1) owned_append add_ac split: if_splits)
  have "set (owned s cs) = insert (t, if met then (owner, requested) else (fst blk, n)) (set (owned s pre) \<union> set (owned (t + n + 1) post'))"
    using r a(3) assms(3) owned_split_low [OF _ assms(4), of requested n t post']
    by (auto simp: owned_append is_free_def simp del: append_assoc split: if_splits)
  with rest show "set (owned s cs) = insert (t, if met then (owner, requested) else (fst blk, n)) (set (owned s bs) - {(t, blk)})"
    by simp
qed

lemma abs_resize_max:
  assumes "find_at s bs t = Some blk" "abs_resize s bs t owner requested = (cs, met, n)"
  shows "t + n < s + span bs"
proof -
  obtain pre post where b: "bs = pre @ blk # post" "t = s + span pre" using assms(1) by (rule find_at_split)
  obtain blk' post' where m: "merge_free blk post = (blk', post')" by fastforce
  obtain absorbed where a: "post = absorbed @ post'" "blk' = (fst blk, snd blk + span absorbed)"
    using merge_free_absorbs [OF m] by blast
  show ?thesis using abs_resize_split [OF m, of s pre owner requested] assms(2) b a by (auto split: if_splits)
qed

section \<open>Properties of the arena\<close>

text \<open>C25: laying out the arena over a range of conventional memory succeeds on a machine that can write the
  first paragraph, and leaves a chain of one free block that covers exactly the range, without touching any
  byte outside the first paragraph.\<close>

theorem arena_initialisation:
  assumes "guest_ready ident gs"
    "dos_memory_arena_initialize_checked arena (guest_machine rp wp (running_machine ident a20)) gs head end_segment = (status, arena', gs')"
    "arena_flags_have_valid_encoding arena" "arena_identity_is_valid (identity arena)" "machine_poisoned arena = 0"
    "generation arena \<noteq> DOS_MEMORY_GENERATION_MAX" "head < end_segment"
    "paras_reachable (guest_machine rp wp (running_machine ident a20)) (guest_reach (gs_kernel gs)) (unat head) (Suc (unat head))"
  shows "status = DOS_MEMORY_OK \<and> arena_is_ready arena' = DOS_MEMORY_OK \<and> head_segment arena' = head \<and>
    generation arena' = generation arena + 1 \<and> same_outside (guest_view gs) (guest_view gs') {unat head} \<and>
    chain (par (guest_view gs')) (unat head) [(MCB_OWNER_FREE, unat end_segment - unat head - 1)]"
proof -
  have "status = DOS_MEMORY_OK" using gs.initialize_total [OF assms(1,3-8)] assms(2) by simp
  with gs.initialize_refines [OF assms(1), of arena rp wp a20 head end_segment arena' gs'] assms(2) show ?thesis by simp
qed

theorem arena_initialisation_witness:
  "fst (dos_memory_arena_initialize_checked blank_arena sample_machine sample_space 0x1000 0x9fff) = DOS_MEMORY_OK"
proof -
  obtain st arena gs where ini:
    "dos_memory_arena_initialize_checked blank_arena sample_machine sample_space 0x1000 0x9fff = (st, arena, gs)"
    by (metis prod_cases3)
  have r1: "paras_reachable sample_machine (guest_reach (gs_kernel sample_space)) (unat (0x1000 :: u16)) (Suc (unat (0x1000 :: u16)))"
    using sample_paragraphs by (auto simp: paras_reachable_def)
  from arena_initialisation [OF sample_ready ini [unfolded sample_machine_def] _ _ _ _ _ r1 [unfolded sample_machine_def]] ini
  show ?thesis
    by (simp add: blank_arena_def arena_flags_have_valid_encoding_def arena_identity_is_valid_def
        KERNEL_OBJECT_HANDLE_INVALID_def DOS_MEMORY_GENERATION_MAX_def)
qed

text \<open>C18: a DOS allocation call on a well-formed chain returns a block of the requested size that was free, the
  block the current strategy picks among the free blocks with neighbours merged, and records its owner;
  every other block keeps its place, size and owner and no byte outside free memory changes. It refuses for
  lack of memory only if no free block, neighbours merged, is large enough, and then reports the size of the largest. On
  memory the guest can reach these are the only outcomes; a fault elsewhere leaves a chain with the same
  blocks or a poisoned arena.\<close>

theorem allocation_serves_requests:
  assumes "guest_ready ident gs" "arena_is_ready arena = DOS_MEMORY_OK" "owner \<noteq> MCB_OWNER_FREE"
    "chain (par (guest_view gs)) (unat (head_segment arena)) bs"
    "dos_memory_allocate_checked arena (guest_machine rp wp (running_machine ident a20)) gs owner n =
       (status, arena', gs', block, maximum)"
  defines "h \<equiv> unat (head_segment arena)" and "t \<equiv> unat (block - 1)"
  shows "same_outside (guest_view gs) (guest_view gs') (free_paras h bs) \<and>
    (status = DOS_MEMORY_OK \<and> arena' = arena \<and> {t..t + unat n} \<subseteq> free_paras h bs \<and>
       t = fst (choose_fit (strategy arena) (fits (unat n) (free_blocks h (defrag bs)))) +
           header_offset (strategy arena) (unat n) (snd (choose_fit (strategy arena) (fits (unat n) (free_blocks h (defrag bs))))) \<and>
       (\<exists>cs. chain (par (guest_view gs')) h cs \<and> span cs = span bs \<and>
          set (owned h cs) = insert (t, (owner, unat n)) (set (owned h bs))) \<or>
     status = DOS_MEMORY_NOT_ENOUGH_MEMORY \<and> arena' = arena \<and> chain (par (guest_view gs')) h (defrag bs) \<and>
       fits (unat n) (free_blocks h (defrag bs)) = [] \<and> maximum = seg (largest (free_blocks h (defrag bs))) \<or>
     status = DOS_MEMORY_MACHINE_FAULT \<and> arena' = arena \<and>
       (\<exists>cs. chain (par (guest_view gs')) h cs \<and> span cs = span bs \<and> owned h cs = owned h bs) \<or>
     status = DOS_MEMORY_MACHINE_POISONED \<and> arena' = poisoned_arena arena) \<and>
    (paras_reachable (guest_machine rp wp (running_machine ident a20)) (guest_reach (gs_kernel gs)) h (h + span bs) \<longrightarrow>
       status = DOS_MEMORY_OK \<or> status = DOS_MEMORY_NOT_ENOUGH_MEMORY)"
proof -
  have A: "allocated (guest_view gs) h bs arena owner n status arena' (guest_view gs') block maximum"
    and total: "paras_reachable (guest_machine rp wp (running_machine ident a20)) (guest_reach (gs_kernel gs)) h (h + span bs) \<longrightarrow>
       status = DOS_MEMORY_OK \<or> status = DOS_MEMORY_NOT_ENOUGH_MEMORY"
    using gs.allocate_refines [OF assms(1,4,2) assms(5) [unfolded dos_memory_allocate_checked_def]]
    unfolding h_def by blast+
  have out: "same_outside (guest_view gs) (guest_view gs') (free_paras h bs)" using A by (simp add: allocated_def)
  consider (ok) cs header where "status = DOS_MEMORY_OK" "arena' = arena" "block = seg header + 1"
      "abs_allocate (strategy arena) owner (unat n) h bs = Some (cs, header)" "chain (par (guest_view gs')) h cs"
    | (refused) "status = DOS_MEMORY_NOT_ENOUGH_MEMORY" "arena' = arena" "chain (par (guest_view gs')) h (defrag bs)"
      "maximum = seg (largest (free_blocks h (defrag bs)))" "abs_allocate (strategy arena) owner (unat n) h bs = None"
    | (fault) cs where "status = DOS_MEMORY_MACHINE_FAULT" "arena' = arena" "merges bs cs" "chain (par (guest_view gs')) h cs"
    | (poison) "status = DOS_MEMORY_MACHINE_POISONED" "arena' = poisoned_arena arena"
    using A by (auto simp: allocated_def)
  then show ?thesis
  proof cases
    case ok
    note free = abs_allocate_free [OF ok(4)]
    then have "header < 0x10000"
      using free_paras_range [of header h bs] chain_bound [OF assms(4) [folded h_def]] by fastforce
    then have t: "t = header" by (simp add: t_def ok(3))
    have "header = fst (choose_fit (strategy arena) (fits (unat n) (free_blocks h (defrag bs)))) +
        header_offset (strategy arena) (unat n) (snd (choose_fit (strategy arena) (fits (unat n) (free_blocks h (defrag bs)))))"
      using ok(4) by (auto simp: abs_allocate_def Let_def split: prod.splits if_splits)
    with out ok t free abs_allocate_span [OF ok(4)] abs_allocate_owned [OF ok(4) assms(3)] show ?thesis by auto
  next
    case refused
    then have "fits (unat n) (free_blocks h (defrag bs)) = []"
      by (auto simp: abs_allocate_def Let_def split: prod.splits if_splits)
    with out total refused show ?thesis by simp
  next
    case fault
    with out total merges_keeps [OF fault(3), of h] show ?thesis by auto
  qed (use out total in simp)
qed

theorem allocation_serves_requests_witness:
  "\<exists>maximum. dos_memory_allocate_checked sample_arena sample_machine fresh_space 0x2000 16 =
       (DOS_MEMORY_OK, sample_arena, used_space, 0x1001, maximum) \<and>
     same_outside (guest_view fresh_space) (guest_view used_space) {0x1000..0x9ffe}"
proof -
  note g = sample_laid_out and h = used_block(1)
  obtain maximum where run: "dos_memory_allocate_checked sample_arena sample_machine fresh_space 0x2000 16 =
      (DOS_MEMORY_OK, sample_arena, used_space, 0x1001, maximum)" using sample_allocated(3) by blast
  have "(0x2000 :: u16) \<noteq> MCB_OWNER_FREE" by (simp add: MCB_OWNER_FREE_def)
  from allocation_serves_requests [OF g(1,2) this g(5) [folded h] run [unfolded sample_machine_def]]
  have "same_outside (guest_view fresh_space) (guest_view used_space) {0x1000..0x9ffe}" by (simp add: h is_free_def)
  with run show ?thesis by blast
qed





text \<open>C22: tearing down a process frees exactly the blocks of that process: on reachable memory the call succeeds, the
  blocks in use afterwards are those of other owners, at their place and with their size, and only header
  paragraphs change. A fault that comes after the first header was rewritten poisons the arena, so that a half-freed process is never served from.\<close>

theorem teardown_frees_the_process:
  assumes "guest_ready ident gs" "arena_is_ready arena = DOS_MEMORY_OK" "owner \<noteq> MCB_OWNER_FREE"
    "chain (par (guest_view gs)) (unat (head_segment arena)) bs"
    "dos_memory_free_process_checked arena (guest_machine rp wp (running_machine ident a20)) gs owner = (status, arena', gs')"
  defines "h \<equiv> unat (head_segment arena)"
  shows "same_outside (guest_view gs) (guest_view gs') (headers h bs) \<and>
    (status = DOS_MEMORY_OK \<and> arena' = arena \<and>
       (\<exists>cs. chain (par (guest_view gs')) h cs \<and> span cs = span bs \<and>
          owned h cs = filter (\<lambda>x. fst (snd x) \<noteq> owner) (owned h bs)) \<or>
     status = DOS_MEMORY_MACHINE_FAULT \<and> arena' = arena \<and> guest_view gs' = guest_view gs \<or>
     status = DOS_MEMORY_MACHINE_POISONED \<and> arena' = poisoned_arena arena) \<and>
    (paras_reachable (guest_machine rp wp (running_machine ident a20)) (guest_reach (gs_kernel gs)) h (h + span bs) \<longrightarrow>
       status = DOS_MEMORY_OK)"
  using gs.free_process_refines [OF assms(1,4,2,5), folded h_def] owned_release_all [OF assms(3), of h bs]
    span_release_all [of owner bs]
  unfolding torn_down_def by blast

theorem teardown_frees_the_process_witness:
  "\<exists>gs' cs. dos_memory_free_process_checked sample_arena sample_machine used_space 0x2000 = (DOS_MEMORY_OK, sample_arena, gs') \<and>
     chain (par (guest_view gs')) 0x1000 cs \<and> owned 0x1000 cs = []"
proof -
  note u = used_block
  obtain status arena' gs' where run: "dos_memory_free_process_checked sample_arena sample_machine used_space 0x2000 = (status, arena', gs')"
    by (metis prod_cases3)
  have free: "(0x2000 :: u16) \<noteq> MCB_OWNER_FREE" by (simp add: MCB_OWNER_FREE_def)
  note P = teardown_frees_the_process [OF sample_allocated(1) sample_laid_out(2) free sample_allocated(2) [folded u(1)]
      run [unfolded sample_machine_def], folded sample_machine_def, unfolded u(1,3,6)]
  have "status = DOS_MEMORY_OK" using P u(5) by blast
  with P run show ?thesis by auto
qed



text \<open>C24: the arena check ends after a bounded walk and is exact: it accepts only memory that holds a well-formed chain
  from the first segment, and it accepts every such chain the guest can reach.\<close>

theorem validation_decides_the_chain:
  fixes rp wp a20
  assumes "guest_ready ident gs" "arena_is_ready arena = DOS_MEMORY_OK"
  defines "h \<equiv> unat (head_segment arena)" and "m \<equiv> guest_machine rp wp (running_machine ident a20)"
  shows "(dos_memory_arena_validate_checked arena m gs = DOS_MEMORY_OK \<longrightarrow> (\<exists>bs. chain (par (guest_view gs)) h bs)) \<and>
    (\<forall>bs. chain (par (guest_view gs)) h bs \<and> paras_reachable m (guest_reach (gs_kernel gs)) h (h + span bs) \<longrightarrow>
       dos_memory_arena_validate_checked arena m gs = DOS_MEMORY_OK)"
proof -
  have v: "dos_memory_arena_validate_checked arena m gs = validate_loop MCB_MAXIMUM_WALK m gs (head_segment arena)"
    using assms(2) by (simp add: dos_memory_arena_validate_checked_def)
  have "dos_memory_arena_validate_checked arena m gs = DOS_MEMORY_OK"
    if "chain (par (guest_view gs)) h bs" "paras_reachable m (guest_reach (gs_kernel gs)) h (h + span bs)" for bs
    using gs.validate_loop_complete(2) [OF assms(1) that(1), of MCB_MAXIMUM_WALK rp wp a20] that(2) chain_length [OF that(1)]
    by (simp add: v [unfolded m_def] h_def m_def MCB_MAXIMUM_WALK_def)
  moreover have "\<exists>bs. chain (par (guest_view gs)) h bs" if "dos_memory_arena_validate_checked arena m gs = DOS_MEMORY_OK"
    using gs.validate_loop_sound [OF assms(1) that [unfolded v, unfolded m_def]] by (simp add: h_def)
  ultimately show ?thesis by blast
qed

theorem validation_decides_the_chain_witness:
  "dos_memory_arena_validate_checked sample_arena sample_machine used_space = DOS_MEMORY_OK"
  using validation_decides_the_chain [OF sample_allocated(1) sample_laid_out(2), of "\<lambda>gs _ _ _. (0, 0, gs)" "\<lambda>gs _ _ _ _. (0, gs)" True]
    sample_allocated(2) used_block(5) [folded used_block(3)]
  unfolding sample_machine_def [symmetric] used_block(1) by blast

section \<open>Properties of guest memory access\<close>

text \<open>C26: a write through the machine interface changes the guest's memory in exactly the addressed range, to the bytes
  given, or reports a fault and changes nothing; it succeeds exactly if the guest may write every byte of
  the range. A read that succeeds returns the memory. So reads give back what was last written, wherever pages are identity mapped or shadowed by private copies.\<close>

theorem guest_accesses_are_exact:
  fixes rp wp a20
  assumes "guest_ready ident gs" "0 < n" "n \<le> length src" "unat a + n \<le> 0x110000"
  defines "m \<equiv> guest_machine rp wp (running_machine ident a20)"
  shows "(if \<forall>i < n. guest_reach (gs_kernel gs) (a + of_nat i)
      then \<exists>gs'. dos_machine_write (Some m) gs a (Some src) n = (DOS_MACHINE_OK, gs') \<and> guest_ready ident gs' \<and>
         guest_view gs' = mem_write (guest_view gs) a (take n src) \<and>
         dos_machine_read (Some m) gs' a (Some n) n = (DOS_MACHINE_OK, take n src)
      else dos_machine_write (Some m) gs a (Some src) n = (DOS_MACHINE_ADDRESS_FAULT, gs)) \<and>
    (\<forall>data. dos_machine_read (Some m) gs a (Some n) n = (DOS_MACHINE_OK, data) \<longrightarrow> data = mem_read (guest_view gs) a n)"
proof -
  have valid: "guest_range_is_valid m a n"
    using assms(2,4) by (intro range_validI) (simp_all add: m_def guest_machine_def running_machine_def)
  note range = machine_range [OF valid [unfolded m_def] assms(2)]
  have len: "length (take n src) = n" using assms(3) by simp
  have rd: "data = mem_read (guest_view gs) a n" if "dos_machine_read (Some m) gs a (Some n) n = (DOS_MACHINE_OK, data)" for data
    using gs.machine_read_sound(1) [OF assms(1) order.refl that [unfolded m_def]] .
  show ?thesis
  proof (cases "\<forall>i < n. guest_reach (gs_kernel gs) (a + of_nat i)")
    case True
    then obtain gs' where w: "dos_machine_write (Some m) gs a (Some src) n = (DOS_MACHINE_OK, gs')" "guest_ready ident gs'"
      "guest_reach (gs_kernel gs') = guest_reach (gs_kernel gs)" "guest_view gs' = mem_write (guest_view gs) a (take n src)"
      using gs.machine_write_total [OF assms(1,3) valid [unfolded m_def]] unfolding m_def by blast
    have "n \<le> 2 ^ 32" using assms(4) by simp
    then have "mem_read (guest_view gs') a n = take n src"
      using mem_read_write_same [of "take n src" "guest_view gs" a] len w(4) by simp
    moreover have "dos_machine_read (Some m) gs' a (Some n) n = (DOS_MACHINE_OK, mem_read (guest_view gs') a n)"
      unfolding m_def by (rule gs.machine_read_total [OF w(2) order.refl valid [unfolded m_def]]) (simp add: w(3) True)
    ultimately show ?thesis using True w rd by auto
  next
    case False
    then have "identity_write gs ident a src n = (2, gs)" using identity_write_eq [OF assms(1) range assms(3)] by simp
    then have "dos_machine_write (Some m) gs a (Some src) n = (DOS_MACHINE_ADDRESS_FAULT, gs)"
      unfolding m_def gs.machine_write_eq [OF assms(2,3) valid [unfolded m_def]]
      by (simp add: guest_machine_def running_machine_def normalize_callback_status_def machine_status_is_valid_def)
    with False rd show ?thesis by simp
  qed
qed

theorem guest_accesses_are_exact_witness:
  "\<exists>gs'. dos_machine_write (Some sample_machine) sample_space 0x9ffff (Some [0xab]) 1 = (DOS_MACHINE_OK, gs') \<and>
     dos_machine_read (Some sample_machine) gs' 0x9ffff (Some 1) 1 = (DOS_MACHINE_OK, [0xab])"
proof -
  have "\<forall>i < (1 :: nat). guest_reach (gs_kernel sample_space) (0x9ffff + of_nat i)"
    using sample_conventional [of "0x9ffff"] by (simp add: sample_space_def)
  with guest_accesses_are_exact [OF sample_ready, of 1 "[0xab]" "0x9ffff" "\<lambda>gs _ _ _. (0, 0, gs)" "\<lambda>gs _ _ _ _. (0, gs)" True]
  show ?thesis unfolding sample_machine_def by auto
qed

text \<open>C27: a segmented transfer that succeeds moves the bytes a real-mode processor would, one at a time with the offset wrapping
  at 64 KiB and the address wrapping at 1 MiB when the A20 gate is closed, although the code moves them in
  chunks.\<close>

theorem far_transfers_follow_the_processor:
  fixes rp wp a20
  assumes "guest_ready ident gs"
  defines "m \<equiv> guest_machine rp wp (running_machine ident a20)"
  shows "(\<forall>data. dos_machine_read_far (Some m) gs segment offset (Some capacity) n = (DOS_MACHINE_OK, data) \<longrightarrow>
       data = far_bytes (guest_view gs) a20 segment offset n) \<and>
    (\<forall>gs'. dos_machine_write_far (Some m) gs segment offset (Some src) n = (DOS_MACHINE_OK, gs') \<longrightarrow>
       guest_view gs' = far_store (guest_view gs) a20 segment offset (take n src) \<and> guest_ready ident gs')"
proof -
  have a: "a20_enabled m = a20" by (simp add: m_def guest_machine_def running_machine_def)
  show ?thesis
  proof (intro conjI allI impI)
    fix data assume "dos_machine_read_far (Some m) gs segment offset (Some capacity) n = (DOS_MACHINE_OK, data)"
    from gs.machine_read_far_sound [OF assms(1) this [unfolded m_def], folded m_def, unfolded a]
    show "data = far_bytes (guest_view gs) a20 segment offset n" .
  next
    fix gs' assume w: "dos_machine_write_far (Some m) gs segment offset (Some src) n = (DOS_MACHINE_OK, gs')"
    from gs.machine_write_far_sound(1) [OF assms(1) w [unfolded m_def], folded m_def, unfolded a]
    show "guest_view gs' = far_store (guest_view gs) a20 segment offset (take n src)" .
    from gs.machine_write_far_sound(2) [OF assms(1) w [unfolded m_def]] show "guest_ready ident gs'" .
  qed
qed

theorem far_transfers_follow_the_processor_witness:
  "\<exists>data. dos_machine_read_far (Some sample_machine) sample_space 0x1000 0xffff (Some 2) 2 = (DOS_MACHINE_OK, data) \<and>
     data = [guest_view sample_space 0x1ffff, guest_view sample_space 0x10000]"
proof -
  have v: "guest_range_is_valid sample_machine a 1" if "unat a < 0xa0000" for a
    using that by (intro range_validI) (simp_all add: sample_machine_def guest_machine_def running_machine_def)
  have r: "dos_machine_read (Some sample_machine) sample_space a (Some c) 1 = (DOS_MACHINE_OK, mem_read (guest_view sample_space) a 1)"
    if "unat a < 0xa0000" "1 \<le> c" for a c
    unfolding sample_machine_def
    by (rule gs.machine_read_total [OF sample_ready that(2) v [OF that(1), unfolded sample_machine_def]])
      (use that sample_conventional in \<open>simp add: sample_space_def word_less_nat_alt\<close>)
  have a20: "a20_enabled sample_machine" "address_limit sample_machine = 0x110000" "poisoned sample_machine = 0"
    by (simp_all add: sample_machine_def guest_machine_def running_machine_def)
  have c1: "far_transfer_chunk True 0x1000 0xffff 2 = (1, 0x1ffff)" and c2: "far_transfer_chunk True 0x1000 0 1 = (1, 0x10000)"
    by (simp_all add: far_transfer_chunk_def dos_far_to_linear_def)
  have z: "(0x10000 :: u16) = 0" by (simp add: word_unat_eq_iff)
  have "validate_far_loop sample_machine 0x1000 0 1 = DOS_MACHINE_OK"
    using v [of "0x10000"] by (subst validate_far_loop.simps) (simp add: a20 c2 [simplified] validate_far_loop.simps [of _ _ _ 0])
  then have v2: "validate_far_loop sample_machine 0x1000 0x10000 1 = DOS_MACHINE_OK" by (simp only: z)
  have v1: "validate_far_loop sample_machine 0x1000 0xffff 2 = DOS_MACHINE_OK"
    using v [of "0x1ffff"] v2 by (subst validate_far_loop.simps) (simp add: a20 c1)
  have val: "dos_machine_validate_far (Some sample_machine) 0x1000 0xffff 2 = DOS_MACHINE_OK"
    by (simp add: dos_machine_validate_far_def a20 machine_ready_def v1 DOS_GUEST_32_ADDRESS_LIMIT_def)
  have "read_far_loop sample_machine sample_space 0x1000 0 1 1 acc = (DOS_MACHINE_OK, acc @ mem_read (guest_view sample_space) 0x10000 1)" for acc
    using r [of "0x10000" 1] by (subst read_far_loop.simps) (simp add: a20 c2 [simplified] read_far_loop.simps [of _ _ _ _ _ 0])
  then have r2: "read_far_loop sample_machine sample_space 0x1000 0x10000 1 1 acc =
      (DOS_MACHINE_OK, acc @ mem_read (guest_view sample_space) 0x10000 1)" for acc by (simp only: z)
  have "\<exists>t. ops sample_machine = Some t \<and> read_memory t \<noteq> None"
    by (simp add: sample_machine_def guest_machine_def guest_machine_ops_def)
  then have "dos_machine_read_far (Some sample_machine) sample_space 0x1000 0xffff (Some 2) 2 =
      read_far_loop sample_machine sample_space 0x1000 0xffff 2 2 []"
    using val by (auto simp: dos_machine_read_far_def)
  also have "\<dots> = (DOS_MACHINE_OK, mem_read (guest_view sample_space) 0x1ffff 1 @ mem_read (guest_view sample_space) 0x10000 1)"
    using r [of "0x1ffff" 2] r2 by (subst read_far_loop.simps) (simp add: a20 c1)
  finally obtain data where d: "dos_machine_read_far (Some sample_machine) sample_space 0x1000 0xffff (Some 2) 2 = (DOS_MACHINE_OK, data)"
    by blast
  have "data = far_bytes (guest_view sample_space) True 0x1000 0xffff 2"
    using far_transfers_follow_the_processor [OF sample_ready, THEN conjunct1, rule_format, OF d [unfolded sample_machine_def]] .
  moreover have "[0..<2] = [0, 1 :: nat]" by (simp add: numeral_2_eq_2)
  moreover have "dos_far_to_linear 0x1000 0xffff True = 0x1ffff" "dos_far_to_linear 0x1000 0x10000 True = 0x10000"
    unfolding z by (simp_all add: dos_far_to_linear_def)
  ultimately have "data = [guest_view sample_space 0x1ffff, guest_view sample_space 0x10000]" by (simp add: far_bytes_def)
  with d show ?thesis by blast
qed

text \<open>C28: replacing a range is atomic for the guest: it installs all of the new bytes, or the guest's memory is as before.
  The second outcome is a plain fault where the range cannot even be read, and a failed rollback where it can be read but not written.\<close>

theorem replacement_is_atomic:
  fixes rp wp a20
  assumes "guest_ready ident gs" "0 < n" "n \<le> length src" "n \<le> capacity" "unat a + n \<le> 0x110000"
  defines "m \<equiv> guest_machine rp wp (running_machine ident a20)" and "k \<equiv> gs_kernel gs"
  shows "\<exists>gs'. dos_machine_replace (Some m) gs a (Some src) (Some capacity) False n =
      (if \<forall>i < n. guest_reach k (a + of_nat i) then DOS_MACHINE_OK
       else if \<forall>i < n. guest_frame k False ((a + of_nat i) AND X86_PAGE_ADDRESS_MASK) \<noteq> None then DOS_MACHINE_ROLLBACK_FAILED
       else DOS_MACHINE_ADDRESS_FAULT, gs') \<and>
    guest_view gs' = (if \<forall>i < n. guest_reach k (a + of_nat i) then mem_write (guest_view gs) a (take n src) else guest_view gs)"
proof -
  have valid: "guest_range_is_valid m a n"
    using assms(2,5) by (intro range_validI) (simp_all add: m_def guest_machine_def running_machine_def)
  note range = machine_range [OF valid [unfolded m_def] assms(2)]
  have code: "context_handle m = ident" "normalize_callback_status 2 = DOS_MACHINE_ADDRESS_FAULT" "normalize_callback_status 0 = DOS_MACHINE_OK"
    by (simp_all add: m_def guest_machine_def running_machine_def normalize_callback_status_def machine_status_is_valid_def)
  have rd: "dos_machine_read (Some m) gs a (Some capacity) n =
      (if \<forall>i < n. guest_frame k False ((a + of_nat i) AND 0xfffff000) \<noteq> None then (DOS_MACHINE_OK, mem_read (guest_view gs) a n)
       else (DOS_MACHINE_ADDRESS_FAULT, []))"
    unfolding m_def gs.machine_read_eq [OF assms(2,4) valid [unfolded m_def]] code(1) [unfolded m_def]
      identity_read_eq [OF assms(1) range assms(4)] using code(2,3) by (auto simp: k_def)
  show ?thesis
  proof (cases "\<forall>i < n. guest_reach k (a + of_nat i)")
    case True
    then show ?thesis using gs.machine_replace_total [OF assms(1,3,4) valid [unfolded m_def]]
      by (auto simp: m_def k_def)
  next
    case False
    have "dos_machine_write (Some m) gs a (Some xs) n = (DOS_MACHINE_ADDRESS_FAULT, gs)" if "n \<le> length xs" for xs
      unfolding m_def gs.machine_write_eq [OF assms(2) that valid [unfolded m_def]] code(1) [unfolded m_def]
      using identity_write_eq [OF assms(1) range that] False code(2) by (simp add: k_def)
    then show ?thesis using False rd assms(2-4) by (auto simp: dos_machine_replace_def)
  qed
qed

theorem replacement_is_atomic_witness:
  "\<exists>gs'. dos_machine_replace (Some sample_machine) sample_space 0x500 (Some [1, 2]) (Some 2) False 2 = (DOS_MACHINE_OK, gs') \<and>
     guest_view gs' = mem_write (guest_view sample_space) 0x500 [1, 2]"
proof -
  have "\<forall>i < 2. guest_reach (gs_kernel sample_space) (0x500 + of_nat i)"
    using sample_conventional by (simp add: sample_space_def word_less_nat_alt unat_word_ariths unat_of_nat)
  with replacement_is_atomic [OF sample_ready, of 2 "[1, 2]" 2 "0x500" "\<lambda>gs _ _ _. (0, 0, gs)" "\<lambda>gs _ _ _ _. (0, gs)" True]
  show ?thesis unfolding sample_machine_def by simp
qed

end
