(* ===== verification/FirmwareSafety.thy ===== *)
theory FirmwareSafety
  imports GuestSpace
begin

text \<open>
  What firmware shadowing promises. Over every history of the kernel, in which other parts map and unmap
  pages, lease and return guest pages and run the guest in between, each private page is leased to the guest
  space alone and backs one linear page, so that no physical byte is visible at two guest addresses.
\<close>

declare bit_numeral_word_iff [simp del] bit_neg_numeral_word_iff [simp del]

section \<open>Private pages\<close>

abbreviation leases_of :: "guest_kernel \<Rightarrow> x86_guest_memory_lease \<Rightarrow> (u64 \<times> nat \<times> nat) option" where
  "leases_of k \<equiv> lease_map (runtime_manager (kernel_runtime k))"

abbreviation slot :: "guest_kernel \<Rightarrow> nat \<Rightarrow> x86_firmware_shadow_page" where
  "slot k i \<equiv> shadow_pages (kernel_shadow k) i"

definition slot_leased :: "guest_kernel \<Rightarrow> nat \<Rightarrow> bool" where
  "slot_leased k i \<longleftrightarrow> (\<exists>f. leases_of k (page_lease (slot k i)) = Some (shadow_address_space (kernel_shadow k), f, 1) \<and>
     unat (page_physical (slot k i)) = page_start f)"

definition private_inv :: "x86_boot_info \<Rightarrow> guest_kernel \<Rightarrow> bool" where
  "private_inv bi k \<longleftrightarrow> runtime_inv bi (kernel_runtime k) \<and>
     (\<forall>i < 64. page_state (slot k i) \<noteq> X86_FIRMWARE_PAGE_EMPTY \<longrightarrow> slot_leased k i) \<and>
     (\<forall>i < 64. \<forall>j < 64. i \<noteq> j \<longrightarrow> page_state (slot k i) \<noteq> X86_FIRMWARE_PAGE_EMPTY \<longrightarrow>
        page_state (slot k j) \<noteq> X86_FIRMWARE_PAGE_EMPTY \<longrightarrow> page_lease (slot k i) \<noteq> page_lease (slot k j))"

lemma private_distinct:
  assumes "private_inv bi k"
  shows "aliases_distinct (kernel_shadow k)"
proof -
  have "page_physical (slot k i) \<noteq> page_physical (slot k j)"
    if ij: "i < 64" "j < 64" "i \<noteq> j" "page_state (slot k i) = X86_FIRMWARE_PAGE_ACTIVE" "page_state (slot k j) = X86_FIRMWARE_PAGE_ACTIVE" for i j
  proof -
    have "slot_leased k i" "slot_leased k j" and ne: "page_lease (slot k i) \<noteq> page_lease (slot k j)"
      using assms ij by (simp_all add: private_inv_def)
    then obtain f g where f: "leases_of k (page_lease (slot k i)) = Some (shadow_address_space (kernel_shadow k), f, 1)"
        "unat (page_physical (slot k i)) = page_start f"
      and g: "leases_of k (page_lease (slot k j)) = Some (shadow_address_space (kernel_shadow k), g, 1)"
        "unat (page_physical (slot k j)) = page_start g" unfolding slot_leased_def by blast
    have "pages_inv (runtime_manager (kernel_runtime k))"
      using assms runtime_manager_facts(1) by (auto simp: private_inv_def)
    from lease_map_disjoint [OF this f(1) g(1) ne] have "f \<noteq> g" by auto
    with f(2) g(2) show ?thesis by auto
  qed
  then show ?thesis by (simp add: aliases_distinct_def)
qed

lemma private_inv_cong:
  assumes "private_inv bi k" "kernel_runtime k' = kernel_runtime k"
    "shadow_address_space (kernel_shadow k') = shadow_address_space (kernel_shadow k)"
    "\<And>i. i < 64 \<Longrightarrow> page_lease (slot k' i) = page_lease (slot k i) \<and> page_physical (slot k' i) = page_physical (slot k i) \<and>
       (page_state (slot k' i) = X86_FIRMWARE_PAGE_EMPTY \<longleftrightarrow> page_state (slot k i) = X86_FIRMWARE_PAGE_EMPTY)"
  shows "private_inv bi k'"
  using assms unfolding private_inv_def slot_leased_def by simp

lemma private_inv_poison [simp]: "private_inv bi k \<Longrightarrow> private_inv bi (poison_shadow k)"
  by (rule private_inv_cong) (simp_all add: poison_shadow_def)

lemma private_inv_update:
  assumes "private_inv bi k" "page_lease (f (slot k i)) = page_lease (slot k i)" "page_physical (f (slot k i)) = page_physical (slot k i)"
    "page_state (f (slot k i)) = X86_FIRMWARE_PAGE_EMPTY \<longleftrightarrow> page_state (slot k i) = X86_FIRMWARE_PAGE_EMPTY"
  shows "private_inv bi (update_page i f k)"
  using assms(1) by (rule private_inv_cong) (use assms(2-4) in \<open>simp_all add: update_page_def\<close>)

lemma private_inv_paging [simp]: "private_inv bi (k\<lparr>kernel_paging := p\<rparr>) = private_inv bi k"
  by (simp add: private_inv_def slot_leased_def)

lemma private_inv_memory [simp]: "private_inv bi (k\<lparr>kernel_memory := mm\<rparr>) = private_inv bi k"
  by (simp add: private_inv_def slot_leased_def)

lemma private_inv_drop [simp]: "private_inv bi k \<Longrightarrow> private_inv bi (drop_client c f k)"
  by (rule private_inv_cong) (simp_all add: drop_client_def)

lemma restore_page_eq: "restore_page i k = (fst (restore_page i k), k\<lparr>kernel_paging := kernel_paging (snd (restore_page i k))\<rparr>)"
  by (simp add: restore_page_def case_prod_unfold Let_def)

text \<open>Returning the lease of a slot.\<close>

lemma private_inv_release_lease:
  assumes inv: "private_inv bi k" and i: "i < 64"
    and run: "release_lease_of_page i k = (status, k')"
  shows "private_inv bi k' \<and> (status = X86_FIRMWARE_SHADOW_OK \<longrightarrow> page_state (slot k' i) = X86_FIRMWARE_PAGE_EMPTY) \<and>
    (\<forall>j. j \<noteq> i \<longrightarrow> slot k' j = slot k j)"
proof (cases "page_state (slot k i) = X86_FIRMWARE_PAGE_LEASED \<or> page_state (slot k i) = X86_FIRMWARE_PAGE_RESTORED")
  case False
  then show ?thesis using inv run by (auto simp: release_lease_of_page_def)
next
  case True
  let ?l = "page_lease (slot k i)" and ?a = "shadow_address_space (kernel_shadow k)"
  obtain st ro mm where rel: "x86_guest_memory_runtime_release (kernel_runtime k) (kernel_memory k) ?a ?l = (st, ro, mm)"
    by (metis prod_cases3)
  have ri: "runtime_inv bi (kernel_runtime k)" using inv by (simp add: private_inv_def)
  note R = runtime_release_correct [OF ri rel]
  have ri': "runtime_inv bi ro" by (rule runtime_release_inv [OF ri rel])
  let ?k = "k\<lparr>kernel_runtime := ro, kernel_memory := mm\<rparr>"
  show ?thesis
  proof (cases "st = X86_GUEST_MEMORY_OK")
    case ok: True
    then have k': "k' = clear_page i ?k" "status = X86_FIRMWARE_SHADOW_OK"
      using run rel True by (auto simp: release_lease_of_page_def)
    have lm: "lease_map (runtime_manager ro) = (leases_of k)(?l := None)" using R ok by (auto simp: released_as_def)
    have "private_inv bi k'"
      unfolding private_inv_def
    proof (intro conjI allI impI)
      fix j assume j: "j < 64" "page_state (slot k' j) \<noteq> X86_FIRMWARE_PAGE_EMPTY"
      then have ji: "j \<noteq> i" by (auto simp: k' clear_page_def empty_shadow_page_def)
      with j have "page_state (slot k j) \<noteq> X86_FIRMWARE_PAGE_EMPTY" by (simp add: k' clear_page_def)
      then have "slot_leased k j" "page_lease (slot k j) \<noteq> ?l" using inv j(1) i ji True by (auto simp: private_inv_def)
      then show "slot_leased k' j" using ji by (simp add: slot_leased_def k' clear_page_def lm)
    next
      fix j j' assume j: "j < 64" "j' < 64" "j \<noteq> j'" "page_state (slot k' j) \<noteq> X86_FIRMWARE_PAGE_EMPTY"
        "page_state (slot k' j') \<noteq> X86_FIRMWARE_PAGE_EMPTY"
      then have "j \<noteq> i" "j' \<noteq> i" by (auto simp: k' clear_page_def empty_shadow_page_def)
      with j inv show "page_lease (slot k' j) \<noteq> page_lease (slot k' j')" by (simp add: private_inv_def k' clear_page_def)
    qed (simp add: k' clear_page_def ri')
    then show ?thesis by (simp add: k' clear_page_def empty_shadow_page_def)
  next
    case False
    then have k': "k' = ?k" "status \<noteq> X86_FIRMWARE_SHADOW_OK"
      using run rel True by (auto simp: release_lease_of_page_def Let_def split: if_splits)
    have "lease_map (runtime_manager ro) = leases_of k" using R False by (auto simp: unchanged_def)
    with inv ri' show ?thesis using k' by (simp add: private_inv_def slot_leased_def)
  qed
qed

lemma private_inv_release_page:
  assumes inv: "private_inv bi k" and i: "i < 64"
    and run: "release_private_page i corrupt k = (status, corrupt', k')"
  shows "private_inv bi k' \<and> (status = X86_FIRMWARE_SHADOW_OK \<longrightarrow> page_state (slot k' i) = X86_FIRMWARE_PAGE_EMPTY) \<and>
    (\<forall>j. j \<noteq> i \<longrightarrow> slot k' j = slot k j)"
proof (cases "page_state (slot k i) = X86_FIRMWARE_PAGE_ACTIVE")
  case False
  obtain r k1 where rel: "release_lease_of_page i k = (r, k1)" by fastforce
  with False run have "status = r" "k' = k1" by (auto simp: release_private_page_def)
  with private_inv_release_lease [OF inv i rel] show ?thesis by simp
next
  case True
  obtain st k1 where r: "restore_page i k = (st, k1)" by fastforce
  have k1: "k1 = k\<lparr>kernel_paging := kernel_paging k1\<rparr>" using restore_page_eq [of i k] r by simp
  let ?k2 = "update_page i (page_state_update (\<lambda>_. X86_FIRMWARE_PAGE_RESTORED)) k1"
  let ?k3 = "?k2\<lparr>kernel_shadow := (kernel_shadow ?k2)\<lparr>shadow_cleanup_corrupted := 1\<rparr>\<rparr>"
  have inv1: "private_inv bi k1" using inv by (subst k1) simp
  have act: "page_state (slot k1 i) = X86_FIRMWARE_PAGE_ACTIVE" using True by (subst k1) simp
  have inv2: "private_inv bi ?k2" using inv1 act by (intro private_inv_update) simp_all
  have inv3: "private_inv bi ?k3" using inv2 by (rule private_inv_cong) simp_all
  have s1: "slot k1 j = slot k j" for j by (subst k1) simp
  then have same: "slot ?k2 j = slot k j" "slot ?k3 j = slot k j" if "j \<noteq> i" for j
    using that by (simp_all add: update_page_def)
  consider (ok) "st = X86_PAGING_GUEST_SHADOW_OK" | (mismatch) "st = X86_PAGING_GUEST_SHADOW_MAPPING_MISMATCH"
    | (other) "st \<noteq> X86_PAGING_GUEST_SHADOW_OK" "st \<noteq> X86_PAGING_GUEST_SHADOW_MAPPING_MISMATCH" by blast
  then show ?thesis
  proof cases
    case ok
    obtain r2 k4 where rel: "release_lease_of_page i ?k2 = (r2, k4)" by fastforce
    with ok r run True have "status = r2" "k' = k4" by (auto simp: release_private_page_def)
    with private_inv_release_lease [OF inv2 i rel] same(1) show ?thesis by simp
  next
    case mismatch
    obtain r2 k4 where rel: "release_lease_of_page i ?k3 = (r2, k4)" by fastforce
    with mismatch r run True have "status = r2" "k' = k4" by (auto simp: release_private_page_def Let_def)
    with private_inv_release_lease [OF inv3 i rel] same(2) show ?thesis by simp
  next
    case other
    with r run True have "status = X86_FIRMWARE_SHADOW_POISONED" "k' = k1" by (auto simp: release_private_page_def)
    then show ?thesis using inv1 s1 by simp
  qed
qed

lemma private_inv_rollback:
  assumes "private_inv bi k" "i < 64" "rollback_private_page i original k = (status, k')"
  shows "private_inv bi k'"
proof -
  obtain r c k1 where rel: "release_private_page i False k = (r, c, k1)" by (metis prod_cases3)
  with assms(3) have "k' = k1 \<or> k' = poison_shadow k1" by (auto simp: rollback_private_page_def split: if_splits)
  with private_inv_release_page [OF assms(1,2) rel] show ?thesis by auto
qed


lemma private_inv_release_loop:
  assumes "private_inv bi k" "\<And>i. i \<in> set is \<Longrightarrow> i < 64"
  shows "case release_loop is corrupt k of
      Inl (status, k') \<Rightarrow> private_inv bi k' \<and> status \<noteq> X86_FIRMWARE_SHADOW_OK
    | Inr (corrupt', k') \<Rightarrow> private_inv bi k' \<and>
        (\<forall>i. i \<in> set is \<or> page_state (slot k i) = X86_FIRMWARE_PAGE_EMPTY \<longrightarrow> page_state (slot k' i) = X86_FIRMWARE_PAGE_EMPTY)"
  using assms
proof (induction "is" corrupt k rule: release_loop.induct)
  case (2 i "is" corrupt k)
  show ?case
  proof (cases "page_state (slot k i) = X86_FIRMWARE_PAGE_EMPTY")
    case True
    with 2(1) [OF True] 2(3,4) show ?thesis by (auto split: sum.splits)
  next
    case False
    obtain st c k1 where rel: "release_private_page i corrupt k = (st, c, k1)" by (metis prod_cases3)
    note R = private_inv_release_page [OF 2(3) _ rel]
    have i: "i < 64" using 2(4) by simp
    show ?thesis
    proof (cases "st = X86_FIRMWARE_SHADOW_OK")
      case True
      have e: "page_state (slot k1 j) = X86_FIRMWARE_PAGE_EMPTY" if "j = i \<or> page_state (slot k j) = X86_FIRMWARE_PAGE_EMPTY" for j
        using R [OF i] True that by (cases "j = i") auto
      have "case release_loop is c k1 of
          Inl (status, k') \<Rightarrow> private_inv bi k' \<and> status \<noteq> X86_FIRMWARE_SHADOW_OK
        | Inr (corrupt', k') \<Rightarrow> private_inv bi k' \<and>
            (\<forall>i. i \<in> set is \<or> page_state (slot k1 i) = X86_FIRMWARE_PAGE_EMPTY \<longrightarrow> page_state (slot k' i) = X86_FIRMWARE_PAGE_EMPTY)"
        using 2(2) [OF False rel [symmetric] refl refl] True R [OF i] 2(4) by simp
      with e False rel True show ?thesis by (auto split: sum.splits)
    next
      case notok: False
      with False rel R [OF i] show ?thesis by (auto split: sum.splits)
    qed
  qed
qed simp

lemma private_inv_acquire:
  assumes "private_inv bi k" "x86_firmware_shadow_execution_acquire k machine = (status, k', b)"
  shows "private_inv bi k'"
proof -
  have "kernel_runtime k' = kernel_runtime k \<and> shadow_pages (kernel_shadow k') = shadow_pages (kernel_shadow k) \<and>
      shadow_address_space (kernel_shadow k') = shadow_address_space (kernel_shadow k)"
    using assms(2)
    by (auto simp: x86_firmware_shadow_execution_acquire_def Let_def poison_shadow_def split: if_splits option.splits)
  then show ?thesis using private_inv_cong [OF assms(1), of k'] by simp
qed

lemma private_inv_release:
  assumes "private_inv bi k" "x86_firmware_shadow_execution_release k machine binding = (status, k')"
  shows "private_inv bi k'"
proof -
  have loop: "private_inv bi (case release_loop (rev [0..<64]) False k of Inl e \<Rightarrow> snd e | Inr e \<Rightarrow> snd e)"
    using private_inv_release_loop [OF assms(1), of "rev [0..<64]" False] by (auto split: sum.splits)
  then show ?thesis using assms
    by (auto simp: x86_firmware_shadow_execution_release_def Let_def simp del: upt_Suc split: if_splits option.splits sum.splits)
qed

lemma private_inv_strip:
  assumes "private_inv bi k"
  shows "private_inv bi (strip_alias i k)"
proof -
  obtain st k1 where r: "restore_page i k = (st, k1)" by fastforce
  have k1: "k1 = k\<lparr>kernel_paging := kernel_paging k1\<rparr>" using restore_page_eq [of i k] r by simp
  have inv1: "private_inv bi k1" using assms by (subst k1) simp
  have "page_state (slot k1 i) = page_state (slot k i)" by (subst k1) simp
  then show ?thesis using assms inv1 private_inv_update [OF inv1, of "page_state_update (\<lambda>_. X86_FIRMWARE_PAGE_RESTORED)" i]
    by (auto simp: strip_alias_def r)
qed

lemma private_inv_quarantine:
  assumes "private_inv bi k" "x86_firmware_shadow_execution_quarantine k machine binding = (status, k')"
  shows "private_inv bi k'"
proof -
  have "private_inv bi (fold strip_alias is k)" for "is"
    using assms(1) by (induction "is" arbitrary: k) (simp_all add: private_inv_strip)
  then show ?thesis using assms by (auto simp: x86_firmware_shadow_execution_quarantine_def simp del: upt_Suc split: if_splits)
qed


text \<open>The state between taking a lease for a new page and publishing it.\<close>

definition with_page :: "nat \<Rightarrow> u32 \<Rightarrow> x86_guest_memory_lease \<Rightarrow> u32 \<Rightarrow> guest_kernel \<Rightarrow> guest_kernel" where
  "with_page i linear_page lease physical_page k = k\<lparr>kernel_shadow := (kernel_shadow k)\<lparr>
     shadow_pages := (shadow_pages (kernel_shadow k))(i := \<lparr>page_snapshot = empty_snapshot, page_lease = lease,
       page_linear = linear_page, page_physical = physical_page, page_state = X86_FIRMWARE_PAGE_LEASED\<rparr>),
     shadow_page_count := shadow_page_count (kernel_shadow k) + 1\<rparr>\<rparr>"

lemma find_empty_pageD:
  assumes "find_empty_page so = Some i"
  shows "i < 64" "page_state (shadow_pages so i) = X86_FIRMWARE_PAGE_EMPTY"
  using assms by (auto simp: find_empty_page_def find_Some_iff)

lemma private_inv_allocate:
  assumes inv: "private_inv bi k"
    and alloc: "x86_guest_memory_runtime_allocate (kernel_runtime k) (kernel_memory k) owner n = (st, ro, mm, r)"
  shows "private_inv bi (k\<lparr>kernel_runtime := ro, kernel_memory := mm\<rparr>)"
proof -
  have ri: "runtime_inv bi (kernel_runtime k)" using inv by (simp add: private_inv_def)
  note A = runtime_allocate_correct [OF ri alloc]
  have keep: "leases_of k l = Some v \<Longrightarrow> lease_map (runtime_manager ro) l = Some v" for l v
    using A by (cases r) (auto simp: allocated_as_def unchanged_def)
  show ?thesis using inv runtime_allocate_inv [OF ri alloc] by (auto simp: private_inv_def slot_leased_def dest!: keep)
qed

lemma private_inv_with_page:
  assumes inv: "private_inv bi k" and e: "find_empty_page (kernel_shadow k) = Some i"
    and alloc: "x86_guest_memory_runtime_allocate (kernel_runtime k) (kernel_memory k) (shadow_address_space (kernel_shadow k)) 1 =
      (st, ro, mm, Some (lease, physical_page))"
  shows "private_inv bi (with_page i linear_page lease physical_page (k\<lparr>kernel_runtime := ro, kernel_memory := mm\<rparr>))"
proof -
  let ?k = "k\<lparr>kernel_runtime := ro, kernel_memory := mm\<rparr>"
  have ri: "runtime_inv bi (kernel_runtime k)" using inv by (simp add: private_inv_def)
  obtain f where f: "unat physical_page = page_start f"
    "allocated_as (runtime_manager (kernel_runtime k)) (shadow_address_space (kernel_shadow k)) 1 lease f (runtime_manager ro)"
    using runtime_allocate_correct [OF ri alloc] by auto
  then have new: "lease_map (runtime_manager ro) lease = Some (shadow_address_space (kernel_shadow k), f, 1)" "leases_of k lease = None"
    by (simp_all add: allocated_as_def)
  have other: "page_lease (slot k j) \<noteq> lease" if "j < 64" "page_state (slot k j) \<noteq> X86_FIRMWARE_PAGE_EMPTY" for j
    using inv that new(2) by (auto simp: private_inv_def slot_leased_def)
  note old = private_inv_allocate [OF inv alloc]
  show ?thesis unfolding private_inv_def
  proof (intro conjI allI impI)
    fix j assume j: "j < 64" "page_state (slot (with_page i linear_page lease physical_page ?k) j) \<noteq> X86_FIRMWARE_PAGE_EMPTY"
    show "slot_leased (with_page i linear_page lease physical_page ?k) j"
    proof (cases "j = i")
      case True
      then show ?thesis using new f(1) by (simp add: slot_leased_def with_page_def)
    next
      case False
      with old j show ?thesis by (simp add: private_inv_def slot_leased_def with_page_def)
    qed
  next
    fix j j' assume j: "j < 64" "j' < 64" "j \<noteq> j'"
      "page_state (slot (with_page i linear_page lease physical_page ?k) j) \<noteq> X86_FIRMWARE_PAGE_EMPTY"
      "page_state (slot (with_page i linear_page lease physical_page ?k) j') \<noteq> X86_FIRMWARE_PAGE_EMPTY"
    then show "page_lease (slot (with_page i linear_page lease physical_page ?k) j) \<noteq>
        page_lease (slot (with_page i linear_page lease physical_page ?k) j')"
      using old other [of j] other [of j'] by (cases "j = i"; cases "j' = i") (auto simp: private_inv_def with_page_def)
  qed (use old in \<open>simp add: private_inv_def with_page_def\<close>)
qed

lemma private_inv_publish:
  assumes inv: "private_inv bi k" and i: "i < 64" "page_state (slot k i) = X86_FIRMWARE_PAGE_LEASED"
    and run: "publish_private_page i linear_page physical_page k = (status, k')"
  shows "private_inv bi k'"
proof -
  obtain st snap where sn: "x86_paging_guest_shadow_snapshot (kernel_paging k) (Some (shadow_paging (kernel_shadow k))) linear_page = (st, snap)"
    by fastforce
  let ?k1 = "case snap of Some s \<Rightarrow> update_page i (page_snapshot_update (\<lambda>_. s)) k | None \<Rightarrow> k"
  have inv1: "private_inv bi ?k1" using inv by (cases snap) (auto intro!: private_inv_update)
  have l1: "page_state (slot ?k1 i) = X86_FIRMWARE_PAGE_LEASED" using i(2) by (cases snap) (auto simp: update_page_def)
  obtain copied mm where cp: "copy_firmware_page linear_page physical_page (kernel_memory ?k1) = (copied, mm)" by fastforce
  let ?k2 = "?k1\<lparr>kernel_memory := mm\<rparr>"
  obtain st2 p where pub: "x86_paging_guest_shadow_publish (kernel_paging ?k2) (Some (page_snapshot (slot ?k2 i))) physical_page = (st2, p)"
    by fastforce
  let ?k3 = "?k2\<lparr>kernel_paging := p\<rparr>"
  have inv2: "private_inv bi ?k2" "private_inv bi ?k3" using inv1 by simp_all
  have up: "private_inv bi (update_page i (page_state_update (\<lambda>_. X86_FIRMWARE_PAGE_ACTIVE)) ?k3)"
    using inv2(2) l1 by (intro private_inv_update) simp_all
  have eq: "publish_private_page i linear_page physical_page k =
      (if st \<noteq> X86_PAGING_GUEST_SHADOW_OK then rollback_private_page i X86_FIRMWARE_SHADOW_PAGING_MISMATCH ?k1
       else if \<not> copied then rollback_private_page i X86_FIRMWARE_SHADOW_INVALID_STATE ?k2
       else if st2 \<noteq> X86_PAGING_GUEST_SHADOW_OK then rollback_private_page i X86_FIRMWARE_SHADOW_PAGING_MISMATCH ?k3
       else (X86_FIRMWARE_SHADOW_OK, update_page i (page_state_update (\<lambda>_. X86_FIRMWARE_PAGE_ACTIVE)) ?k3))"
    unfolding publish_private_page_def sn Let_def prod.case cp pub by simp
  show ?thesis
    using run inv1 inv2 up private_inv_rollback [OF _ i(1)] unfolding eq by (metis (no_types, lifting) prod.inject)
qed


lemma fault_on_new_page_cases:
  assumes run: "fault_on_new_page linear_page k = (status, k')"
  obtains (full) "k' = k" "status = X86_FIRMWARE_SHADOW_CAPACITY_EXHAUSTED" | (lost) "k' = poison_shadow k" "status = X86_FIRMWARE_SHADOW_POISONED"
    | (refused) i st ro mm where "find_empty_page (kernel_shadow k) = Some i"
        "x86_guest_memory_runtime_allocate (kernel_runtime k) (kernel_memory k) (shadow_address_space (kernel_shadow k)) 1 = (st, ro, mm, None)"
        "k' = k\<lparr>kernel_runtime := ro, kernel_memory := mm\<rparr> \<or> k' = poison_shadow (k\<lparr>kernel_runtime := ro, kernel_memory := mm\<rparr>)"
        "status = memory_allocation_status st"
    | (leased) i st ro mm lease physical_page where "find_empty_page (kernel_shadow k) = Some i"
        "x86_guest_memory_runtime_allocate (kernel_runtime k) (kernel_memory k) (shadow_address_space (kernel_shadow k)) 1 =
           (st, ro, mm, Some (lease, physical_page))"
        "rollback_private_page i X86_FIRMWARE_SHADOW_INVALID_STATE
           (with_page i linear_page lease physical_page (k\<lparr>kernel_runtime := ro, kernel_memory := mm\<rparr>)) = (status, k') \<or>
         publish_private_page i linear_page physical_page
           (with_page i linear_page lease physical_page (k\<lparr>kernel_runtime := ro, kernel_memory := mm\<rparr>)) = (status, k')"
proof (cases "shadow_page_count (kernel_shadow k) \<ge> of_nat FIRMWARE_SHADOW_PAGE_CAPACITY")
  case True
  with run full show thesis by (simp add: fault_on_new_page_def)
next
  case room: False
  show thesis
  proof (cases "find_empty_page (kernel_shadow k)")
    case None
    with run room lost show thesis by (simp add: fault_on_new_page_def)
  next
    case (Some i)
    obtain st ro mm r where alloc: "x86_guest_memory_runtime_allocate (kernel_runtime k) (kernel_memory k)
        (shadow_address_space (kernel_shadow k)) 1 = (st, ro, mm, r)" by (metis prod_cases4)
    show thesis
    proof (cases r)
      case None
      with run room Some alloc refused [OF Some, of st ro mm] show thesis
        by (simp add: fault_on_new_page_def Let_def split: if_splits)
    next
      case lp: (Some lp)
      obtain lease physical_page where "lp = (lease, physical_page)" by fastforce
      note lp = lp [unfolded this]
      let ?k = "with_page i linear_page lease physical_page (k\<lparr>kernel_runtime := ro, kernel_memory := mm\<rparr>)"
      have eq: "fault_on_new_page linear_page k =
          (case x86_guest_memory_runtime_inspect (kernel_runtime ?k) lease of
             Inl _ \<Rightarrow> rollback_private_page i X86_FIRMWARE_SHADOW_INVALID_STATE ?k
           | Inr info \<Rightarrow>
               if info_owner info \<noteq> shadow_address_space (kernel_shadow ?k) \<or> info_physical_address info \<noteq> physical_page \<or>
                  info_page_count info \<noteq> 1
               then rollback_private_page i X86_FIRMWARE_SHADOW_INVALID_STATE ?k
               else publish_private_page i linear_page physical_page ?k)"
        using room unfolding fault_on_new_page_def Some option.case alloc Let_def prod.case lp with_page_def by simp
      have "rollback_private_page i X86_FIRMWARE_SHADOW_INVALID_STATE ?k = (status, k') \<or>
          publish_private_page i linear_page physical_page ?k = (status, k')"
        using run unfolding eq by (simp split: sum.splits if_splits)
      with leased [OF Some alloc [unfolded lp]] show thesis .
    qed
  qed
qed

lemma private_inv_new_page:
  assumes inv: "private_inv bi k" and run: "fault_on_new_page linear_page k = (status, k')"
  shows "private_inv bi k'"
  using run
proof (cases rule: fault_on_new_page_cases)
  case (refused i st ro mm)
  from private_inv_allocate [OF inv refused(2)] refused(3) show ?thesis by auto
next
  case (leased i st ro mm lease physical_page)
  let ?k = "with_page i linear_page lease physical_page (k\<lparr>kernel_runtime := ro, kernel_memory := mm\<rparr>)"
  note i = find_empty_pageD(1) [OF leased(1)]
  have k: "private_inv bi ?k" using inv leased(1,2) by (rule private_inv_with_page)
  have "page_state (slot ?k i) = X86_FIRMWARE_PAGE_LEASED" by (simp add: with_page_def)
  with leased(3) private_inv_rollback [OF k i] private_inv_publish [OF k i] show ?thesis by blast
qed (use inv in simp_all)

lemma write_fault_cases:
  assumes "x86_firmware_shadow_write_fault k machine binding err address = (status, k')"
  shows "k' = k \<or> (\<exists>i. k' = snd (fault_on_known_page i address k)) \<or> (\<exists>p. k' = snd (fault_on_new_page p k))"
  using assms by (auto simp: x86_firmware_shadow_write_fault_def Let_def split: if_splits option.splits) (metis snd_conv)+

lemma private_inv_write_fault:
  assumes "private_inv bi k" "x86_firmware_shadow_write_fault k machine binding err address = (status, k')"
  shows "private_inv bi k'"
proof -
  have known: "private_inv bi (snd (fault_on_known_page i address k))" for i
    using assms(1) by (simp add: fault_on_known_page_def Let_def private_inv_strip)
  have new: "private_inv bi (snd (fault_on_new_page p k))" for p
    using private_inv_new_page [OF assms(1), of p] by (cases "fault_on_new_page p k") auto
  from write_fault_cases [OF assms(2)] known new assms(1) show ?thesis by auto
qed

section \<open>Histories of the kernel\<close>

text \<open>The shadow's own operations with any arguments, anything the paging operations do, leases of any owner
  and their return by other owners, and arbitrary changes of memory by the running guest.\<close>

inductive kernel_reachable :: "x86_boot_info \<Rightarrow> guest_kernel \<Rightarrow> bool" for bi where
  kernel_booted: "paging_reachable (Some bi) (kernel_paging k) \<Longrightarrow> runtime_reachable bi (kernel_runtime k) \<Longrightarrow>
    x86_firmware_shadow_initialize k address_space machine gen paging = (X86_FIRMWARE_SHADOW_OK, k') \<Longrightarrow> kernel_reachable bi k'"
| shadow_acquired: "kernel_reachable bi k \<Longrightarrow> x86_firmware_shadow_execution_acquire k machine = (status, k', binding) \<Longrightarrow>
    kernel_reachable bi k'"
| shadow_released: "kernel_reachable bi k \<Longrightarrow> x86_firmware_shadow_execution_release k machine b = (status, k') \<Longrightarrow>
    kernel_reachable bi k'"
| shadow_quarantined: "kernel_reachable bi k \<Longrightarrow> x86_firmware_shadow_execution_quarantine k machine b = (status, k') \<Longrightarrow>
    kernel_reachable bi k'"
| shadow_faulted: "kernel_reachable bi k \<Longrightarrow> x86_firmware_shadow_write_fault k machine b err address = (status, k') \<Longrightarrow>
    kernel_reachable bi k'"
| remapped: "kernel_reachable bi k \<Longrightarrow> paging_step (kernel_paging k) p \<Longrightarrow> kernel_reachable bi (k\<lparr>kernel_paging := p\<rparr>)"
| leased: "kernel_reachable bi k \<Longrightarrow>
    x86_guest_memory_runtime_allocate (kernel_runtime k) (kernel_memory k) owner n = (st, ro, mm, r) \<Longrightarrow>
    kernel_reachable bi (k\<lparr>kernel_runtime := ro, kernel_memory := mm\<rparr>)"
| returned: "kernel_reachable bi k \<Longrightarrow> owner \<noteq> shadow_address_space (kernel_shadow k) \<Longrightarrow>
    x86_guest_memory_runtime_release (kernel_runtime k) (kernel_memory k) owner l = (st, ro, mm) \<Longrightarrow>
    kernel_reachable bi (k\<lparr>kernel_runtime := ro, kernel_memory := mm\<rparr>)"
| executed: "kernel_reachable bi k \<Longrightarrow> kernel_reachable bi (k\<lparr>kernel_memory := mm\<rparr>)"

lemma private_inv_returned:
  assumes inv: "private_inv bi k" and owner: "owner \<noteq> shadow_address_space (kernel_shadow k)"
    and rel: "x86_guest_memory_runtime_release (kernel_runtime k) (kernel_memory k) owner l = (st, ro, mm)"
  shows "private_inv bi (k\<lparr>kernel_runtime := ro, kernel_memory := mm\<rparr>)"
proof -
  have ri: "runtime_inv bi (kernel_runtime k)" using inv by (simp add: private_inv_def)
  note R = runtime_release_correct [OF ri rel]
  have keep: "leases_of k x = Some (shadow_address_space (kernel_shadow k), v) \<Longrightarrow>
      lease_map (runtime_manager ro) x = Some (shadow_address_space (kernel_shadow k), v)" for x v
    using R owner by (cases "x = l") (auto simp: released_as_def unchanged_def split: if_splits)
  show ?thesis using inv runtime_release_inv [OF ri rel] by (auto simp: private_inv_def slot_leased_def dest!: keep)
qed

lemma kernel_private: "kernel_reachable bi k \<Longrightarrow> private_inv bi k"
proof (induction rule: kernel_reachable.induct)
  case (kernel_booted k address_space machine gen paging k')
  then have "kernel_runtime k' = kernel_runtime k" "shadow_pages (kernel_shadow k') = (\<lambda>_. empty_shadow_page)"
    by (auto simp: x86_firmware_shadow_initialize_def split: if_splits)
  then show ?case using runtime_reachable_inv [OF kernel_booted(2)] by (simp add: private_inv_def empty_shadow_page_def)
next
  case (leased k owner n st ro mm r)
  then show ?case by (intro private_inv_allocate)
next
  case (returned k owner l st ro mm)
  then show ?case by (intro private_inv_returned)
qed (auto intro: private_inv_acquire private_inv_release private_inv_quarantine private_inv_write_fault)


text \<open>The page tables change only by the paging operations.\<close>

lemma tables_restore:
  assumes "paging_reachable bio (kernel_paging k)"
  shows "paging_reachable bio (kernel_paging (snd (restore_page i k)))"
proof -
  let ?r = "x86_paging_guest_shadow_restore (kernel_paging k) (Some (page_snapshot (slot k i))) (page_physical (slot k i))"
  have "kernel_paging (snd (restore_page i k)) = snd ?r" by (simp add: restore_page_def case_prod_unfold Let_def)
  with paging_reachable.step [OF assms paging_step.restore] show ?thesis by simp
qed

lemma release_lease_tables [simp]: "kernel_paging (snd (release_lease_of_page i k)) = kernel_paging k"
  by (simp add: release_lease_of_page_def clear_page_def case_prod_unfold Let_def)

lemma tables_release_page:
  assumes "paging_reachable bio (kernel_paging k)"
  shows "paging_reachable bio (kernel_paging (snd (snd (release_private_page i corrupt k))))"
  using assms tables_restore [OF assms, of i]
  by (simp add: release_private_page_def update_page_def case_prod_unfold Let_def)

lemma poison_tables [simp]: "kernel_paging (poison_shadow k) = kernel_paging k" "kernel_paging (drop_client c f k) = kernel_paging k"
  "kernel_paging (update_page i g k) = kernel_paging k" "kernel_paging (with_page i l e p k) = kernel_paging k"
  by (simp_all add: poison_shadow_def drop_client_def update_page_def with_page_def)

lemma tables_rollback:
  "paging_reachable bio (kernel_paging k) \<Longrightarrow> paging_reachable bio (kernel_paging (snd (rollback_private_page i original k)))"
  using tables_release_page [of bio k i False] by (simp add: rollback_private_page_def case_prod_unfold Let_def)

lemma tables_loop:
  assumes "paging_reachable bio (kernel_paging k)"
  shows "case release_loop is corrupt k of Inl (status, k') \<Rightarrow> paging_reachable bio (kernel_paging k')
    | Inr (corrupt', k') \<Rightarrow> paging_reachable bio (kernel_paging k')"
  using assms
proof (induction "is" corrupt k rule: release_loop.induct)
  case (2 i "is" corrupt k)
  obtain st c k1 where rel: "release_private_page i corrupt k = (st, c, k1)" by (metis prod_cases3)
  have "paging_reachable bio (kernel_paging k1)" using tables_release_page [OF 2(3), of i corrupt] by (simp add: rel)
  with 2 rel show ?case by (auto split: sum.splits)
qed simp

lemma tables_strip:
  assumes "paging_reachable bio (kernel_paging k)"
  shows "paging_reachable bio (kernel_paging (strip_alias i k))"
  using assms tables_restore [OF assms, of i] by (simp add: strip_alias_def case_prod_unfold Let_def)

lemma tables_publish:
  assumes "paging_reachable bio (kernel_paging k)"
  shows "paging_reachable bio (kernel_paging (snd (publish_private_page i l p k)))"
proof -
  have "kernel_paging (case snap of Some s \<Rightarrow> update_page i (page_snapshot_update (\<lambda>_. s)) k | None \<Rightarrow> k) = kernel_paging k" for snap
    by (simp split: option.split)
  then show ?thesis using assms paging_reachable.step [OF assms paging_step.publish]
    by (auto simp: publish_private_page_def case_prod_unfold Let_def intro!: tables_rollback)
qed

lemma kernel_tables: "kernel_reachable bi k \<Longrightarrow> paging_reachable (Some bi) (kernel_paging k)"
proof (induction rule: kernel_reachable.induct)
  case (kernel_booted k address_space machine gen paging k')
  then show ?case by (auto simp: x86_firmware_shadow_initialize_def split: if_splits)
next
  case (shadow_acquired k machine status k' binding)
  then show ?case by (auto simp: x86_firmware_shadow_execution_acquire_def Let_def split: if_splits option.splits)
next
  case (shadow_released k machine b status k')
  have "paging_reachable (Some bi) (kernel_paging (case release_loop (rev [0..<64]) False k of Inl e \<Rightarrow> snd e | Inr e \<Rightarrow> snd e))"
    using tables_loop [OF shadow_released(3), of "rev [0..<64]" False] by (auto split: sum.splits)
  then show ?case using shadow_released
    by (auto simp: x86_firmware_shadow_execution_release_def Let_def simp del: upt_Suc split: if_splits option.splits sum.splits)
next
  case (shadow_quarantined k machine b status k')
  have "paging_reachable (Some bi) (kernel_paging (fold strip_alias is k))" for "is"
    using shadow_quarantined(3) by (induction "is" arbitrary: k) (simp_all add: tables_strip)
  then show ?case using shadow_quarantined
    by (auto simp: x86_firmware_shadow_execution_quarantine_def simp del: upt_Suc split: if_splits)
next
  case (shadow_faulted k machine b err address status k')
  note p = shadow_faulted(3)
  have known: "paging_reachable (Some bi) (kernel_paging (snd (fault_on_known_page i address k)))" for i
    using p by (simp add: fault_on_known_page_def Let_def tables_strip)
  have new: "paging_reachable (Some bi) (kernel_paging (snd (fault_on_new_page l k)))" for l
  proof (cases "fault_on_new_page l k" rule: prod.exhaust)
    case (Pair status k1)
    from Pair have "paging_reachable (Some bi) (kernel_paging k1)"
    proof (cases rule: fault_on_new_page_cases)
      case (leased i st ro mm lease physical_page)
      let ?k = "with_page i l lease physical_page (k\<lparr>kernel_runtime := ro, kernel_memory := mm\<rparr>)"
      have "paging_reachable (Some bi) (kernel_paging ?k)" using p by simp
      with leased(3) tables_rollback [of "Some bi" ?k i] tables_publish [of "Some bi" ?k i l physical_page] show ?thesis
        by (metis snd_conv)
    qed (use p in auto)
    with Pair show ?thesis by simp
  qed
  from write_fault_cases [OF shadow_faulted(2)] known new p show ?case by auto
qed (auto intro: paging_reachable.step)


section \<open>Properties\<close>

lemma sample_kernel_reachable: "kernel_reachable sample_boot_info sample_kernel"
proof -
  let ?k = "\<lparr>kernel_paging = sample_paging, kernel_runtime = sample_runtime, kernel_memory = (\<lambda>_. 0),
      kernel_shadow = \<lparr>shadow_paging = sample_binding, shadow_clients = (\<lambda>_. empty_client),
        shadow_pages = (\<lambda>_. empty_shadow_page), shadow_address_space = 0, shadow_machine = 0,
        shadow_space_generation = 0, shadow_execution_generation = 0, shadow_client_count = 0, shadow_page_count = 0,
        shadow_initialized = 0, shadow_poisoned = 0, shadow_cleanup_corrupted = 0\<rparr>\<rparr>"
  have "x86_firmware_shadow_initialize ?k 7 9 1 (Some sample_binding) = (X86_FIRMWARE_SHADOW_OK, sample_kernel)"
    using sample_binding_active
    by (simp add: sample_kernel_def x86_firmware_shadow_initialize_def valid_identity_def KERNEL_OBJECT_HANDLE_INVALID_def)
  then show ?thesis by (rule kernel_reachable.kernel_booted [rotated 2]) (simp_all add: sample_reachable sample_runtime_reachable)
qed



end
