(* ===== verification/PoolMapping.thy ===== *)
theory PoolMapping
  imports FirmwareSafety
begin

text \<open>
  The page manager's pool seen by paging. The boot tables map every page of usable memory in the
  managed window for the kernel alone, and no paging operation ever touches those entries; so each page the manager
  hands out is a page that can stand in for a firmware page.
\<close>

declare bit_numeral_word_iff [simp del] bit_neg_numeral_word_iff [simp del]

section \<open>Tables above the first\<close>

lemma map_entries_upper: "t \<noteq> 0 \<Longrightarrow> identity_page_tables (map_entries f S p) t = identity_page_tables p t"
  by (simp add: map_entries_def)

lemma force_upper:
  "t \<noteq> 0 \<Longrightarrow> identity_page_tables (snd (force_legacy_video_supervisor p a n)) t = identity_page_tables p t"
  by (auto simp: force_supervisor_eq Let_def map_entries_upper split: option.splits)

lemma snapshot_slot:
  assumes "paging_inv p" "guest_shadow_snapshot_is_valid p (Some s)" "boot_page_entry p (snap_linear_page s) = Some e"
  shows "fst e = 0"
  using low_boot_page_entry(1) [OF assms(1) snapshot_validD(1) [OF assms(2)]] assms(3) by auto

lemma step_upper:
  assumes "paging_step p q" "t \<noteq> 0" and inv: "paging_inv p"
  shows "identity_page_tables q t = identity_page_tables p t"
  using assms(1)
proof cases
  case (grant_video a n)
  then show ?thesis using legacy_video_rangeD(2) assms(2)
    by (auto simp: x86_paging_grant_legacy_video_range_def fold_add_flags map_entries_upper force_upper split: if_splits option.splits)
next
  case (revoke_video a n)
  then show ?thesis using force_upper [OF assms(2)] by (simp add: x86_paging_revoke_legacy_video_range_def)
next
  case (grant_user a n)
  then show ?thesis using assms(2)
    by (auto simp: x86_paging_grant_user_range_def fold_add_flags map_entries_upper split: option.splits if_splits)
next
  case (revoke_user a n)
  then show ?thesis using assms(2)
    by (auto simp: x86_paging_revoke_user_range_def fold_strip_user map_entries_upper split: option.splits if_splits)
next
  case (publish snapshot page)
  then show ?thesis using assms(2)
    by (auto simp: x86_paging_guest_shadow_publish_def set_entry_def split: option.splits if_splits dest: snapshot_slot [OF inv])
next
  case (restore snapshot page)
  then show ?thesis using assms(2)
    by (auto simp: x86_paging_guest_shadow_restore_def set_entry_def Let_def split: option.splits if_splits dest: snapshot_slot [OF inv])
qed

lemma step_limit: "paging_step p q \<Longrightarrow> paging_identity_limit q = paging_identity_limit p"
  by (auto elim!: paging_stepE simp: x86_paging_grant_legacy_video_range_def x86_paging_revoke_legacy_video_range_def
      x86_paging_grant_user_range_def x86_paging_revoke_user_range_def x86_paging_guest_shadow_publish_def
      x86_paging_guest_shadow_restore_def force_supervisor_eq fold_add_flags fold_strip_user set_entry_def Let_def
      legacy_video_rangeD(2) split: option.splits if_splits)

section \<open>Pages of the pool\<close>

lemma pool_page_bounds:
  assumes "page_available bi f" "x86_memory_map_is_valid (Some bi)"
  shows "page_start f < 0x10000000" "page_start f div 0x400000 < unat (detected_table_count (Some bi))"
proof -
  show b: "page_start f < 0x10000000" using assms(1) by (simp add: page_available_def)
  obtain r where r: "r \<in> set (used_ranges bi)" "range_type r = X86_BOOT_MEMORY_USABLE" "range_covers_page r f"
    using assms(1) by (auto simp: page_available_def)
  have wf: "range_is_well_formed r" using valid_ranges [OF assms(2)] r(1) by blast
  have le: "page_start f < unat (range_limit r)" using range_page_iff(1) [OF wf] r(3) by simp
  have fold: "acc \<le> fold (\<lambda>r acc. if range_type r \<noteq> X86_BOOT_MEMORY_USABLE then acc
      else if range_limit r > acc then range_limit r else acc) rs acc \<and>
    (\<forall>r \<in> set rs. range_type r = X86_BOOT_MEMORY_USABLE \<longrightarrow> range_limit r \<le> fold (\<lambda>r acc. if range_type r \<noteq> X86_BOOT_MEMORY_USABLE then acc
      else if range_limit r > acc then range_limit r else acc) rs acc)" for rs :: "x86_boot_memory_range list" and acc
    by (induction rs arbitrary: acc) (auto simp: not_less intro: order.trans less_imp_le)
  let ?l = "fold (\<lambda>r acc. if range_type r \<noteq> X86_BOOT_MEMORY_USABLE then acc
      else if range_limit r > acc then range_limit r else acc) (used_ranges bi) 0"
  have "range_limit r \<le> ?l" using fold [of 0 "used_ranges bi"] r(1,2) by blast
  moreover from this le have "?l \<noteq> 0" by (auto simp: word_le_nat_alt)
  ultimately obtain l where l: "x86_memory_map_usable_limit (Some bi) = Some l" "range_limit r \<le> l"
    using assms(2) by (simp add: x86_memory_map_usable_limit_def Let_def)
  have "page_start f < unat l" using le l(2) by (simp add: word_le_nat_alt)
  then have "page_start f < min 0x10000000 (max 0x800000 (unat l))" using b by simp
  moreover have "x div 0x400000 < (m + 0x3fffff) div 0x400000" if "x < m" for x m :: nat
  proof -
    have "x div 0x400000 * 0x400000 \<le> x" by simp
    with that have "Suc (x div 0x400000) * 0x400000 \<le> m + 0x3fffff" by simp
    then show ?thesis by (simp add: less_eq_div_iff_mult_less_eq Suc_le_eq [symmetric] del: mult_Suc)
  qed
  ultimately show "page_start f div 0x400000 < unat (detected_table_count (Some bi))"
    unfolding detected_table_count_value l(1) option.case by blast
qed

lemma pool_boot_entry:
  assumes av: "page_available bi f" and v: "x86_memory_map_is_valid (Some bi)" and a: "unat a = page_start f"
  shows "boot_table_entry (Some bi) (unat a div 0x400000) (unat a div 0x1000 mod 1024) = a OR 1 OR 2"
proof -
  let ?l = "push_bit 12 (of_nat (unat a div 0x400000) * of_nat 1024 + of_nat (unat a div 0x1000 mod 1024)) :: u32"
  have al: "a AND 0xfff = 0" using a by (simp add: word_unat_eq_iff unat_page_offset)
  have "?l = page_address (unat a div 4096)"
  proof -
    have "unat a div 0x400000 = unat a div 0x1000 div 1024" by (simp flip: div_mult2_eq)
    then have "unat a div 0x400000 * 1024 + unat a div 0x1000 mod 1024 = unat a div 4096"  by simp
    then have "of_nat (unat a div 0x400000) * of_nat 1024 + of_nat (unat a div 0x1000 mod 1024) = (of_nat (unat a div 4096) :: u32)"
      by (simp only: of_nat_add [symmetric] of_nat_mult [symmetric])
    then show ?thesis by (simp add: page_address_def)
  qed
  also have "\<dots> = a" using aligned_page_base [OF al] by (simp add: page_base_is_address)
  finally have l: "?l = a" .
  have big: "0x800000 \<le> unat a" "unat a < 0x10000000" using a pool_page_bounds(1) [OF av v] by simp_all
  have u: "x86_memory_map_range_is_usable (Some bi) (ucast a) 0x1000"
    using v big page_available_usable [OF av] a by (auto simp: range_query_bytes unsigned_ucast_eq page_bytes_def)
  have "(a AND NOT (0x1000 - 1)) = a AND 0xfffff000" by (rule bit_word_eqI) (simp add: bit_and_iff)
  then have "x86_boot_page_is_present (Some bi) a"
    using u big aligned_page_base [OF al] by (simp add: x86_boot_page_is_present_def Let_def word_less_nat_alt word_le_nat_alt)
  moreover have "x86_boot_page_access a = X86_PAGE_SUPERVISOR_READ_WRITE"
    using big by (simp add: x86_boot_page_access_def word_less_nat_alt)
  ultimately show ?thesis unfolding boot_table_entry_def Let_def l by simp
qed


lemma pool_entry:
  assumes "paging_reachable (Some bi) p" and av: "page_available bi f" "x86_memory_map_is_valid (Some bi)" and a: "unat a = page_start f"
  shows "identity_page_tables p (unat a div 0x400000) (unat a div 0x1000 mod 1024) = a OR 1 OR 2 \<and>
    paging_identity_limit p = of_nat (unat (detected_table_count (Some bi))) * 0x400000"
  using assms(1)
proof (induction rule: paging_reachable.induct)
  case (boot p)
  have "unat a div 0x400000 < unat (detected_table_count (Some bi))" using pool_page_bounds(2) [OF av] a by simp
  with pool_boot_entry [OF av a] show ?case by (simp add: x86_paging_initialize_def Let_def)
next
  case (step p q)
  have "2 \<le> unat a div 0x400000" using a by (simp add: less_eq_div_iff_mult_less_eq)
  with step step_upper [OF step(2), of "unat a div 0x400000"] step_limit [OF step(2)] paging_reachable_inv [OF step(1)] show ?case by auto
qed

lemma pool_page_safe:
  assumes r: "paging_reachable (Some bi) p" and av: "page_available bi f" "x86_memory_map_is_valid (Some bi)" and a: "unat a = page_start f"
  shows "private_shadow_target_is_safe p a"
proof -
  note inv = paging_reachable_inv [OF r] and e = pool_entry [OF r av a]
  let ?n = "unat (detected_table_count (Some bi))"
  have al: "a AND 0xfff = 0" using a by (simp add: word_unat_eq_iff unat_page_offset)
  have t: "unat a div 0x400000 < ?n" using pool_page_bounds(2) [OF av] a by simp
  have n: "?n \<le> 64" using detected_table_count_bounds by blast
  have lim: "unat (paging_identity_limit p) = ?n * 0x400000" using e n by (simp add: unat_word_ariths unat_of_nat)
  have low: "a < paging_identity_limit p" using t by (simp add: word_less_nat_alt lim div_less_iff_less_mult)
  obtain tables where tb: "2 \<le> tables" "tables \<le> 64" "paging_identity_limit p = of_nat tables * 0x400000"
    "\<forall>t < 1024. page_directory p t = (if t < tables then boot_directory_entry p t else 0)" using inv by (auto simp: paging_inv_def)
  have "unat (paging_identity_limit p) = tables * 0x400000" using tb(2,3) by (simp add: unat_word_ariths unat_of_nat)
  then have "tables = ?n" using lim by simp
  with tb t n have "page_directory p (unat a div 0x400000) = boot_directory_entry p (unat a div 0x400000)" by simp
  moreover have "page_tables_address p AND 0xfff = 0" using inv by (simp add: paging_inv_def)
  ultimately have d: "page_directory p (unat a div 0x400000) AND 1 \<noteq> 0" using boot_directory_bits(1) by (simp add: flag_simps)
  have idx: "unat (drop_bit 12 a AND 0x3ff) = unat a div 4096 mod 1024"
  proof -
    have "drop_bit 12 a AND 0x3ff = take_bit 10 (drop_bit 12 a)" by (simp add: take_bit_eq_mask mask_eq_exp_minus_1)
    then show ?thesis by (simp add: take_bit_eq_mod unat_mod_distrib unat_page_number)
  qed
  have b: "boot_page_entry p a = Some (unat a div 0x400000, unat a div 4096 mod 1024)"
    using paging_inv_active(2) [OF inv] low d t n idx by (simp add: boot_page_entry_def Let_def unat_div_distrib)
  have "0x800000 \<le> a" using a by (simp add: word_le_nat_alt)
  moreover have "(a OR 1 OR 2) AND 0xfffff000 = a" using aligned_page_base [OF al] by (simp add: bit_or_iff flip: or.assoc)
  moreover have "bit (a OR 1 OR 2) 0" "bit (a OR 1 OR 2) 1" "\<not> bit (a OR 1 OR 2) 2"
    using aligned_bits [OF al] by (simp_all add: bit_or_iff)
  ultimately show ?thesis using al low b e by (simp add: private_shadow_target_is_safe_def entry_at_def flag_simps not_less not_le)
qed

end
