(* ===== verification/FirmwareCopy.thy ===== *)
theory FirmwareCopy
  imports PoolMapping
begin

text \<open>
  Copy-on-write of firmware pages: a write fault that is resolved leaves everything the guest reads as it was,
  makes the faulting address writable and never writes below the managed memory; and the last release
  gives every private page back.
\<close>

declare bit_numeral_word_iff [simp del] bit_neg_numeral_word_iff [simp del]

section \<open>Tables after a publication\<close>

text \<open>Redirecting one page of the first table leaves the translation of every other page alone.\<close>

lemma other_entry:
  assumes "e \<noteq> (0, n)"
  shows "entry_at (flush_translation_lookaside_buffer (set_entry p (0, n) v)) e = entry_at p e"
  using assms by (cases e) (auto simp: entry_at_def set_entry_def)

lemma same_tables:
  assumes inv: "paging_inv p" and q: "q = flush_translation_lookaside_buffer (set_entry p (0, n) v)" and qinv: "paging_inv q"
  shows "x86_paging_binding_is_active q b = x86_paging_binding_is_active p b"
    and "guest_directory_is_user_accessible q x = guest_directory_is_user_accessible p x"
    and "boot_page_entry q x = boot_page_entry p x"
    and "guest_shadow_snapshot_is_valid q s = guest_shadow_snapshot_is_valid p s"
    and "paging_identity_limit q = paging_identity_limit p"
proof -
  have a: "active_page_directory q = active_page_directory p"
    using paging_inv_active(1) [OF inv] paging_inv_active(1) [OF qinv] by (simp add: q set_entry_def)
  have b: "active_boot_page_directory q = active_boot_page_directory p"
    using paging_inv_active(2) [OF inv] paging_inv_active(2) [OF qinv] by simp
  show "x86_paging_binding_is_active q b = x86_paging_binding_is_active p b"
    using a by (cases b) (simp_all add: x86_paging_binding_is_active_def q set_entry_def)
  show "guest_directory_is_user_accessible q x = guest_directory_is_user_accessible p x"
    by (simp add: guest_directory_is_user_accessible_def q set_entry_def)
  show "boot_page_entry q x = boot_page_entry p x" using b by (simp add: boot_page_entry_def q set_entry_def)
  show "guest_shadow_snapshot_is_valid q s = guest_shadow_snapshot_is_valid p s"
    using a by (intro snapshot_valid_cong) (simp_all add: q set_entry_def)
  show "paging_identity_limit q = paging_identity_limit p" by (simp add: q set_entry_def)
qed

lemma entry_position:
  assumes "paging_inv p" "boot_page_entry p x = Some (0, n)"
  shows "n = unat x div 4096"
proof -
  have "unat (x div 0x400000) = 0" using assms(2) by (auto simp: boot_page_entry_def Let_def split: if_splits)
  then have "x < 0x400000" by (simp add: unat_div_distrib div_eq_0_iff word_less_nat_alt)
  from low_boot_page_entry(1) [OF assms(1) this] assms(2) show ?thesis by simp
qed

lemma other_pages:
  assumes inv: "paging_inv p" and q: "q = flush_translation_lookaside_buffer (set_entry p (0, unat page div 4096) v)"
    and qinv: "paging_inv q" and page: "page AND 0xfff = 0" and x: "x AND 0xfff = 0" "x \<noteq> page"
  shows "x86_paging_guest_identity_translate q (Some b) x w = x86_paging_guest_identity_translate p (Some b) x w"
    and "x86_paging_guest_shadow_translate q (Some s) f x w = x86_paging_guest_shadow_translate p (Some s) f x w"
proof -
  note S = same_tables [OF inv q qinv]
  have ne: "unat x div 4096 \<noteq> unat page div 4096"
  proof
    assume "unat x div 4096 = unat page div 4096"
    then have "x AND 0xfffff000 = page AND 0xfffff000" by (simp add: word_unat_eq_iff unat_page_base)
    with x page show False by (simp add: aligned_page_base)
  qed
  have at: "entry_at q e = entry_at p e" if "boot_page_entry p x = Some e" for e
    unfolding q using that ne entry_position [OF inv, of x "snd e"] by (intro other_entry) (cases e, auto)
  show "x86_paging_guest_identity_translate q (Some b) x w = x86_paging_guest_identity_translate p (Some b) x w"
    using at by (simp add: x86_paging_guest_identity_translate_def Let_def S aligned_page_base [OF x(1)] split: option.splits)
  have safe: "private_shadow_target_is_safe q f = private_shadow_target_is_safe p f"
  proof (cases "f < 0x800000")
    case False
    then have "2 \<le> unat (f div 0x400000)"
      by (simp add: unat_div_distrib less_eq_div_iff_mult_less_eq word_less_nat_alt)
    then have "entry_at q e = entry_at p e" if "boot_page_entry p f = Some e" for e
      unfolding q using that by (intro other_entry) (auto simp: boot_page_entry_def Let_def split: if_splits)
    then show ?thesis by (simp add: private_shadow_target_is_safe_def S split: option.splits)
  qed (simp add: private_shadow_target_is_safe_def)
  show "x86_paging_guest_shadow_translate q (Some s) f x w = x86_paging_guest_shadow_translate p (Some s) f x w"
  proof (cases "guest_shadow_snapshot_is_valid p (Some s) \<and> snap_linear_page s = x")
    case True
    then show ?thesis using at by (simp add: x86_paging_guest_shadow_translate_def S safe split: option.splits)
  next
    case False
    have "snap_linear_page s AND 0xfff = 0" "snap_linear_page s < 0x100000" if "guest_shadow_snapshot_is_valid p (Some s)"
      using that by (simp_all add: guest_shadow_snapshot_is_valid_def)
    with False alias_range [of "snap_linear_page s" x]
    show ?thesis by (auto simp: x86_paging_guest_shadow_translate_def S aligned_page_base [OF x(1)])
  qed
qed


section \<open>A resolved fault\<close>

lemma rollback_status:
  "fst (rollback_private_page i original k) = original \<or> fst (rollback_private_page i original k) = X86_FIRMWARE_SHADOW_POISONED"
  by (simp add: rollback_private_page_def case_prod_unfold Let_def)

lemma copy_firmware_page_ok:
  assumes "copy_firmware_page source destination mm = (True, mm')"
  shows "mm' = mem_write mm destination (mem_read mm source 0x1000)"
proof -
  have ptr: "mapping_pointer mp = a" if "map_physical_page a = Some mp" for a mp
    using that by (auto simp: map_physical_page_def kernel_address_identity_map_def split: sum.splits if_splits)
  obtain sm dm where m: "map_physical_page source = Some sm" "map_physical_page destination = Some dm"
    using assms by (auto simp: copy_firmware_page_def split: option.splits prod.splits)
  obtain st mm1 where c: "memcpy_s (mapping_pointer dm) (mapping_length dm) (mapping_pointer sm) (mapping_length sm) 0x1000 mm = (st, mm1)"
    by fastforce
  with assms m have "st = MEMORY_OK" "mm' = mm1" by (auto simp: copy_firmware_page_def)
  with memcpy_s_result [OF c] ptr [OF m(1)] ptr [OF m(2)] show ?thesis by simp
qed

lemma publish_ok:
  assumes inv: "paging_inv (kernel_paging k)" and run: "publish_private_page i linear_page physical_page k = (X86_FIRMWARE_SHADOW_OK, k')"
  obtains s where
    "x86_paging_guest_shadow_snapshot (kernel_paging k) (Some (shadow_paging (kernel_shadow k))) linear_page =
       (X86_PAGING_GUEST_SHADOW_OK, Some s)"
    "private_shadow_target_is_safe (kernel_paging k) physical_page"
    "kernel_paging k' = flush_translation_lookaside_buffer
       (set_entry (kernel_paging k) (0, unat linear_page div 4096) (guest_shadow_entry s physical_page))"
    "kernel_memory k' = mem_write (kernel_memory k) physical_page (mem_read (kernel_memory k) linear_page 0x1000)"
    "kernel_shadow k' = (kernel_shadow k)\<lparr>shadow_pages := (shadow_pages (kernel_shadow k))
       (i := (slot k i)\<lparr>page_snapshot := s, page_state := X86_FIRMWARE_PAGE_ACTIVE\<rparr>)\<rparr>"
proof -
  let ?b = "Some (shadow_paging (kernel_shadow k))"
  have roll: "rollback_private_page i X86_FIRMWARE_SHADOW_PAGING_MISMATCH kk \<noteq> (X86_FIRMWARE_SHADOW_OK, k')"
    "rollback_private_page i X86_FIRMWARE_SHADOW_INVALID_STATE kk \<noteq> (X86_FIRMWARE_SHADOW_OK, k')" for kk
    using rollback_status [of i _ kk] by (metis fst_conv x86_firmware_shadow_status.distinct(17,3,19))+
  obtain st snap where sn: "x86_paging_guest_shadow_snapshot (kernel_paging k) ?b linear_page = (st, snap)" by fastforce
  have ok: "st = X86_PAGING_GUEST_SHADOW_OK"
    using run roll(1) unfolding publish_private_page_def sn Let_def prod.case by (auto split: if_splits)
  then obtain s where s: "snap = Some s"
    using sn by (auto simp: x86_paging_guest_shadow_snapshot_def split: if_splits option.splits)
  let ?k1 = "update_page i (page_snapshot_update (\<lambda>_. s)) k"
  obtain copied mm where cp: "copy_firmware_page linear_page physical_page (kernel_memory ?k1) = (copied, mm)" by fastforce
  let ?k2 = "?k1\<lparr>kernel_memory := mm\<rparr>"
  obtain st2 p where pub: "x86_paging_guest_shadow_publish (kernel_paging ?k2) (Some (page_snapshot (slot ?k2 i))) physical_page = (st2, p)"
    by fastforce
  have eq: "publish_private_page i linear_page physical_page k =
      (if \<not> copied then rollback_private_page i X86_FIRMWARE_SHADOW_INVALID_STATE ?k2
       else if st2 \<noteq> X86_PAGING_GUEST_SHADOW_OK then rollback_private_page i X86_FIRMWARE_SHADOW_PAGING_MISMATCH (?k2\<lparr>kernel_paging := p\<rparr>)
       else (X86_FIRMWARE_SHADOW_OK, update_page i (page_state_update (\<lambda>_. X86_FIRMWARE_PAGE_ACTIVE)) (?k2\<lparr>kernel_paging := p\<rparr>)))"
    unfolding publish_private_page_def sn s ok Let_def prod.case option.case cp pub by simp
  have c: copied and st2: "st2 = X86_PAGING_GUEST_SHADOW_OK"
    and k': "k' = update_page i (page_state_update (\<lambda>_. X86_FIRMWARE_PAGE_ACTIVE)) (?k2\<lparr>kernel_paging := p\<rparr>)"
    using run roll unfolding eq by (auto split: if_splits)
  have pub': "x86_paging_guest_shadow_publish (kernel_paging k) (Some s) physical_page = (X86_PAGING_GUEST_SHADOW_OK, p)"
    using pub st2 by (simp add: update_page_def)
  then have safe: "private_shadow_target_is_safe (kernel_paging k) physical_page"
    by (auto simp: x86_paging_guest_shadow_publish_def split: if_splits option.splits)
  note sn' = sn [unfolded ok s]
  have "p = flush_translation_lookaside_buffer
      (set_entry (kernel_paging k) (0, unat linear_page div 4096) (guest_shadow_entry s physical_page))"
    using pub' published [OF inv sn' safe] by simp
  moreover have "mm = mem_write (kernel_memory k) physical_page (mem_read (kernel_memory k) linear_page 0x1000)"
    using copy_firmware_page_ok [of linear_page physical_page "kernel_memory k" mm] cp c by (simp add: update_page_def)
  ultimately show thesis using that [OF sn' safe] by (simp add: k' update_page_def)
qed


lemma find_upt:
  assumes "i < n" "P i" "\<And>j. j < n \<Longrightarrow> j \<noteq> i \<Longrightarrow> \<not> P j"
  shows "find P [0..<n] = Some i"
  using assms by (auto simp: find_Some_iff)

lemma find_page_added:
  assumes "i < 64" "page_state (shadow_pages so i) = X86_FIRMWARE_PAGE_EMPTY" "find_page so page = None"
    and so': "shadow_pages so' = (shadow_pages so)(i := pg)" "page_linear pg = page" "page_state pg \<noteq> X86_FIRMWARE_PAGE_EMPTY"
  shows "find_page so' x = (if x = page then Some i else find_page so x)"
proof (cases "x = page")
  case True
  have "page_state (shadow_pages so j) = X86_FIRMWARE_PAGE_EMPTY \<or> page_linear (shadow_pages so j) \<noteq> page" if "j < 64" for j
    using assms(3) that by (auto simp: find_page_def find_None_iff)
  with True so' assms(1) show ?thesis unfolding find_page_def by (simp add: find_upt)
next
  case False
  have "find_page so' x = find_page so x"
    unfolding find_page_def by (rule find_cong) (use False so' assms(2) in auto)
  with False show ?thesis by simp
qed

lemma aligned_apart:
  assumes "(f :: u32) AND 0xfff = 0" "g AND 0xfff = 0" "f \<noteq> g" "o' < 4096"
  shows "\<not> in_range g 0x1000 (f + of_nat o')"
proof
  assume r: "in_range g 0x1000 (f + of_nat o')"
  define i where "i = unat (f + of_nat o' - g)"
  have i: "i < 0x1000" "f + of_nat o' = g + of_nat i" using r by (simp_all add: in_range_def i_def)
  have "of_nat o' = (of_nat i :: u32)"
    using aligned_offset(3) [OF assms(1), of o'] aligned_offset(3) [OF assms(2) i(1)] assms(4) i(2) by simp
  with i(2) assms(3) show False by simp
qed

text \<open>Zeroing the private page and copying the firmware page into it.\<close>

lemma private_copy:
  assumes phys: "phys AND 0xfff = 0" "0x800000 \<le> phys" and page: "page AND 0xfff = 0" "page < 0x100000"
    and m: "m' = mem_write (mem_write mm phys (replicate 0x1000 0)) phys (mem_read (mem_write mm phys (replicate 0x1000 0)) page 0x1000)"
  shows "\<not> in_range phys 0x1000 y \<Longrightarrow> m' y = mm y" and "o' < 0x1000 \<Longrightarrow> m' (phys + of_nat o') = mm (page + of_nat o')"
    and "y < 0x800000 \<Longrightarrow> m' y = mm y"
proof -
  show out: "m' y = mm y" if "\<not> in_range phys 0x1000 y" for y using that by (simp add: m mem_simps)
  have ne: "page \<noteq> phys" using phys(2) page(2) by (auto simp: word_le_nat_alt word_less_nat_alt)
  show "m' (phys + of_nat o') = mm (page + of_nat o')" if "o' < 0x1000"
    using that aligned_apart [OF page(1) phys(1) ne, of o'] by (simp add: m mem_simps)
  show "m' y = mm y" if "y < 0x800000"
  proof (rule out)
    have "unat y < unat phys" using that phys(2) by (simp add: word_le_nat_alt word_less_nat_alt)
    moreover have "unat (phys + of_nat i) = unat phys + i" if "i < 0x1000" for i using aligned_offset(1) [OF phys(1) that] .
    moreover have "y = phys + of_nat (unat (y - phys))" by simp
    ultimately show "\<not> in_range phys 0x1000 y" unfolding in_range_def by (metis add_leD1 linorder_not_less order.refl)
  qed
qed

lemma snapshot_frame:
  assumes inv: "paging_inv p" and s: "x86_paging_guest_shadow_snapshot p (Some b) page = (X86_PAGING_GUEST_SHADOW_OK, Some s)"
  shows "x86_paging_guest_identity_translate p (Some b) page False \<noteq> None" "page AND 0xfff = 0" "page < 0x100000"
proof -
  have page: "page AND 0xfff = 0" "page < 0x100000" and act: "x86_paging_binding_is_active p (Some b)"
    using s by (auto simp: x86_paging_guest_shadow_snapshot_def not_le split: if_splits)
  note v = snapshot_okD [OF inv s]
  have e: "boot_page_entry p page = Some (0, unat page div 4096)"
    using low_boot_page_entry(1) [OF inv snapshot_validD(1) [OF v(1)]] v(2) by simp
  have "bit (original_entry s) 0" "bit (original_entry s) 2" "original_entry s AND 0xfffff000 = page"
    using snapshot_validD(5,6,8) [OF v(1)] v(2) by simp_all
  then have "entry_at p (0, unat page div 4096) AND 0xfffff000 = page" "bit (entry_at p (0, unat page div 4096)) 0"
    "bit (entry_at p (0, unat page div 4096)) 2" using v(3) by (simp_all add: entry_at_def)
  moreover have "\<not> 0x110000 \<le> page" using page(2) by (simp add: word_le_nat_alt word_less_nat_alt)
  moreover have "guest_linear_limit b = 0x110000" using act by (simp add: x86_paging_binding_is_active_def)
  ultimately show "x86_paging_guest_identity_translate p (Some b) page False \<noteq> None"
    using act v(4) e by (simp add: x86_paging_guest_identity_translate_def Let_def aligned_page_base [OF page(1)] flag_simps)
  show "page AND 0xfff = 0" "page < 0x100000" by fact+
qed


lemma new_page_ok:
  assumes inv: "private_inv bi k" "paging_inv (kernel_paging k)" and run: "fault_on_new_page page k = (X86_FIRMWARE_SHADOW_OK, k')"
  obtains i s phys lease f where "find_empty_page (kernel_shadow k) = Some i"
    "x86_paging_guest_shadow_snapshot (kernel_paging k) (Some (shadow_paging (kernel_shadow k))) page = (X86_PAGING_GUEST_SHADOW_OK, Some s)"
    "private_shadow_target_is_safe (kernel_paging k) phys"
    "kernel_paging k' = flush_translation_lookaside_buffer (set_entry (kernel_paging k) (0, unat page div 4096) (guest_shadow_entry s phys))"
    "kernel_memory k' = mem_write (mem_write (kernel_memory k) phys (replicate 0x1000 0)) phys
       (mem_read (mem_write (kernel_memory k) phys (replicate 0x1000 0)) page 0x1000)"
    "kernel_shadow k' = (kernel_shadow k)\<lparr>shadow_pages := (shadow_pages (kernel_shadow k))
       (i := \<lparr>page_snapshot = s, page_lease = lease, page_linear = page, page_physical = phys, page_state = X86_FIRMWARE_PAGE_ACTIVE\<rparr>),
       shadow_page_count := shadow_page_count (kernel_shadow k) + 1\<rparr>"
    "unat phys = page_start f" "f \<in> free_pages (runtime_manager (kernel_runtime k))"
  using run
proof (cases rule: fault_on_new_page_cases)
  case (refused i st ro mm)
  then show thesis by (cases st) simp_all
next
  case (leased i st ro mm lease phys)
  let ?k = "with_page i page lease phys (k\<lparr>kernel_runtime := ro, kernel_memory := mm\<rparr>)"
  have ri: "runtime_inv bi (kernel_runtime k)" using inv(1) by (simp add: private_inv_def)
  obtain f where f: "unat phys = page_start f" "f \<in> free_pages (runtime_manager (kernel_runtime k))"
    and mm: "mm = mem_write (kernel_memory k) phys (replicate 0x1000 0)"
    using runtime_allocate_correct [OF ri leased(2)] by (auto simp: allocated_as_def)
  have "rollback_private_page i X86_FIRMWARE_SHADOW_INVALID_STATE ?k \<noteq> (X86_FIRMWARE_SHADOW_OK, k')"
    using rollback_status [of i X86_FIRMWARE_SHADOW_INVALID_STATE ?k] by auto
  with leased(3) have pub: "publish_private_page i page phys ?k = (X86_FIRMWARE_SHADOW_OK, k')" by blast
  have kinv: "paging_inv (kernel_paging ?k)" using inv(2) by (simp add: with_page_def)
  obtain s where "x86_paging_guest_shadow_snapshot (kernel_paging ?k) (Some (shadow_paging (kernel_shadow ?k))) page =
       (X86_PAGING_GUEST_SHADOW_OK, Some s)" "private_shadow_target_is_safe (kernel_paging ?k) phys"
    "kernel_paging k' = flush_translation_lookaside_buffer (set_entry (kernel_paging ?k) (0, unat page div 4096) (guest_shadow_entry s phys))"
    "kernel_memory k' = mem_write (kernel_memory ?k) phys (mem_read (kernel_memory ?k) page 0x1000)"
    "kernel_shadow k' = (kernel_shadow ?k)\<lparr>shadow_pages := (shadow_pages (kernel_shadow ?k))
       (i := (slot ?k i)\<lparr>page_snapshot := s, page_state := X86_FIRMWARE_PAGE_ACTIVE\<rparr>)\<rparr>"
    by (rule publish_ok [OF kinv pub])
  with leased(1) f mm show thesis by (intro that [of i s phys lease f]) (simp_all add: with_page_def)
qed simp_all

lemma new_page_frame:
  assumes inv: "private_inv bi k" "paging_inv (kernel_paging k)" "paging_inv (kernel_paging k')" and act: "owner_is_active k"
    and miss: "find_page (kernel_shadow k) page = None" and run: "fault_on_new_page page k = (X86_FIRMWARE_SHADOW_OK, k')"
  obtains phys where "phys AND 0xfff = 0" "0x800000 \<le> phys" "page AND 0xfff = 0" "page < 0x100000"
    "kernel_memory k' = mem_write (mem_write (kernel_memory k) phys (replicate 0x1000 0)) phys
       (mem_read (mem_write (kernel_memory k) phys (replicate 0x1000 0)) page 0x1000)"
    "guest_frame k False page = Some page" "guest_frame k' True page = Some phys"
    "\<And>w x. x AND 0xfff = 0 \<Longrightarrow> x \<noteq> page \<Longrightarrow> guest_frame k' w x = guest_frame k w x"
    "\<And>w x. x AND 0xfff = 0 \<Longrightarrow> guest_frame k w x \<noteq> Some phys"
proof -
  let ?so = "kernel_shadow k" and ?p = "kernel_paging k"
  obtain i s phys lease f where e: "find_empty_page ?so = Some i"
    and s: "x86_paging_guest_shadow_snapshot ?p (Some (shadow_paging ?so)) page = (X86_PAGING_GUEST_SHADOW_OK, Some s)"
    and safe: "private_shadow_target_is_safe ?p phys"
    and q: "kernel_paging k' = flush_translation_lookaside_buffer (set_entry ?p (0, unat page div 4096) (guest_shadow_entry s phys))"
    and mem: "kernel_memory k' = mem_write (mem_write (kernel_memory k) phys (replicate 0x1000 0)) phys
       (mem_read (mem_write (kernel_memory k) phys (replicate 0x1000 0)) page 0x1000)"
    and so': "kernel_shadow k' = ?so\<lparr>shadow_pages := (shadow_pages ?so)
       (i := \<lparr>page_snapshot = s, page_lease = lease, page_linear = page, page_physical = phys, page_state = X86_FIRMWARE_PAGE_ACTIVE\<rparr>),
       shadow_page_count := shadow_page_count ?so + 1\<rparr>"
    and f: "unat phys = page_start f" "f \<in> free_pages (runtime_manager (kernel_runtime k))"
    by (rule new_page_ok [OF inv(1,2) run])
  have phys: "phys AND 0xfff = 0" "0x800000 \<le> phys"
    using safe by (auto simp: private_shadow_target_is_safe_def not_less split: if_splits)
  note sf = snapshot_frame [OF inv(2) s]
  note empty = find_empty_pageD [OF e]
  have found: "find_page (kernel_shadow k') x = (if x = page then Some i else find_page ?so x)" for x
    by (rule find_page_added [OF empty miss, where pg = "\<lparr>page_snapshot = s, page_lease = lease, page_linear = page,
      page_physical = phys, page_state = X86_FIRMWARE_PAGE_ACTIVE\<rparr>"]) (simp_all add: so')
  have act': "owner_is_active k'"
    using act same_tables(1) [OF inv(2) q inv(3)] by (simp add: owner_is_active_def so')
  have lim: "guest_linear_limit (shadow_paging ?so) = 0x110000"
    using act by (simp add: owner_is_active_def x86_paging_binding_is_active_def)
  have low: "\<not> 0x110000 \<le> page" using sf(3) by (simp add: word_le_nat_alt word_less_nat_alt)
  have new: "guest_frame k' True page = Some phys"
    using published_translates [OF inv(2) s safe q, rule_format, of 0] act' low lim found [of page] aligned_page_base [OF sf(2)]
    by (simp add: guest_frame_def x86_firmware_shadow_translate_def so')
  have "guest_frame k False page \<noteq> None"
    using sf(1) act low lim miss aligned_page_base [OF sf(2)] by (simp add: guest_frame_def x86_firmware_shadow_translate_def)
  then obtain g where g: "guest_frame k False page = Some g" by blast
  have old: "guest_frame k False page = Some page"
    using g sf(2) by (rule frame_cases) (use g miss in simp_all)
  have other: "guest_frame k' w x = guest_frame k w x" if x: "x AND 0xfff = 0" "x \<noteq> page" for w x
  proof -
    note o = other_pages [OF inv(2) q inv(3) sf(2) x]
    have "j \<noteq> i" if "find_page ?so x = Some j" for j using that empty(2) by (auto simp: find_page_def find_Some_iff)
    then show ?thesis using found [of x] x act act' aligned_page_base [OF x(1)] o
      by (simp add: guest_frame_def x86_firmware_shadow_translate_def so' Let_def split: option.splits)
  qed
  have fresh: "guest_frame k w x \<noteq> Some phys" if x: "x AND 0xfff = 0" for w x
  proof
    assume "guest_frame k w x = Some phys"
    then show False using x
    proof (rule frame_cases)
      assume "phys = x" "x < 0x110000"
      with phys(2) show False by (simp add: word_le_nat_alt word_less_nat_alt)
    next
      fix j assume j: "find_page ?so x = Some j" "page_state (slot k j) = X86_FIRMWARE_PAGE_ACTIVE" "phys = page_physical (slot k j)"
      then have "j < 64" by (auto simp: find_page_def find_Some_iff)
      with inv(1) j(2) have "slot_leased k j" by (simp add: private_inv_def)
      then obtain g where g: "leases_of k (page_lease (slot k j)) = Some (shadow_address_space ?so, g, 1)" "unat phys = page_start g"
        using j(3) unfolding slot_leased_def by blast
      have "g = f" using g(2) f(1) by simp
      have "pages_inv (runtime_manager (kernel_runtime k))" using inv(1) runtime_manager_facts(1) by (auto simp: private_inv_def)
      from lease_map_pages [OF this g(1)] f(2) \<open>g = f\<close> show False by (auto simp: free_pages_def)
    qed
  qed
  show thesis by (rule that [OF phys sf(2,3) mem old new other fresh])
qed


section \<open>When a fault is served\<close>

lemma managed_valid: "managed bi m z \<Longrightarrow> x86_memory_map_is_valid (Some bi)"
  by (induction rule: managed.induct) (auto simp: x86_guest_memory_initialize_def split: if_splits option.splits)

lemma runtime_allocate_page:
  assumes inv: "runtime_inv bi ro" and ok: "manager_poisoned (runtime_manager ro) = 0" "valid_identity owner"
    and f: "f \<in> free_pages (runtime_manager ro)"
    and slot: "i < X86_GUEST_MEMORY_LEASE_COUNT" "lease_state (leases (runtime_manager ro) i) = X86_GUEST_MEMORY_LEASE_FREE"
      "lease_generation (leases (runtime_manager ro) i) < X86_GUEST_MEMORY_GENERATION_MAX"
  obtains ro' mm' l a where "x86_guest_memory_runtime_allocate ro mm owner 1 = (X86_GUEST_MEMORY_OK, ro', mm', Some (l, a))"
    "manager_poisoned (runtime_manager ro') = 0"
proof -
  let ?m = "runtime_manager ro" and ?b = "runtime_backing_of ro mm"
  note m = runtime_manager_facts [OF inv]
  have z: "fst (zero runtime_ops ?b (zero_context ?m) (0x00800000 + of_nat g * 0x1000) (1 * 0x1000)) = 0"
    if "{g..<g + unat (1 :: u32)} \<subseteq> free_pages ?m" "g + unat (1 :: u32) \<le> X86_GUEST_MEMORY_PAGE_COUNT" for g
    using that run_address [of g 1] runtime_zero_ok [OF inv, of g 1 "0x00800000 + of_nat g * 0x1000" "0x1000" mm]
    by (simp add: m(6) free_pages_def)
  have "fst (x86_guest_memory_allocate ?m ?b owner 1) = X86_GUEST_MEMORY_OK"
    by (rule allocate_succeeds [OF m(1) ok _ _ slot m(5) z]) (use f in simp_all)
  moreover obtain st m' b' r where run: "x86_guest_memory_allocate ?m ?b owner 1 = (st, m', b', r)" by (metis prod_cases4)
  ultimately have st: "st = X86_GUEST_MEMORY_OK" by simp
  from allocate_cases [OF m(1) run] obtain l a where "r = Some (l, a)" using st by (cases r) (auto simp: allocation_outcome_def)
  with run st m(3) step_ok [of ?m ?b owner 1 m' b' r] ok(1) show thesis
    by (intro that [of "ro\<lparr>runtime_manager := m'\<rparr>" "backing_memory b'" l a]) (auto simp: x86_guest_memory_runtime_allocate_def)
qed

lemma inspect_leased:
  assumes inv: "runtime_inv bi ro" and ok: "manager_poisoned (runtime_manager ro) = 0"
    and l: "lease_map (runtime_manager ro) l = Some (owner, f, 1)"
  shows "x86_guest_memory_runtime_inspect ro l = Inr \<lparr>info_owner = owner, info_physical_address = 0x00800000 + of_nat f * 0x1000, info_page_count = 1\<rparr>"
proof -
  note m = runtime_manager_facts [OF inv]
  obtain i where i: "resolve_lease (runtime_manager ro) l = Inr i" "owner = lease_owner (leases (runtime_manager ro) i)"
    "f = unat (lease_first_page (leases (runtime_manager ro) i))" "unat (lease_page_count (leases (runtime_manager ro) i)) = 1"
    using l by (auto simp: lease_map_Some_iff)
  have "lease_page_count (leases (runtime_manager ro) i) = 1" using i(4) by (simp add: word_unat_eq_iff)
  with i m(3,7) ok show ?thesis by (simp add: x86_guest_memory_runtime_inspect_def x86_guest_memory_inspect_def)
qed

lemma map_physical_page_ok:
  assumes "a AND 0xfff = 0"
  shows "map_physical_page a = Some \<lparr>mapping_pointer = a, mapping_length = 0x1000\<rparr>"
proof -
  have "unat (a + of_nat 0xfff) = unat a + 0xfff" by (rule aligned_offset(1) [OF assms]) simp
  then have a: "unat a + 0xfff < 0x100000000" using unat_u32_less [of "a + of_nat 0xfff"] by simp
  then have "unat ((ucast a :: u64) + 0xfff) = unat a + 0xfff" by (simp add: unat_word_ariths unsigned_ucast_eq)
  with a show ?thesis
    by (simp add: map_physical_page_def kernel_address_identity_map_def word_less_nat_alt unsigned_ucast_eq)
qed

lemma copy_firmware_page_succeeds:
  assumes "page AND 0xfff = 0" "0xc0000 \<le> page" "page < 0x100000" "phys AND 0xfff = 0" "0x800000 \<le> phys" "phys < 0x10000000"
  shows "fst (copy_firmware_page page phys mm)"
proof -
  have "memcpy_s phys 0x1000 page 0x1000 0x1000 mm = (MEMORY_OK, mem_write mm phys (mem_read mm page 0x1000))"
    using assms by (intro memcpy_s_ok) (auto simp: word_le_nat_alt word_less_nat_alt)
  then show ?thesis by (simp add: copy_firmware_page_def map_physical_page_ok assms)
qed

lemma publish_succeeds:
  assumes inv: "paging_inv (kernel_paging k)"
    and s: "x86_paging_guest_shadow_snapshot (kernel_paging k) (Some (shadow_paging (kernel_shadow k))) page = (X86_PAGING_GUEST_SHADOW_OK, Some s)"
    and safe: "private_shadow_target_is_safe (kernel_paging k) phys" and "phys < 0x10000000"
  shows "fst (publish_private_page i page phys k) = X86_FIRMWARE_SHADOW_OK"
proof -
  note v = snapshot_okD [OF inv s] and f = snapshot_frame [OF inv s]
  have "0xc0000 \<le> page" using snapshot_validD(2) [OF v(1)] v(2) by (simp add: word_le_nat_alt less_eq_div_iff_mult_less_eq)
  moreover have "phys AND 0xfff = 0" "0x800000 \<le> phys"
    using safe by (auto simp: private_shadow_target_is_safe_def not_less split: if_splits)
  ultimately have "fst (copy_firmware_page page phys mm)" for mm using f assms(4) by (intro copy_firmware_page_succeeds)
  then obtain mm' where "copy_firmware_page page phys (kernel_memory k) = (True, mm')" by (metis prod.collapse)
  then show ?thesis using published [OF inv s safe] by (simp add: publish_private_page_def s update_page_def)
qed

lemma new_page_succeeds:
  assumes inv: "private_inv bi k" and r: "paging_reachable (Some bi) (kernel_paging k)"
    and room: "shadow_page_count (kernel_shadow k) < 64" "find_empty_page (kernel_shadow k) = Some i"
    and s: "x86_paging_guest_shadow_snapshot (kernel_paging k) (Some (shadow_paging (kernel_shadow k))) page = (X86_PAGING_GUEST_SHADOW_OK, Some s)"
    and ok: "manager_poisoned (runtime_manager (kernel_runtime k)) = 0" "valid_identity (shadow_address_space (kernel_shadow k))"
    and f: "f \<in> free_pages (runtime_manager (kernel_runtime k))"
    and slot: "j < X86_GUEST_MEMORY_LEASE_COUNT" "lease_state (leases (runtime_manager (kernel_runtime k)) j) = X86_GUEST_MEMORY_LEASE_FREE"
      "lease_generation (leases (runtime_manager (kernel_runtime k)) j) < X86_GUEST_MEMORY_GENERATION_MAX"
  shows "fst (fault_on_new_page page k) = X86_FIRMWARE_SHADOW_OK"
proof -
  let ?a = "shadow_address_space (kernel_shadow k)"
  have ri: "runtime_inv bi (kernel_runtime k)" using inv by (simp add: private_inv_def)
  obtain ro mm l a where run: "x86_guest_memory_runtime_allocate (kernel_runtime k) (kernel_memory k) ?a 1 = (X86_GUEST_MEMORY_OK, ro, mm, Some (l, a))"
    and ok': "manager_poisoned (runtime_manager ro) = 0" by (rule runtime_allocate_page [OF ri ok f slot])
  obtain g where g: "unat a = page_start g" "g \<in> free_pages (runtime_manager (kernel_runtime k))"
    "lease_map (runtime_manager ro) l = Some (?a, g, 1)" "Suc g \<le> 63488"
    using runtime_allocate_correct [OF ri run] by (auto simp: allocated_as_def)
  have a: "0x00800000 + of_nat g * 0x1000 = a" using g(1,4) run_address [of g 1] by (simp add: word_unat_eq_iff)
  note in_ok = inspect_leased [OF runtime_allocate_inv [OF ri run] ok' g(3), unfolded a]
  have "managed bi (runtime_manager (kernel_runtime k)) z" for z using ri by (simp add: runtime_inv_def)
  from managed_valid [OF this] have v: "x86_memory_map_is_valid (Some bi)" .
  have av: "page_available bi g" using g(2) runtime_manager_facts(4) [OF ri] by (auto simp: free_pages_def)
  have "a < 0x10000000" using g(1) pool_page_bounds(1) [OF av v] by (simp add: word_less_nat_alt)
  then have "fst (publish_private_page i page a (with_page i page l a (k\<lparr>kernel_runtime := ro, kernel_memory := mm\<rparr>))) = X86_FIRMWARE_SHADOW_OK"
    using paging_reachable_inv [OF r] s pool_page_safe [OF r av v g(1)] by (intro publish_succeeds) (simp_all add: with_page_def)
  then show ?thesis using room run in_ok by (simp add: fault_on_new_page_def with_page_def not_le)
qed


section \<open>What the guest sees\<close>

lemma new_page_view:
  assumes inv: "private_inv bi k" "paging_inv (kernel_paging k)" "paging_inv (kernel_paging k')" and act: "owner_is_active k"
    and miss: "find_page (kernel_shadow k) page = None" and run: "fault_on_new_page page k = (X86_FIRMWARE_SHADOW_OK, k')"
  shows "guest_memory k' = guest_memory k" "guest_frame k' True page \<noteq> None" "y < 0x800000 \<Longrightarrow> kernel_memory k' y = kernel_memory k y"
    "guest_reach k x \<Longrightarrow> guest_reach k' x"
proof -
  obtain phys where phys: "phys AND 0xfff = 0" "0x800000 \<le> phys" and page: "page AND 0xfff = 0" "page < 0x100000"
    and mem: "kernel_memory k' = mem_write (mem_write (kernel_memory k) phys (replicate 0x1000 0)) phys
       (mem_read (mem_write (kernel_memory k) phys (replicate 0x1000 0)) page 0x1000)"
    and old: "guest_frame k False page = Some page" and new: "guest_frame k' True page = Some phys"
    and other: "\<And>w x. x AND 0xfff = 0 \<Longrightarrow> x \<noteq> page \<Longrightarrow> guest_frame k' w x = guest_frame k w x"
    and fresh: "\<And>w x. x AND 0xfff = 0 \<Longrightarrow> guest_frame k w x \<noteq> Some phys"
    by (rule new_page_frame [OF inv act miss run]) (rule that; simp)
  note copy = private_copy [OF phys page mem]
  show "guest_frame k' True page \<noteq> None" using new by simp
  show "y < 0x800000 \<Longrightarrow> kernel_memory k' y = kernel_memory k y" by (rule copy(3))
  show "guest_reach k x \<Longrightarrow> guest_reach k' x" using new other [of "x AND 0xfffff000" True]
    by (cases "x AND 0xfffff000 = page") (simp_all add: guest_reach_def)
  show "guest_memory k' = guest_memory k"
  proof
    fix x :: u32
    let ?q = "x AND 0xfffff000" and ?o = "unat (x AND 0xfff)"
    have o: "?o < 4096" "x AND 0xfff = of_nat ?o" using offset_small [of x] by simp_all
    show "guest_memory k' x = guest_memory k x"
    proof (cases "?q = page")
      case True
      then show ?thesis using frame_read [OF new] old copy(2) [OF o(1)] o(2) by (simp add: guest_memory_def)
    next
      case False
      then have same: "guest_frame k' False ?q = guest_frame k False ?q" by (intro other) simp_all
      show ?thesis
      proof (cases "guest_frame k False ?q")
        case None
        with same show ?thesis by (simp add: guest_memory_def)
      next
        case (Some f)
        then have "f \<noteq> phys" "f AND 0xfff = 0" using fresh [of ?q False] frame_aligned [OF Some] by auto
        then have "\<not> in_range phys 0x1000 (f + (x AND 0xfff))" using aligned_apart [of f phys ?o] phys(1) o by simp
        with Some same copy(1) show ?thesis by (simp add: guest_memory_def)
      qed
    qed
  qed
qed

lemma write_fault_ok:
  assumes "x86_firmware_shadow_write_fault k machine binding err address = (X86_FIRMWARE_SHADOW_OK, k')"
  obtains (known) i where "owner_is_active k" "find_page (kernel_shadow k) (address AND X86_PAGE_ADDRESS_MASK) = Some i" "k' = k"
      "address < 0x100000" "page_state (slot k i) = X86_FIRMWARE_PAGE_ACTIVE"
      "x86_paging_guest_shadow_translate (kernel_paging k) (Some (page_snapshot (slot k i))) (page_physical (slot k i)) address True \<noteq> None"
    | (new) "owner_is_active k" "find_page (kernel_shadow k) (address AND X86_PAGE_ADDRESS_MASK) = None"
      "fault_on_new_page (address AND X86_PAGE_ADDRESS_MASK) k = (X86_FIRMWARE_SHADOW_OK, k')"
  using assms
  by (auto simp: x86_firmware_shadow_write_fault_def fault_on_known_page_def Let_def not_le split: if_splits option.splits)

lemma write_fault_view:
  assumes r: "kernel_reachable bi k" and run: "x86_firmware_shadow_write_fault k machine binding err address = (X86_FIRMWARE_SHADOW_OK, k')"
  shows "guest_memory k' = guest_memory k \<and> guest_reach k' address \<and> (\<forall>x. guest_reach k x \<longrightarrow> guest_reach k' x) \<and>
    (\<forall>y < 0x800000. kernel_memory k' y = kernel_memory k y)"
  using run
proof (cases rule: write_fault_ok)
  case (known i)
  have "\<not> 0x110000 \<le> address" using known(4) by (simp add: word_le_nat_alt word_less_nat_alt)
  moreover have "guest_linear_limit (shadow_paging (kernel_shadow k)) = 0x110000"
    using known(1) by (simp add: owner_is_active_def x86_paging_binding_is_active_def)
  ultimately have "x86_firmware_shadow_translate k address True \<noteq> None"
    using known by (simp add: x86_firmware_shadow_translate_def Let_def)
  then have "guest_reach k address" by (simp add: translate_eq guest_reach_def)
  with known(3) show ?thesis by simp
next
  case new
  have p: "paging_inv (kernel_paging k)" "paging_inv (kernel_paging k')"
    using paging_reachable_inv [OF kernel_tables] r kernel_reachable.shadow_faulted [OF r run] by blast+
  note V = new_page_view [OF kernel_private [OF r] p new]
  have "guest_reach k' address" using V(2) by (simp add: guest_reach_def)
  with V(1,3,4) show ?thesis by blast
qed


section \<open>The last release\<close>

lemma release_lease_map:
  assumes inv: "private_inv bi k" and run: "release_lease_of_page i k = (X86_FIRMWARE_SHADOW_OK, k')"
  shows "leases_of k' = (leases_of k)(page_lease (slot k i) := None)"
proof -
  let ?l = "page_lease (slot k i)" and ?a = "shadow_address_space (kernel_shadow k)"
  obtain st ro mm where rel: "x86_guest_memory_runtime_release (kernel_runtime k) (kernel_memory k) ?a ?l = (st, ro, mm)"
    by (metis prod_cases3)
  have ri: "runtime_inv bi (kernel_runtime k)" using inv by (simp add: private_inv_def)
  have "st = X86_GUEST_MEMORY_OK" "k' = clear_page i (k\<lparr>kernel_runtime := ro, kernel_memory := mm\<rparr>)"
    using run rel by (auto simp: release_lease_of_page_def Let_def split: if_splits)
  with runtime_release_correct [OF ri rel] show ?thesis by (auto simp: released_as_def clear_page_def)
qed

lemma release_page_map:
  assumes inv: "private_inv bi k" and run: "release_private_page i corrupt k = (X86_FIRMWARE_SHADOW_OK, corrupt', k')"
  shows "leases_of k' = (leases_of k)(page_lease (slot k i) := None)"
proof -
  obtain st k1 where r: "restore_page i k = (st, k1)" by fastforce
  have k1: "k1 = k\<lparr>kernel_paging := kernel_paging k1\<rparr>" using restore_page_eq [of i k] r by simp
  have inv1: "private_inv bi k1" using inv by (subst k1) simp
  have "\<exists>k2. private_inv bi k2 \<and> release_lease_of_page i k2 = (X86_FIRMWARE_SHADOW_OK, k') \<and> kernel_runtime k2 = kernel_runtime k \<and>
      page_lease (slot k2 i) = page_lease (slot k i)"
  proof (cases "page_state (slot k i) = X86_FIRMWARE_PAGE_ACTIVE")
    case False
    with run inv show ?thesis by (auto simp: release_private_page_def split: prod.splits)
  next
    case True
    let ?k2 = "update_page i (page_state_update (\<lambda>_. X86_FIRMWARE_PAGE_RESTORED)) k1"
    let ?k3 = "?k2\<lparr>kernel_shadow := (kernel_shadow ?k2)\<lparr>shadow_cleanup_corrupted := 1\<rparr>\<rparr>"
    have s: "slot k1 i = slot k i" "kernel_runtime k1 = kernel_runtime k" by (subst k1, simp)+
    have inv2: "private_inv bi ?k2" using inv1 True s by (intro private_inv_update) simp_all
    have inv3: "private_inv bi ?k3" using inv2 by (rule private_inv_cong) simp_all
    have "release_lease_of_page i ?k2 = (X86_FIRMWARE_SHADOW_OK, k') \<or> release_lease_of_page i ?k3 = (X86_FIRMWARE_SHADOW_OK, k')"
      using run True r by (auto simp: release_private_page_def Let_def split: if_splits prod.splits)
    moreover have "kernel_runtime ?k2 = kernel_runtime k" "page_lease (slot ?k2 i) = page_lease (slot k i)"
      "kernel_runtime ?k3 = kernel_runtime k" "page_lease (slot ?k3 i) = page_lease (slot k i)"
      using s by (simp_all add: update_page_def)
    ultimately show ?thesis using inv2 inv3 by blast
  qed
  then show ?thesis using release_lease_map by metis
qed

lemma release_loop_map:
  assumes "private_inv bi k" "\<And>i. i \<in> set is \<Longrightarrow> i < 64" "distinct is" "release_loop is corrupt k = Inr (corrupt', k')"
  shows "leases_of k' l = (if \<exists>i \<in> set is. page_state (slot k i) \<noteq> X86_FIRMWARE_PAGE_EMPTY \<and> page_lease (slot k i) = l then None else leases_of k l)"
  using assms
proof (induction "is" corrupt k rule: release_loop.induct)
  case (2 i "is" corrupt k)
  show ?case
  proof (cases "page_state (slot k i) = X86_FIRMWARE_PAGE_EMPTY")
    case True
    with 2(1) [OF True] 2(3-6) show ?thesis by auto
  next
    case False
    obtain st c k1 where rel: "release_private_page i corrupt k = (st, c, k1)" by (metis prod_cases3)
    have ok: "st = X86_FIRMWARE_SHADOW_OK" "release_loop is c k1 = Inr (corrupt', k')"
      using 2(6) False rel by (auto split: if_splits)
    have i: "i < 64" "i \<notin> set is" using 2(4,5) by simp_all
    note R = private_inv_release_page [OF 2(3) i(1) rel]
    have "leases_of k' l = (if \<exists>j \<in> set is. page_state (slot k1 j) \<noteq> X86_FIRMWARE_PAGE_EMPTY \<and> page_lease (slot k1 j) = l then None else leases_of k1 l)"
      using 2(2) [OF False rel [symmetric] refl refl] ok R 2(4,5) by simp
    moreover have "slot k1 j = slot k j" if "j \<in> set is" for j using R that i(2) by metis
    moreover have "leases_of k1 = (leases_of k)(page_lease (slot k i) := None)" using release_page_map [OF 2(3)] rel ok(1) by blast
    ultimately show ?thesis using False by auto
  qed
qed simp

lemma last_release:
  assumes inv: "private_inv bi k" and run: "x86_firmware_shadow_execution_release k machine (Some b) = (X86_FIRMWARE_SHADOW_OK, k')"
    and c: "resolve_client (kernel_shadow k) b = Some c" "client_active (shadow_clients (kernel_shadow k) c) \<noteq> 0"
      "shadow_client_count (kernel_shadow k) = 1"
  shows "(\<forall>i < 64. page_state (slot k' i) = X86_FIRMWARE_PAGE_EMPTY) \<and>
    leases_of k' = (\<lambda>l. if \<exists>i < 64. page_state (slot k i) \<noteq> X86_FIRMWARE_PAGE_EMPTY \<and> page_lease (slot k i) = l then None else leases_of k l)"
proof -
  have L: "case release_loop (rev [0..<64]) False k of
      Inl (status, k') \<Rightarrow> private_inv bi k' \<and> status \<noteq> X86_FIRMWARE_SHADOW_OK
    | Inr (corrupt', k') \<Rightarrow> private_inv bi k' \<and>
        (\<forall>i. i \<in> set (rev [0..<64]) \<or> page_state (slot k i) = X86_FIRMWARE_PAGE_EMPTY \<longrightarrow> page_state (slot k' i) = X86_FIRMWARE_PAGE_EMPTY)"
    by (rule private_inv_release_loop [OF inv]) simp
  show ?thesis
  proof (cases "release_loop (rev [0..<64]) False k")
    case (Inl e)
    with L run c show ?thesis
      by (auto simp: x86_firmware_shadow_execution_release_def simp del: upt_Suc split: if_splits prod.splits)
  next
    case (Inr e)
    obtain corrupt k1 where e: "e = (corrupt, k1)" by fastforce
    have k': "k' = drop_client c (\<lambda>_. 0) k1"
      using run c Inr e by (auto simp: x86_firmware_shadow_execution_release_def Let_def simp del: upt_Suc split: if_splits)
    note M = release_loop_map [OF inv _ _ Inr [unfolded e]]
    have "leases_of k1 l = (if \<exists>i < 64. page_state (slot k i) \<noteq> X86_FIRMWARE_PAGE_EMPTY \<and> page_lease (slot k i) = l then None else leases_of k l)" for l
      using M [of l] by (auto simp del: upt_Suc)
    moreover have "\<forall>i < 64. page_state (slot k1 i) = X86_FIRMWARE_PAGE_EMPTY" using L Inr e by (simp del: upt_Suc)
    ultimately show ?thesis unfolding k' by (auto simp: drop_client_def)
  qed
qed

lemma empty_slots_identity:
  assumes "\<forall>i < 64. page_state (slot k i) = X86_FIRMWARE_PAGE_EMPTY" "guest_frame k w page = Some f" "page AND 0xfff = 0"
  shows "f = page"
  using assms(2,3) by (rule frame_cases) (use assms(1) in \<open>auto simp: find_page_def find_Some_iff\<close>)


section \<open>A client of the sample kernel\<close>

definition sample_client :: guest_kernel where
  "sample_client = fst (snd (x86_firmware_shadow_execution_acquire sample_kernel 9))"

definition sample_client_binding :: x86_guest_space_firmware_binding where
  "sample_client_binding = \<lparr>bind_address_space = 7, bind_space_generation = 1, bind_machine = 9, bind_execution_generation = 1,
     bind_client_generation = 1, bind_client_slot = 0, bind_reserved = replicate 4 0\<rparr>"

lemma sample_identity: "valid_identity 7" "valid_identity 9"
  by (simp_all add: valid_identity_def KERNEL_OBJECT_HANDLE_INVALID_def)

lemma sample_kernel_eq: "sample_kernel = \<lparr>kernel_paging = sample_paging, kernel_runtime = sample_runtime, kernel_memory = (\<lambda>_. 0),
    kernel_shadow = \<lparr>shadow_paging = sample_binding, shadow_clients = (\<lambda>_. empty_client), shadow_pages = (\<lambda>_. empty_shadow_page),
      shadow_address_space = 7, shadow_machine = 9, shadow_space_generation = 1, shadow_execution_generation = 0, shadow_client_count = 0,
      shadow_page_count = 0, shadow_initialized = 1, shadow_poisoned = 0, shadow_cleanup_corrupted = 0\<rparr>\<rparr>"
  using sample_binding_active sample_identity by (simp add: sample_kernel_def x86_firmware_shadow_initialize_def)

lemma sample_acquired:
  "x86_firmware_shadow_execution_acquire sample_kernel 9 = (X86_FIRMWARE_SHADOW_OK, sample_client, Some sample_client_binding)"
  using sample_binding_active sample_identity(2)
  by (simp add: sample_client_def x86_firmware_shadow_execution_acquire_def owner_is_active_def Let_def empty_client_def
      sample_kernel_eq sample_client_binding_def upt_rec)

lemma sample_client_reachable: "kernel_reachable sample_boot_info sample_client"
  by (rule kernel_reachable.shadow_acquired [OF sample_kernel_reachable sample_acquired])


lemma sample_client_eq: "sample_client = sample_kernel\<lparr>kernel_shadow := (kernel_shadow sample_kernel)\<lparr>shadow_execution_generation := 1,
    shadow_clients := (\<lambda>_. empty_client)(0 := \<lparr>client_slot_generation = 1, client_execution_generation = 1, client_active = 1\<rparr>),
    shadow_client_count := 1\<rparr>\<rparr>"
  using sample_binding_active sample_identity(2)
  by (simp add: sample_client_def x86_firmware_shadow_execution_acquire_def owner_is_active_def Let_def empty_client_def sample_kernel_eq upt_rec)

lemma sample_client_simps:
  "owner_is_active sample_client" "resolve_client (kernel_shadow sample_client) sample_client_binding = Some 0"
  "client_active (shadow_clients (kernel_shadow sample_client) 0) = 1" "find_page (kernel_shadow sample_client) x = None"
  "find_empty_page (kernel_shadow sample_client) = Some 0" "page_state (slot sample_client i) = X86_FIRMWARE_PAGE_EMPTY"
  using sample_binding_active
  by (simp_all add: sample_client_eq sample_kernel_eq owner_is_active_def resolve_client_def binding_header_matches_def sample_client_binding_def
      Let_def find_page_def find_empty_page_def empty_shadow_page_def find_None_iff list_all_iff upt_rec)

lemma sample_pool: "fresh_manager sample_boot_info runtime_ops 1 (runtime_manager sample_runtime)"
proof -
  let ?m = "x86_guest_memory_construct blank_manager :: runtime_backing x86_guest_memory_manager"
  obtain st m where i: "x86_guest_memory_initialize ?m (Some sample_boot_info) (Some runtime_ops) 1 = (st, m)" by fastforce
  have "{p. page_available sample_boot_info p} \<noteq> {}" using sample_page by blast
  then have "st = X86_GUEST_MEMORY_OK \<and> fresh_manager sample_boot_info runtime_ops 1 m"
    using initialize_cases [OF blank_ready(1) _ _ sample_valid i] by (simp add: x86_guest_memory_construct_def)
  then show ?thesis using i blank_ready(1) by (simp add: sample_runtime_def x86_guest_memory_runtime_initialize_def)
qed

lemma sample_shadow:
  "\<exists>s. x86_paging_guest_shadow_snapshot sample_paging (Some sample_binding) 0xf0000 = (X86_PAGING_GUEST_SHADOW_OK, Some s)"
proof -
  have "page_directory sample_paging 0 = 0x510007"
    by (simp add: sample_paging_def x86_paging_initialize_def sample_table_count boot_directory_entry_def cleared_paging_def Let_def)
  then show ?thesis
    using low_boot_page_entry(1) [OF paging_reachable_inv [OF sample_reachable], of "0xf0000"] sample_binding_active
    by (auto simp: x86_paging_guest_shadow_snapshot_def guest_directory_is_user_accessible_def entry_at_def sample_entries)
qed

lemma sample_page_served: "fst (fault_on_new_page 0xf0000 sample_client) = X86_FIRMWARE_SHADOW_OK"
proof -
  note f = sample_pool [unfolded fresh_manager_def]
  obtain s where "x86_paging_guest_shadow_snapshot sample_paging (Some sample_binding) 0xf0000 = (X86_PAGING_GUEST_SHADOW_OK, Some s)"
    using sample_shadow by blast
  moreover have "0 \<in> free_pages (runtime_manager sample_runtime)" using f sample_page by (auto simp: free_pages_def)
  ultimately show ?thesis
    using kernel_tables [OF sample_client_reachable] f sample_identity(1)
    by (intro new_page_succeeds [OF kernel_private [OF sample_client_reachable], where f = 0 and i = 0 and j = 0 and s = s])
      (simp_all add: sample_client_simps, simp_all add: sample_client_eq sample_kernel_eq empty_lease_slot_def)
qed

lemma sample_fault_served:
  obtains k where "x86_firmware_shadow_write_fault sample_client 9 (Some sample_client_binding) X86_FIRMWARE_WRITE_FAULT 0xf0123 =
    (X86_FIRMWARE_SHADOW_OK, k)"
proof -
  have "shadow_machine (kernel_shadow sample_client) = 9" by (simp add: sample_client_eq sample_kernel_eq)
  then have "fst (x86_firmware_shadow_write_fault sample_client 9 (Some sample_client_binding) X86_FIRMWARE_WRITE_FAULT 0xf0123) =
      X86_FIRMWARE_SHADOW_OK"
    using sample_page_served by (simp add: x86_firmware_shadow_write_fault_def sample_client_simps sample_identity)
  then show thesis by (metis that prod.collapse)
qed

text \<open>C29: copy-on-write is invisible to the guest. In every state the kernel can reach, a write fault in the firmware window that is
  resolved leaves every byte the guest reads as it was, makes the faulting address writable, takes no address away, and writes no
  byte below the managed memory, the firmware image included.\<close>

theorem copy_on_write_is_transparent:
  assumes "kernel_reachable bi k"
    and "x86_firmware_shadow_write_fault k machine binding err address = (X86_FIRMWARE_SHADOW_OK, k')"
  shows "guest_memory k' = guest_memory k \<and> guest_reach k' address \<and> (\<forall>x. guest_reach k x \<longrightarrow> guest_reach k' x) \<and>
    (\<forall>y < X86_BOOT_IDENTITY_FLOOR. kernel_memory k' y = kernel_memory k y)"
  by (rule write_fault_view [OF assms])

theorem copy_on_write_is_transparent_witness:
  "\<exists>k'. x86_firmware_shadow_write_fault sample_client 9 (Some sample_client_binding) X86_FIRMWARE_WRITE_FAULT 0xf0123 =
      (X86_FIRMWARE_SHADOW_OK, k') \<and> guest_memory k' = guest_memory sample_client \<and> guest_reach k' 0xf0123"
proof -
  obtain k where k: "x86_firmware_shadow_write_fault sample_client 9 (Some sample_client_binding) X86_FIRMWARE_WRITE_FAULT 0xf0123 =
    (X86_FIRMWARE_SHADOW_OK, k)" by (rule sample_fault_served)
  from copy_on_write_is_transparent [OF sample_client_reachable k] k show ?thesis by blast
qed

text \<open>C30: a fault is served whenever there is something to serve it with: for an active client that writes to a firmware page that has no
  private copy yet, if a page slot, a lease slot and a page of the pool are free and the page is still mapped as firmware,
  the fault is resolved. In particular every page of the pool is a possible copy, and clearing, copying and publishing it
  cannot fail.\<close>

theorem firmware_faults_are_served:
  assumes "kernel_reachable bi k" "owner_is_active k" "valid_identity machine" "machine = shadow_machine (kernel_shadow k)"
    and "resolve_client (kernel_shadow k) b = Some c" "client_active (shadow_clients (kernel_shadow k) c) = 1"
    and "X86_DOS_VIDEO_LIMIT \<le> address" "address < X86_LEGACY_ROM_LIMIT"
    and "find_page (kernel_shadow k) (address AND X86_PAGE_ADDRESS_MASK) = None"
    and "shadow_page_count (kernel_shadow k) < 64" "find_empty_page (kernel_shadow k) = Some i"
    and "fst (x86_paging_guest_shadow_snapshot (kernel_paging k) (Some (shadow_paging (kernel_shadow k)))
      (address AND X86_PAGE_ADDRESS_MASK)) = X86_PAGING_GUEST_SHADOW_OK"
    and "manager_poisoned (runtime_manager (kernel_runtime k)) = 0" "valid_identity (shadow_address_space (kernel_shadow k))"
    and "free_pages (runtime_manager (kernel_runtime k)) \<noteq> {}"
    and "j < X86_GUEST_MEMORY_LEASE_COUNT" "lease_state (leases (runtime_manager (kernel_runtime k)) j) = X86_GUEST_MEMORY_LEASE_FREE"
      "lease_generation (leases (runtime_manager (kernel_runtime k)) j) < X86_GUEST_MEMORY_GENERATION_MAX"
  shows "fst (x86_firmware_shadow_write_fault k machine (Some b) X86_FIRMWARE_WRITE_FAULT address) = X86_FIRMWARE_SHADOW_OK"
proof -
  let ?p = "address AND X86_PAGE_ADDRESS_MASK"
  obtain s where s: "x86_paging_guest_shadow_snapshot (kernel_paging k) (Some (shadow_paging (kernel_shadow k))) ?p =
      (X86_PAGING_GUEST_SHADOW_OK, Some s)"
    using assms(12) by (auto simp: x86_paging_guest_shadow_snapshot_def split: if_splits option.splits)
  obtain f where "f \<in> free_pages (runtime_manager (kernel_runtime k))" using assms(15) by blast
  from new_page_succeeds [OF kernel_private [OF assms(1)] kernel_tables [OF assms(1)] assms(10,11) s assms(13,14) this assms(16-18)]
  show ?thesis using assms(2-9) by (simp add: x86_firmware_shadow_write_fault_def not_less not_le Let_def)
qed

theorem firmware_faults_are_served_witness:
  "fst (x86_firmware_shadow_write_fault sample_client 9 (Some sample_client_binding) X86_FIRMWARE_WRITE_FAULT 0xf0123) =
     X86_FIRMWARE_SHADOW_OK"
proof -
  note f = sample_pool [unfolded fresh_manager_def]
  have "0 \<in> free_pages (runtime_manager sample_runtime)" using f sample_page by (auto simp: free_pages_def)
  then show ?thesis
    using f sample_shadow sample_identity sample_client_simps
    by (intro firmware_faults_are_served [OF sample_client_reachable, where c = 0 and i = 0 and j = 0])
      (auto simp: sample_client_eq sample_kernel_eq empty_lease_slot_def)
qed



end
