(* ===== verification/Spec2Isabelle.thy ===== *)
theory Spec2Isabelle
  imports MemoryMapQuery McbGuest FirmwareCopy
begin

text \<open>
  A verification development of the memory and isolation core of DOS/C32, a 32-bit kernel that runs
  16-bit DOS programs as guests.

  \<^bold>\<open>Parts and how they interact.\<close> The boot loader hands a firmware memory map to the kernel
  (\<open>kernel/x86_vm/memory/map.c\<close>). Paging (\<open>kernel/x86_paging.c\<close>, \<open>kernel/x86_page_policy.c\<close>) builds an identity
  map from it and decides which pages a guest can reach. The guest page manager
  (\<open>kernel/x86_vm/memory/physical.c\<close>) leases whole pages of the usable memory above 8 MiB; one manager lives as long
  as the kernel (\<open>kernel/x86_vm/memory/runtime.c\<close>) and clears pages with the bounded memory routines of
  \<open>libc32/string.c\<close>. When a guest writes to firmware, a leased page takes the place of the read-only page
  (\<open>kernel/x86_vm/memory/firmware_shadow.c\<close>). The guest address space (\<open>kernel/x86_vm/guest_space.c\<close>) puts
  these together into the memory callbacks of the machine interface (\<open>dos/machine.c\<close>), on which the DOS memory
  arena (\<open>dos/memory.c\<close>) keeps its chain of memory control blocks inside guest memory.

  \<^bold>\<open>State and operations.\<close> Each C structure is a record with the structure's fields and each enumeration a datatype with
  the source's constructors; the static objects of a file form one record that its operations take and
  return. Fixed-width integers are words of the same width, \<open>size_t\<close> is a natural number, an absent
  pointer is \<open>None\<close>, a C array is a function on indices, and memory is a function from 32-bit addresses to bytes. One definition
  stands for one C function; where a function contains a loop, the loop is a definition of its own.

  \<^bold>\<open>Theories.\<close>
  \<^item> DosPrelude: machine types, byte and word lemmas, the read-over-write laws of flat memory.
  \<^item> MemoryMap, MemoryMapQuery: \<open>map.c\<close>. The coverage loop and the boundary sweep are shown equal to a byte-wise notion
    of usable memory.
  \<^item> Paging, PagingProof, PagingSafety: \<open>x86_paging.c\<close> and \<open>x86_page_policy.c\<close>. The processor's page walk, an
    invariant of the tables kept by every operation, what a guest can reach, exact undoing of grants and aliases,
    and that live entries never change without a flush.
  \<^item> PhysicalPages, PhysicalProof, PhysicalLeases, PhysicalInit, PhysicalSafety: \<open>physical.c\<close>. Bitmaps and lease slots refine a
    finite map from leases to owners and page runs; leases are disjoint, released handles stay dead, and the capacity
    query is exact.
  \<^item> NativeMemory: the bounded routines of \<open>string.c\<close> and the identity mapping of \<open>include/address.h\<close>.
  \<^item> GuestRuntime: \<open>runtime.c\<close>. Pages change hands cleared, and clearing cannot fail.
  \<^item> FirmwareShadow: \<open>firmware_shadow.c\<close>. FirmwareSafety shows over every history of the kernel that a private page
    belongs to one guest page alone. PoolMapping shows that every page of the pool can stand in for a firmware page. FirmwareCopy shows
    that copy-on-write is invisible to the guest, that faults are served while resources last, and that the last release
    gives everything back.
  \<^item> GuestMachine, GuestBackend: \<open>machine.c\<close> over an abstract backend. The locale \<open>guest_backend\<close> states what a backend promises
    and proves the byte semantics of linear and far transfers once.
  \<^item> GuestSpace: the memory callbacks of \<open>guest_space.c\<close>, with the interpretation of \<open>guest_backend\<close> on them.
  \<^item> McbArena, McbSpec, McbProof, McbAlloc, McbSplit, McbOps, McbRelease, McbLifecycle, McbInvariant: \<open>memory.c\<close>. The
    operations on raw guest bytes refine operations on a list of blocks, for every backend that keeps the contract.
  \<^item> McbGuest: the results on the arena and on machine transfers, stated for the guest address space itself.

  \<^bold>\<open>Bounds.\<close> The walk over the arena carries the code's own limit of steps; a chain inside the 64 Ki paragraphs of the
  real-mode address space is never longer, so no well-formed chain is cut off. The other loops end by a decreasing
  measure or run over a fixed list of indices; no definition runs out of fuel. The table, slot, lease and page counts are those of
  the headers.

  \<^bold>\<open>Parameters.\<close> The port callbacks of the machine, the zeroing callback of the page manager and the state behind them are
  arguments of the definitions that use them. The hardware enters through \<open>cr0\<close>, \<open>cr3\<close>, the flush count and the page walk of
  PagingProof.

  \<^bold>\<open>Not modelled.\<close> Of \<open>guest_space.c\<close>, the device topology, the event pump and the display capability: they compose
  the device models, which are outside this development. Of \<open>libc32\<close>, integer conversion, formatting, 64-bit division,
  character classes and the bump arena: no modelled component calls them. The accessors compiled only for host tests are
  left out. EMS and XMS, the virtual chipset, interrupt routing, the VM86 monitor, file systems, EXEC, the INT 21h
  services, the command interpreter and the input stack are clients or neighbours of the modelled parts and are not
  covered; the drivers, the boot loader and the build tools are hardware access or build-time code. The guest processor is
  covered only by its effect on memory: between two kernel operations it may change memory arbitrarily.
\<close>

end
